(* ===== verification/Prelude.thy ===== *)
theory Prelude
  imports Main "HOL-Library.Word" "HOL-Library.AList" "HOL-Library.Option_ord"
    "HOL-Library.List_Lexorder" "HOL-Library.Char_ord"
begin

text \<open>
  What every component of the development shares: names for the machine types, the standard
  collections and string routines the Rust sources call (\<^verbatim>\<open>HashMap\<close>, \<^verbatim>\<open>str::split\<close>,
  \<^verbatim>\<open>str::split_once\<close>, \<^verbatim>\<open>str::trim\<close>, \<^verbatim>\<open>str::parse\<close>, \<^verbatim>\<open>slice::binary_search_by\<close>), and two
  interfaces stated as locales: a dictionary (\<open>dict\<close>) and a preorder of recency with an upper
  bound operation (\<open>recency\<close>).

  \<^item> A \<^verbatim>\<open>HashMap\<close> is an association list with distinct keys. The order of the list is the
    (unspecified) iteration order of the map, so a lemma about all lists holds for every
    iteration order.
  \<^item> A \<^verbatim>\<open>str\<close> is a list of characters, one per byte. \<^verbatim>\<open>trim\<close> strips ASCII white space.
  \<^item> A \<^verbatim>\<open>Duration\<close> and an \<^verbatim>\<open>Instant\<close> are numbers of nanoseconds.
\<close>

section \<open>Machine types\<close>

type_synonym u8 = "8 word"
type_synonym u16 = "16 word"
type_synonym u32 = "32 word"
type_synonym u64 = "64 word"
type_synonym duration = nat
type_synonym instant = nat

definition from_millis :: "nat \<Rightarrow> duration" where
  "from_millis ms = ms * 1000000"

definition from_secs :: "nat \<Rightarrow> duration" where
  "from_secs s = s * 1000000000"

definition saturating_duration_since :: "instant \<Rightarrow> instant \<Rightarrow> duration" where
  "saturating_duration_since now earlier = now - earlier"

definition saturating_add_word :: "'a::len word \<Rightarrow> 'a word \<Rightarrow> 'a word" where
  "saturating_add_word a b = (if unat a + unat b < 2 ^ LENGTH('a) then a + b else - 1)"

named_theorems hm_simps \<open>lookups in hash maps\<close>
named_theorems str_simps \<open>splitting and parsing of strings\<close>

section \<open>Hash maps\<close>

type_synonym ('k, 'v) hashmap = "('k \<times> 'v) list"

abbreviation hm_get :: "('k, 'v) hashmap \<Rightarrow> 'k \<Rightarrow> 'v option" where
  "hm_get \<equiv> map_of"

abbreviation hm_insert :: "'k \<Rightarrow> 'v \<Rightarrow> ('k, 'v) hashmap \<Rightarrow> ('k, 'v) hashmap" where
  "hm_insert \<equiv> AList.update"

abbreviation hm_remove :: "'k \<Rightarrow> ('k, 'v) hashmap \<Rightarrow> ('k, 'v) hashmap" where
  "hm_remove \<equiv> AList.delete"

definition hm_wf :: "('k, 'v) hashmap \<Rightarrow> bool" where
  "hm_wf m \<longleftrightarrow> distinct (map fst m)"

definition hm_contains_key :: "'k \<Rightarrow> ('k, 'v) hashmap \<Rightarrow> bool" where
  "hm_contains_key k m \<longleftrightarrow> hm_get m k \<noteq> None"

text \<open>\<^verbatim>\<open>entry(k).and_modify(f).or_insert(v)\<close>.\<close>

definition hm_upsert :: "'k \<Rightarrow> ('v \<Rightarrow> 'v) \<Rightarrow> 'v \<Rightarrow> ('k, 'v) hashmap \<Rightarrow> ('k, 'v) hashmap" where
  "hm_upsert k f v m = hm_insert k (case hm_get m k of None \<Rightarrow> v | Some x \<Rightarrow> f x) m"

text \<open>\<^verbatim>\<open>retain\<close> and \<^verbatim>\<open>values_mut\<close>.\<close>

definition hm_retain :: "('k \<Rightarrow> 'v \<Rightarrow> bool) \<Rightarrow> ('k, 'v) hashmap \<Rightarrow> ('k, 'v) hashmap" where
  "hm_retain P m = filter (\<lambda>(k, v). P k v) m"

definition hm_map_values :: "('v \<Rightarrow> 'v) \<Rightarrow> ('k, 'v) hashmap \<Rightarrow> ('k, 'v) hashmap" where
  "hm_map_values f m = map (\<lambda>(k, v). (k, f v)) m"

text \<open>Equality of hash maps as the standard library decides it: same size, and every entry of
  the one is found in the other.\<close>

definition hm_eq :: "('k, 'v) hashmap \<Rightarrow> ('k, 'v) hashmap \<Rightarrow> bool" where
  "hm_eq a b \<longleftrightarrow> length a = length b \<and> list_all (\<lambda>(k, v). hm_get b k = Some v) a"

lemma hm_get_insert [hm_simps]: "hm_get (hm_insert k v m) = (hm_get m)(k \<mapsto> v)"
  by (rule update_conv')

lemma hm_get_remove [hm_simps]: "hm_get (hm_remove k m) = (hm_get m)(k := None)"
  by (rule delete_conv')

lemma hm_wf_Nil [simp]: "hm_wf []"
  by (simp add: hm_wf_def)

lemma hm_wf_insert [simp]: "hm_wf m \<Longrightarrow> hm_wf (hm_insert k v m)"
  by (simp add: hm_wf_def distinct_update)

lemma hm_wf_remove [simp]: "hm_wf m \<Longrightarrow> hm_wf (hm_remove k m)"
  by (simp add: hm_wf_def distinct_delete)

lemma hm_wf_upsert [simp]: "hm_wf m \<Longrightarrow> hm_wf (hm_upsert k f v m)"
  by (simp add: hm_upsert_def)

lemma hm_wf_retain [simp]: "hm_wf m \<Longrightarrow> hm_wf (hm_retain P m)"
  by (auto simp: hm_wf_def hm_retain_def distinct_map intro: inj_on_subset)

lemma hm_wf_map_values [simp]: "hm_wf (hm_map_values f m) = hm_wf m"
  by (simp add: hm_wf_def hm_map_values_def case_prod_beta' comp_def)

lemma hm_get_map_values [hm_simps]: "hm_get (hm_map_values f m) k = map_option f (hm_get m k)"
  by (induction m) (auto simp: hm_map_values_def)

lemma hm_get_retain [hm_simps]:
  "hm_wf m \<Longrightarrow> hm_get (hm_retain P m) k =
     (case hm_get m k of None \<Rightarrow> None | Some v \<Rightarrow> if P k v then Some v else None)"
proof (induction m)
  case Nil
  then show ?case by (simp add: hm_retain_def)
next
  case (Cons x m)
  obtain k' v' where x: "x = (k', v')" by (cases x)
  have absent: "k = k' \<Longrightarrow> hm_get m k = None"
    using Cons.prems by (auto simp: x hm_wf_def map_of_eq_None_iff)
  with Cons show ?case
    by (auto simp: x hm_retain_def hm_wf_def split: option.splits)
qed

lemma hm_get_iff_mem: "hm_wf m \<Longrightarrow> hm_get m k = Some v \<longleftrightarrow> (k, v) \<in> set m"
  by (simp add: hm_wf_def map_of_eq_Some_iff)

lemma hm_eq_iff:
  assumes a: "hm_wf a" and b: "hm_wf b"
  shows "hm_eq a b \<longleftrightarrow> hm_get a = hm_get b"
proof
  assume eq: "hm_eq a b"
  have sub: "set a \<subseteq> set b"
    using eq hm_get_iff_mem [OF b] by (auto simp: hm_eq_def list_all_iff)
  have "distinct a" and "distinct b"
    using a b by (auto simp: hm_wf_def distinct_map)
  then have "card (set a) = card (set b)"
    using eq by (simp add: hm_eq_def distinct_card)
  with sub have "set a = set b"
    by (simp add: card_subset_eq)
  then show "hm_get a = hm_get b"
    using a b by (auto simp: hm_wf_def intro: map_of_inject_set [THEN iffD2])
next
  assume eq: "hm_get a = hm_get b"
  then have "set a = set b"
    using a b by (simp add: hm_wf_def map_of_inject_set)
  moreover have "distinct a" and "distinct b"
    using a b by (auto simp: hm_wf_def distinct_map)
  ultimately have "length a = length b"
    by (metis distinct_card)
  then show "hm_eq a b"
    using eq hm_get_iff_mem [OF a] by (auto simp: hm_eq_def list_all_iff)
qed

lemma hm_insert_same: "hm_get m k = Some v \<Longrightarrow> hm_insert k v m = m"
  by (induction m) (auto split: if_splits)

lemma hm_filter_key:
  "hm_wf m \<Longrightarrow> map snd (filter (\<lambda>p. fst p = k) m) = (case hm_get m k of None \<Rightarrow> [] | Some v \<Rightarrow> [v])"
proof (induction m)
  case Nil
  then show ?case by simp
next
  case (Cons p m)
  have "fst p = k \<Longrightarrow> hm_get m k = None"
    using Cons.prems by (auto simp: hm_wf_def map_of_eq_None_iff)
  with Cons show ?case by (auto simp: hm_wf_def)
qed

lemma u64_unat_less: "unat (w :: u64) < 2 ^ 64"
proof -
  have "(unsigned w :: nat) < 2 ^ LENGTH(64)" by (rule unsigned_less)
  then show ?thesis by simp
qed

lemma unat_word_of_int_less:
  assumes "0 \<le> i" "i < 2 ^ 63"
  shows "unat (word_of_int i :: u64) < 2 ^ 63"
proof -
  have "unat (word_of_int i :: u64) = nat i"
    using assms by (simp add: unsigned_of_int take_bit_int_eq_self)
  then show ?thesis using assms by (simp add: nat_less_iff)
qed

section \<open>Dictionaries as an interface\<close>

text \<open>What \<^verbatim>\<open>entry(k).and_modify(..).or_insert(..)\<close>, run over a sequence of values for one key,
  leaves under that key: the values are combined from the left, starting from what was there.\<close>

definition fold_entry :: "('v \<Rightarrow> 'v \<Rightarrow> 'v) \<Rightarrow> 'v list \<Rightarrow> 'v option \<Rightarrow> 'v option" where
  "fold_entry f vs old =
     fold (\<lambda>v acc. Some (case acc of None \<Rightarrow> v | Some x \<Rightarrow> f x v)) vs old"

lemma fold_entry_Nil [simp]: "fold_entry f [] old = old"
  by (simp add: fold_entry_def)

lemma fold_entry_Cons [simp]:
  "fold_entry f (v # vs) old = fold_entry f vs (Some (case old of None \<Rightarrow> v | Some x \<Rightarrow> f x v))"
  by (simp add: fold_entry_def)

lemma fold_entry_Some: "fold_entry f vs (Some x) = Some (fold (\<lambda>v acc. f acc v) vs x)"
  by (induction vs arbitrary: x) simp_all

text \<open>
  The contract of a dictionary: lookups after an insertion, and the invariant the insertion keeps.
  Its client lemmas describe the loop that the session cache, the session-token merge and the
  parsing of thin-client locations share, a fold of upserts over key-value pairs.
\<close>

locale dict =
  fixes get :: "'m \<Rightarrow> 'k \<Rightarrow> 'v option"
    and ins :: "'k \<Rightarrow> 'v \<Rightarrow> 'm \<Rightarrow> 'm"
    and wf :: "'m \<Rightarrow> bool"
  assumes get_ins: "wf m \<Longrightarrow> get (ins k v m) = (get m)(k \<mapsto> v)"
    and wf_ins: "wf m \<Longrightarrow> wf (ins k v m)"
begin

lemma wf_fold_upsert:
  "wf m \<Longrightarrow>
   wf (fold (\<lambda>(k, v) m. ins k (case get m k of None \<Rightarrow> v | Some x \<Rightarrow> f x v) m) kvs m)"
  by (induction kvs arbitrary: m) (auto simp: wf_ins)

lemma get_fold_upsert:
  "wf m \<Longrightarrow>
   get (fold (\<lambda>(k, v) m. ins k (case get m k of None \<Rightarrow> v | Some x \<Rightarrow> f x v) m) kvs m) k =
     fold_entry f (map snd (filter (\<lambda>p. fst p = k) kvs)) (get m k)"
proof (induction kvs arbitrary: m)
  case Nil
  then show ?case by simp
next
  case (Cons p kvs)
  obtain k' v where p: "p = (k', v)" by (cases p)
  from Cons.prems have "wf (ins k' (case get m k' of None \<Rightarrow> v | Some x \<Rightarrow> f x v) m)"
    by (rule wf_ins)
  from Cons.IH [OF this] Cons.prems show ?case
    by (auto simp: p get_ins)
qed

lemma get_fold_upsert_frame:
  assumes "wf m" and "k \<notin> fst ` set kvs"
  shows "get (fold (\<lambda>(k, v) m. ins k (case get m k of None \<Rightarrow> v | Some x \<Rightarrow> f x v) m) kvs m) k =
    get m k"
proof -
  have "filter (\<lambda>p. fst p = k) kvs = []"
    using assms(2) by (auto simp: filter_empty_conv)
  then show ?thesis
    using get_fold_upsert [OF assms(1), of f kvs k] by simp
qed

end

interpretation hm: dict hm_get hm_insert hm_wf
  by unfold_locales (simp_all add: hm_simps)

definition hm_upsert_all :: "('v \<Rightarrow> 'v \<Rightarrow> 'v) \<Rightarrow> ('k \<times> 'v) list \<Rightarrow> ('k, 'v) hashmap \<Rightarrow> ('k, 'v) hashmap" where
  "hm_upsert_all f kvs m = fold (\<lambda>(k, v) m. hm_upsert k (\<lambda>x. f x v) v m) kvs m"

lemma hm_upsert_all_wf [simp]: "hm_wf m \<Longrightarrow> hm_wf (hm_upsert_all f kvs m)"
  unfolding hm_upsert_all_def hm_upsert_def by (rule hm.wf_fold_upsert)

lemma hm_get_upsert_all [hm_simps]:
  "hm_wf m \<Longrightarrow> hm_get (hm_upsert_all f kvs m) k =
     fold_entry f (map snd (filter (\<lambda>p. fst p = k) kvs)) (hm_get m k)"
  unfolding hm_upsert_all_def hm_upsert_def by (rule hm.get_fold_upsert)

lemma hm_get_upsert_all_frame:
  "hm_wf m \<Longrightarrow> k \<notin> fst ` set kvs \<Longrightarrow> hm_get (hm_upsert_all f kvs m) k = hm_get m k"
  unfolding hm_upsert_all_def hm_upsert_def by (rule hm.get_fold_upsert_frame)

section \<open>Recency\<close>

text \<open>
  The contract of session progress: a preorder ``at least as recent as'' on well-formed values and
  a merge that is an upper bound of its arguments. Whatever is merged in, and in whatever order,
  the accumulated value stays at least as recent as everything merged so far.
\<close>

locale recency =
  fixes ok :: "'a \<Rightarrow> bool"
    and recent :: "'a \<Rightarrow> 'a \<Rightarrow> bool"
    and join :: "'a \<Rightarrow> 'a \<Rightarrow> 'a"
  assumes recent_refl: "ok a \<Longrightarrow> recent a a"
    and recent_trans: "ok a \<Longrightarrow> ok b \<Longrightarrow> ok c \<Longrightarrow> recent a b \<Longrightarrow> recent b c \<Longrightarrow> recent a c"
    and join_ok: "ok a \<Longrightarrow> ok b \<Longrightarrow> ok (join a b)"
    and join_left: "ok a \<Longrightarrow> ok b \<Longrightarrow> recent (join a b) a"
    and join_right: "ok a \<Longrightarrow> ok b \<Longrightarrow> recent (join a b) b"
begin

lemma fold_join_ok: "ok a \<Longrightarrow> \<forall>x \<in> set xs. ok x \<Longrightarrow> ok (fold (\<lambda>v acc. join acc v) xs a)"
  by (induction xs arbitrary: a) (auto simp: join_ok)

lemma fold_join_init:
  "ok a \<Longrightarrow> \<forall>x \<in> set xs. ok x \<Longrightarrow> recent (fold (\<lambda>v acc. join acc v) xs a) a"
proof (induction xs arbitrary: a)
  case Nil
  then show ?case by (simp add: recent_refl)
next
  case (Cons x xs)
  then have j: "ok (join a x)" by (simp add: join_ok)
  with Cons have "recent (fold (\<lambda>v acc. join acc v) xs (join a x)) (join a x)" by simp
  moreover have "ok (fold (\<lambda>v acc. join acc v) xs (join a x))"
    using j Cons.prems by (simp add: fold_join_ok)
  moreover have "recent (join a x) a" using Cons.prems by (simp add: join_left)
  ultimately have "recent (fold (\<lambda>v acc. join acc v) xs (join a x)) a"
    using j Cons.prems(1) by (metis recent_trans)
  then show ?case by simp
qed

lemma fold_join_elem:
  "ok a \<Longrightarrow> \<forall>x \<in> set xs. ok x \<Longrightarrow> y \<in> set xs \<Longrightarrow> recent (fold (\<lambda>v acc. join acc v) xs a) y"
proof (induction xs arbitrary: a)
  case Nil
  then show ?case by simp
next
  case (Cons x xs)
  then have j: "ok (join a x)" by (simp add: join_ok)
  show ?case
  proof (cases "y \<in> set xs")
    case True
    then show ?thesis using Cons j by simp
  next
    case False
    with Cons.prems have y: "y = x" by simp
    have "recent (fold (\<lambda>v acc. join acc v) xs (join a x)) (join a x)"
      using j Cons.prems by (simp add: fold_join_init)
    moreover have "recent (join a x) x" using Cons.prems by (simp add: join_right)
    moreover have "ok (fold (\<lambda>v acc. join acc v) xs (join a x))"
      using j Cons.prems by (simp add: fold_join_ok)
    ultimately have "recent (fold (\<lambda>v acc. join acc v) xs (join a x)) x"
      using j Cons.prems(2) by (meson list.set_intros(1) recent_trans)
    then show ?thesis by (simp add: y)
  qed
qed

lemma fold_entry_recent:
  assumes old: "\<And>x. old = Some x \<Longrightarrow> ok x" and vs: "\<forall>x \<in> set vs. ok x"
    and y: "y \<in> set vs \<or> old = Some y"
  shows "\<exists>z. fold_entry join vs old = Some z \<and> ok z \<and> recent z y"
proof (cases old)
  case (Some x)
  then have "fold_entry join vs old = Some (fold (\<lambda>v acc. join acc v) vs x)"
    by (simp add: fold_entry_Some)
  moreover have "y = x \<or> y \<in> set vs" using y Some by auto
  ultimately show ?thesis
    using old [OF Some] vs by (auto simp: fold_join_ok intro: fold_join_init fold_join_elem)
next
  case None
  with y obtain v ws where vw: "vs = v # ws" by (cases vs) auto
  then have "fold_entry join vs old = Some (fold (\<lambda>v acc. join acc v) ws v)"
    by (simp add: None fold_entry_Some)
  moreover have "y = v \<or> y \<in> set ws" using y None vw by auto
  ultimately show ?thesis
    using vs vw by (auto simp: fold_join_ok intro: fold_join_init fold_join_elem)
qed

end

end
