(* ===== verification/Rust_Strings.thy ===== *)
theory Rust_Strings
  imports Prelude
begin

text \<open>
  The routines of Rust's \<^verbatim>\<open>str\<close> and integer parsing that the wire formats use: \<^verbatim>\<open>split\<close>,
  \<^verbatim>\<open>split_once\<close>, \<^verbatim>\<open>trim\<close>, \<^verbatim>\<open>join\<close>, \<^verbatim>\<open>u64::from_str\<close>, \<^verbatim>\<open>i64::from_str\<close> and the decimal
  \<^verbatim>\<open>Display\<close> of unsigned integers, with the lemmas that relate printing to parsing. Strings are
  lists of ASCII characters, so \<^verbatim>\<open>trim\<close> removes the six ASCII white-space characters.
\<close>

section \<open>Splitting and joining\<close>

fun split_char :: "char \<Rightarrow> string \<Rightarrow> string list" where
  "split_char c [] = [[]]"
| "split_char c (x # xs) =
     (if x = c then [] # split_char c xs
      else (case split_char c xs of [] \<Rightarrow> [[x]] | p # ps \<Rightarrow> (x # p) # ps))"

fun split_once :: "char \<Rightarrow> string \<Rightarrow> (string \<times> string) option" where
  "split_once c [] = None"
| "split_once c (x # xs) =
     (if x = c then Some ([], xs)
      else (case split_once c xs of None \<Rightarrow> None | Some (a, b) \<Rightarrow> Some (x # a, b)))"

fun join_with :: "string \<Rightarrow> string list \<Rightarrow> string" where
  "join_with sep [] = []"
| "join_with sep [x] = x"
| "join_with sep (x # y # ys) = x @ sep @ join_with sep (y # ys)"

definition is_whitespace :: "char \<Rightarrow> bool" where
  "is_whitespace c \<longleftrightarrow> c = CHR '' '' \<or> (9 \<le> (of_char c :: nat) \<and> (of_char c :: nat) \<le> 13)"

definition trim_start :: "string \<Rightarrow> string" where
  "trim_start s = dropWhile is_whitespace s"

definition trim :: "string \<Rightarrow> string" where
  "trim s = rev (trim_start (rev (trim_start s)))"

lemma split_char_not_Nil [simp]: "split_char c s \<noteq> []"
  by (induction s) (auto split: list.splits)

lemma split_char_no_sep [str_simps]: "c \<notin> set s \<Longrightarrow> split_char c s = [s]"
  by (induction s) auto

lemma split_char_append [str_simps]: "c \<notin> set p \<Longrightarrow> split_char c (p @ c # s) = p # split_char c s"
  by (induction p) auto

lemma split_char_pieces: "p \<in> set (split_char c s) \<Longrightarrow> c \<notin> set p"
  by (induction s arbitrary: p) (auto split: if_splits list.splits)

lemma join_split_char: "join_with [c] (split_char c s) = s"
proof (induction s)
  case Nil
  then show ?case by simp
next
  case (Cons x xs)
  obtain p ps where p: "split_char c xs = p # ps"
    by (cases "split_char c xs") auto
  with Cons show ?case by (cases ps) auto
qed

lemma split_join_with [str_simps]:
  "ps \<noteq> [] \<Longrightarrow> \<forall>p \<in> set ps. c \<notin> set p \<Longrightarrow> split_char c (join_with [c] ps) = ps"
  by (induction "[c]" ps rule: join_with.induct) (auto simp: str_simps)

lemma join_with_concat: "join_with sep (x # ps) = x @ concat (map (\<lambda>p. sep @ p) ps)"
  by (induction ps arbitrary: x) simp_all

lemma split_once_append [str_simps]: "c \<notin> set a \<Longrightarrow> split_once c (a @ c # b) = Some (a, b)"
  by (induction a) auto

lemma split_once_Some_iff:
  "split_once c s = Some (a, b) \<longleftrightarrow> s = a @ c # b \<and> c \<notin> set a"
proof
  show "split_once c s = Some (a, b) \<Longrightarrow> s = a @ c # b \<and> c \<notin> set a"
    by (induction s arbitrary: a) (auto split: if_splits option.splits)
qed (auto simp: split_once_append)

lemma split_once_None_iff: "split_once c s = None \<longleftrightarrow> c \<notin> set s"
  by (induction s) (auto split: option.splits)

lemma trim_start_id: "s = [] \<or> \<not> is_whitespace (hd s) \<Longrightarrow> trim_start s = s"
  by (cases s) (auto simp: trim_start_def)

lemma trim_id:
  "s = [] \<or> (\<not> is_whitespace (hd s) \<and> \<not> is_whitespace (last s)) \<Longrightarrow> trim s = s"
  by (cases "s = []") (auto simp: trim_def trim_start_id hd_rev)

lemma trim_no_whitespace [str_simps]: "\<forall>c \<in> set s. \<not> is_whitespace c \<Longrightarrow> trim s = s"
  by (rule trim_id) (metis hd_in_set last_in_set)

lemma set_trim: "set (trim s) \<subseteq> set s"
  unfolding trim_def trim_start_def by (metis set_dropWhileD set_rev subsetI)

lemma trim_ends:
  assumes "trim s \<noteq> []"
  shows "\<not> is_whitespace (hd (trim s)) \<and> \<not> is_whitespace (last (trim s))"
proof -
  let ?t = "dropWhile is_whitespace s"
  let ?u = "dropWhile is_whitespace (rev ?t)"
  have tr: "trim s = rev ?u" by (simp add: trim_def trim_start_def)
  with assms have u: "?u \<noteq> []" by simp
  have "rev ?t = takeWhile is_whitespace (rev ?t) @ ?u" by simp
  then have "?t = rev ?u @ rev (takeWhile is_whitespace (rev ?t))"
    by (metis rev_append rev_rev_ident)
  moreover from this u have "?t \<noteq> []" by (metis append_is_Nil_conv rev_is_Nil_conv)
  ultimately have "hd (trim s) = hd ?t" using u by (metis hd_append2 rev_is_Nil_conv tr)
  with \<open>?t \<noteq> []\<close> have "\<not> is_whitespace (hd (trim s))" by (metis hd_dropWhile)
  moreover have "last (trim s) = hd ?u" by (simp add: tr last_rev)
  ultimately show ?thesis using u by (metis hd_dropWhile)
qed

lemma trim_trim [simp]: "trim (trim s) = trim s"
  by (rule trim_id) (use trim_ends in blast)

section \<open>Decimal numbers\<close>

definition is_ascii_digit :: "char \<Rightarrow> bool" where
  "is_ascii_digit c \<longleftrightarrow> 48 \<le> (of_char c :: nat) \<and> (of_char c :: nat) \<le> 57"

definition digit_char :: "nat \<Rightarrow> char" where
  "digit_char d = char_of (48 + d)"

fun digits_val :: "nat \<Rightarrow> string \<Rightarrow> nat option" where
  "digits_val acc [] = Some acc"
| "digits_val acc (c # cs) =
     (if is_ascii_digit c then digits_val (acc * 10 + (of_char c - 48)) cs else None)"

fun show_nat :: "nat \<Rightarrow> string" where
  "show_nat n = (if n < 10 then [digit_char n] else show_nat (n div 10) @ [digit_char (n mod 10)])"

declare show_nat.simps [simp del]

text \<open>\<^verbatim>\<open><uN as FromStr>::from_str\<close>: the empty string and a lone sign are errors, one leading plus is
  accepted, a minus sign is an invalid digit, and a value above the bound is an error.\<close>

definition parse_unsigned :: "nat \<Rightarrow> string \<Rightarrow> nat option" where
  "parse_unsigned bound s =
     (let ds = (case s of c # cs \<Rightarrow> if c = CHR ''+'' \<and> cs \<noteq> [] then cs else s | [] \<Rightarrow> s)
      in if ds = [] then None
         else case digits_val 0 ds of
                None \<Rightarrow> None
              | Some n \<Rightarrow> if n < bound then Some n else None)"

definition parse_u64 :: "string \<Rightarrow> u64 option" where
  "parse_u64 s = map_option of_nat (parse_unsigned (2 ^ 64) s)"

text \<open>\<^verbatim>\<open><iN as FromStr>::from_str\<close>: either sign is accepted in front of at least one digit; the
  magnitude may reach the bound itself only below zero.\<close>

definition parse_signed :: "nat \<Rightarrow> string \<Rightarrow> int option" where
  "parse_signed bound s =
     (case s of
        c # cs \<Rightarrow>
          if c = CHR ''-'' \<and> cs \<noteq> [] then
            (case digits_val 0 cs of
               None \<Rightarrow> None
             | Some n \<Rightarrow> if n \<le> bound then Some (- int n) else None)
          else map_option int (parse_unsigned bound s)
      | [] \<Rightarrow> None)"

definition parse_i64 :: "string \<Rightarrow> int option" where
  "parse_i64 s = parse_signed (2 ^ 63) s"

definition parse_i32 :: "string \<Rightarrow> int option" where
  "parse_i32 s = parse_signed (2 ^ 31) s"

definition show_u64 :: "u64 \<Rightarrow> string" where
  "show_u64 w = show_nat (unat w)"

lemma of_char_digit_char: "d < 10 \<Longrightarrow> (of_char (digit_char d) :: nat) = 48 + d"
  by (simp add: digit_char_def)

lemma digit_char_eval [str_simps]:
  "digit_char 0 = CHR ''0''" "digit_char (Suc 0) = CHR ''1''" "digit_char 1 = CHR ''1''"
  "digit_char 2 = CHR ''2''" "digit_char 3 = CHR ''3''" "digit_char 4 = CHR ''4''"
  "digit_char 5 = CHR ''5''" "digit_char 6 = CHR ''6''" "digit_char 7 = CHR ''7''"
  "digit_char 8 = CHR ''8''" "digit_char 9 = CHR ''9''"
  by code_simp+

lemma is_ascii_digit_digit_char [simp]: "d < 10 \<Longrightarrow> is_ascii_digit (digit_char d)"
  by (simp add: is_ascii_digit_def of_char_digit_char)

lemma show_nat_not_Nil [simp]: "show_nat n \<noteq> []"
  by (subst show_nat.simps) simp

lemma show_nat_digits: "c \<in> set (show_nat n) \<Longrightarrow> is_ascii_digit c"
proof (induction n rule: show_nat.induct)
  case (1 n)
  then show ?case
    by (cases "n < 10") (auto simp: show_nat.simps [of n])
qed

lemma digits_val_append:
  "digits_val acc (a @ b) = (case digits_val acc a of None \<Rightarrow> None | Some n \<Rightarrow> digits_val n b)"
  by (induction a arbitrary: acc) auto

lemma digits_val_show_nat [str_simps]: "digits_val 0 (show_nat n) = Some n"
proof (induction n rule: show_nat.induct)
  case (1 n)
  show ?case
  proof (cases "n < 10")
    case True
    then show ?thesis by (simp add: show_nat.simps [of n] of_char_digit_char)
  next
    case False
    with 1 have "digits_val 0 (show_nat (n div 10)) = Some (n div 10)" by simp
    with False show ?thesis
      by (subst show_nat.simps) (simp add: digits_val_append of_char_digit_char)
  qed
qed

lemma digits_val_all_digits: "digits_val acc s = Some n \<Longrightarrow> c \<in> set s \<Longrightarrow> is_ascii_digit c"
  by (induction s arbitrary: acc) (auto split: if_splits)

lemma show_nat_inj: "show_nat a = show_nat b \<Longrightarrow> a = b"
  by (metis digits_val_show_nat option.inject)

text \<open>No separator of the wire formats is a digit.\<close>

lemma not_digit_seps:
  "\<not> is_ascii_digit CHR ''#''" "\<not> is_ascii_digit CHR ''=''" "\<not> is_ascii_digit CHR '':''"
  "\<not> is_ascii_digit CHR '',''" "\<not> is_ascii_digit CHR ''-''" "\<not> is_ascii_digit CHR ''+''"
  by (simp_all add: is_ascii_digit_def)

lemma digit_not_whitespace: "is_ascii_digit c \<Longrightarrow> \<not> is_whitespace c"
  by (auto simp: is_ascii_digit_def is_whitespace_def)

lemma show_nat_no_sep [str_simps]:
  "CHR ''#'' \<notin> set (show_nat n)" "CHR ''='' \<notin> set (show_nat n)" "CHR '':'' \<notin> set (show_nat n)"
  "CHR '','' \<notin> set (show_nat n)" "CHR ''-'' \<notin> set (show_nat n)" "CHR ''+'' \<notin> set (show_nat n)"
  using show_nat_digits not_digit_seps by blast+

lemma parse_unsigned_show [str_simps]:
  "parse_unsigned bound (show_nat n) = (if n < bound then Some n else None)"
proof -
  obtain c cs where s: "show_nat n = c # cs" by (cases "show_nat n") auto
  then have "c \<noteq> CHR ''+''" using show_nat_no_sep(6) [of n] by auto
  then show ?thesis
    using digits_val_show_nat [of n] by (simp add: parse_unsigned_def s)
qed

lemma parse_signed_show [str_simps]:
  "parse_signed bound (show_nat n) = (if n < bound then Some (int n) else None)"
proof -
  obtain c cs where s: "show_nat n = c # cs" by (cases "show_nat n") auto
  then have "c \<noteq> CHR ''-''" using show_nat_no_sep(5) [of n] by auto
  then show ?thesis
    using parse_unsigned_show [of bound n] by (simp add: parse_signed_def s)
qed

lemma parse_u64_show [str_simps]: "parse_u64 (show_u64 w) = Some w"
proof -
  have "unat w < 2 ^ 64" using u64_unat_less by simp
  then show ?thesis by (simp add: parse_u64_def show_u64_def parse_unsigned_show)
qed

lemma parse_i64_show [str_simps]:
  "parse_i64 (show_u64 w) = (if unat w < 2 ^ 63 then Some (int (unat w)) else None)"
  by (simp add: parse_i64_def show_u64_def parse_signed_show)

lemma parse_unsigned_bound: "parse_unsigned bound s = Some n \<Longrightarrow> n < bound"
  by (auto simp: parse_unsigned_def Let_def split: if_splits option.splits list.splits)

lemma parse_unsigned_digits:
  "parse_unsigned bound s = Some n \<Longrightarrow> c \<in> set s \<Longrightarrow> is_ascii_digit c \<or> c = CHR ''+''"
  by (auto simp: parse_unsigned_def Let_def digits_val_all_digits split: if_splits option.splits list.splits)

lemma parse_u64_digits:
  "parse_u64 s = Some n \<Longrightarrow> c \<in> set s \<Longrightarrow> is_ascii_digit c \<or> c = CHR ''+''"
  using parse_unsigned_digits by (auto simp: parse_u64_def)

lemma parse_i64_range:
  assumes "parse_i64 s = Some l"
  shows "- (2 ^ 63) \<le> l \<and> l < 2 ^ 63"
proof -
  have "parse_unsigned (2 ^ 63) s = Some n \<Longrightarrow> n < 2 ^ 63" for n
    by (rule parse_unsigned_bound)
  then show ?thesis
    using assms by (fastforce simp: parse_i64_def parse_signed_def split: if_splits option.splits list.splits)
qed

end
