(* ===== verification/Operation_Types.thy ===== *)
theory Operation_Types
  imports Rust_Strings
begin

text \<open>
  The resource and operation types of \<^verbatim>\<open>models/mod.rs\<close>, with the predicates that routing, session
  handling and retries consult. The variants behind the \<^verbatim>\<open>preview_dtx\<close> feature are included.
\<close>

section \<open>Resource types\<close>

datatype resource_type =
    DatabaseAccount | Database | DocumentCollection | Document | StoredProcedure | Trigger
  | UserDefinedFunction | PartitionKeyRange | Offer | DistributedTransactionBatch

datatype operation_type =
    Create | Read | ReadFeed | Replace | Delete | Upsert | Query | SqlQuery | QueryPlan | Batch
  | Head | HeadFeed | Execute | Patch | CommitDistributedTransaction | ReadDistributedTransaction

fun resource_type_as_str :: "resource_type \<Rightarrow> string" where
  "resource_type_as_str DatabaseAccount = ''database_account''"
| "resource_type_as_str Database = ''database''"
| "resource_type_as_str DocumentCollection = ''document_collection''"
| "resource_type_as_str Document = ''document''"
| "resource_type_as_str StoredProcedure = ''stored_procedure''"
| "resource_type_as_str Trigger = ''trigger''"
| "resource_type_as_str UserDefinedFunction = ''user_defined_function''"
| "resource_type_as_str PartitionKeyRange = ''partition_key_range''"
| "resource_type_as_str Offer = ''offer''"
| "resource_type_as_str DistributedTransactionBatch = ''distributed_transaction_batch''"

fun path_segment :: "resource_type \<Rightarrow> string" where
  "path_segment DatabaseAccount = ''''"
| "path_segment Database = ''dbs''"
| "path_segment DocumentCollection = ''colls''"
| "path_segment Document = ''docs''"
| "path_segment StoredProcedure = ''sprocs''"
| "path_segment Trigger = ''triggers''"
| "path_segment UserDefinedFunction = ''udfs''"
| "path_segment PartitionKeyRange = ''pkranges''"
| "path_segment Offer = ''offers''"
| "path_segment DistributedTransactionBatch = ''distributedtransactionbatch''"

definition is_metadata :: "resource_type \<Rightarrow> bool" where
  "is_metadata r \<longleftrightarrow>
     r = DatabaseAccount \<or> r = Database \<or> r = DocumentCollection \<or> r = PartitionKeyRange \<or> r = Offer"

definition requires_container :: "resource_type \<Rightarrow> bool" where
  "requires_container r \<longleftrightarrow>
     r = Document \<or> r = DocumentCollection \<or> r = StoredProcedure \<or> r = Trigger \<or>
     r = UserDefinedFunction \<or> r = PartitionKeyRange"

fun is_partitioned :: "resource_type \<Rightarrow> operation_type \<Rightarrow> bool" where
  "is_partitioned Document operation_type = (operation_type \<noteq> QueryPlan)"
| "is_partitioned StoredProcedure operation_type = (operation_type = Execute)"
| "is_partitioned _ operation_type = False"

definition requires_database :: "resource_type \<Rightarrow> bool" where
  "requires_database r \<longleftrightarrow>
     r = Database \<or> r = DocumentCollection \<or> r = Document \<or> r = StoredProcedure \<or> r = Trigger \<or>
     r = UserDefinedFunction \<or> r = PartitionKeyRange"

text \<open>\<^verbatim>\<open>to_lowercase\<close> and \<^verbatim>\<open>replace(' ', "_")\<close> on ASCII text.\<close>

definition to_lower :: "char \<Rightarrow> char" where
  "to_lower c =
     (let n = (of_char c :: nat) in if 65 \<le> n \<and> n \<le> 90 then char_of (n + 32) else c)"

definition normalize_name :: "string \<Rightarrow> string" where
  "normalize_name s = map (\<lambda>c. if c = CHR '' '' then CHR ''_'' else c) (map to_lower s)"

definition resource_type_from_str :: "string \<Rightarrow> string + resource_type" where
  "resource_type_from_str s =
     (let n = normalize_name s in
      if n = ''database_account'' \<or> n = ''account'' then Inr DatabaseAccount
      else if n = ''database'' \<or> n = ''db'' then Inr Database
      else if n = ''document_collection'' \<or> n = ''collection'' \<or> n = ''container'' then
        Inr DocumentCollection
      else if n = ''document'' \<or> n = ''item'' then Inr Document
      else if n = ''stored_procedure'' \<or> n = ''sproc'' then Inr StoredProcedure
      else if n = ''trigger'' then Inr Trigger
      else if n = ''user_defined_function'' \<or> n = ''udf'' then Inr UserDefinedFunction
      else if n = ''partition_key_range'' \<or> n = ''pkrange'' then Inr PartitionKeyRange
      else if n = ''offer'' then Inr Offer
      else if n = ''distributed_transaction_batch'' \<or> n = ''distributedtransactionbatch'' then
        Inr DistributedTransactionBatch
      else Inl s)"

section \<open>Operation types\<close>

datatype http_method = GET | PUT | POST | DELETE | PATCH | HEAD

definition is_feed :: "operation_type \<Rightarrow> bool" where
  "is_feed t \<longleftrightarrow> t = ReadFeed \<or> t = HeadFeed \<or> t = Query \<or> t = SqlQuery"

fun operation_http_method :: "operation_type \<Rightarrow> http_method" where
  "operation_http_method Create = POST"
| "operation_http_method Upsert = POST"
| "operation_http_method Query = POST"
| "operation_http_method SqlQuery = POST"
| "operation_http_method Batch = POST"
| "operation_http_method QueryPlan = POST"
| "operation_http_method Execute = POST"
| "operation_http_method CommitDistributedTransaction = POST"
| "operation_http_method ReadDistributedTransaction = POST"
| "operation_http_method Delete = DELETE"
| "operation_http_method Read = GET"
| "operation_http_method ReadFeed = GET"
| "operation_http_method Replace = PUT"
| "operation_http_method Head = HEAD"
| "operation_http_method HeadFeed = HEAD"
| "operation_http_method Patch = PATCH"

definition is_read_only :: "operation_type \<Rightarrow> bool" where
  "is_read_only t \<longleftrightarrow>
     t = Read \<or> t = ReadFeed \<or> t = Query \<or> t = SqlQuery \<or> t = QueryPlan \<or> t = Head \<or> t = HeadFeed \<or>
     t = ReadDistributedTransaction"

definition routes_to_write_endpoints :: "operation_type \<Rightarrow> bool" where
  "routes_to_write_endpoints t =
     (if t = CommitDistributedTransaction \<or> t = ReadDistributedTransaction then True
      else \<not> is_read_only t)"

definition is_idempotent :: "operation_type \<Rightarrow> bool" where
  "is_idempotent t \<longleftrightarrow>
     t = Read \<or> t = ReadFeed \<or> t = Query \<or> t = SqlQuery \<or> t = QueryPlan \<or> t = Head \<or> t = HeadFeed \<or>
     t = Replace \<or> t = Delete \<or> t = CommitDistributedTransaction \<or> t = ReadDistributedTransaction"

fun operation_type_as_str :: "operation_type \<Rightarrow> string" where
  "operation_type_as_str Create = ''create''"
| "operation_type_as_str Read = ''read''"
| "operation_type_as_str ReadFeed = ''read_feed''"
| "operation_type_as_str Replace = ''replace''"
| "operation_type_as_str Delete = ''delete''"
| "operation_type_as_str Upsert = ''upsert''"
| "operation_type_as_str Query = ''query''"
| "operation_type_as_str SqlQuery = ''sql_query''"
| "operation_type_as_str QueryPlan = ''query_plan''"
| "operation_type_as_str Batch = ''batch''"
| "operation_type_as_str Head = ''head''"
| "operation_type_as_str HeadFeed = ''head_feed''"
| "operation_type_as_str Execute = ''execute''"
| "operation_type_as_str Patch = ''patch''"
| "operation_type_as_str CommitDistributedTransaction = ''commit_distributed_transaction''"
| "operation_type_as_str ReadDistributedTransaction = ''read_distributed_transaction''"

text \<open>A status code is the number of the HTTP status line.\<close>

type_synonym status_code = nat

definition status_is_success :: "status_code \<Rightarrow> bool" where
  "status_is_success c \<longleftrightarrow> 200 \<le> c \<and> c < 300"

section \<open>Facts\<close>

lemma read_only_idempotent: "is_read_only t \<Longrightarrow> is_idempotent t"
  by (auto simp: is_read_only_def is_idempotent_def)

lemma not_write_routed_read_only: "\<not> routes_to_write_endpoints t \<Longrightarrow> is_read_only t"
  by (simp add: routes_to_write_endpoints_def split: if_splits)

lemma partitioned_not_metadata: "is_partitioned r t \<Longrightarrow> \<not> is_metadata r \<and> requires_container r"
  by (cases r) (simp_all add: is_metadata_def requires_container_def)

text \<open>\<^verbatim>\<open>ResourceType::from_str\<close> inverts \<^verbatim>\<open>as_str\<close> on every resource type, however the text is
  capitalised and whether its words are joined by spaces or by underscores: any text that
  normalises to the printed name parses to the type that was printed.\<close>

theorem resource_type_from_as_str:
  assumes "normalize_name s = resource_type_as_str r"
  shows "resource_type_from_str s = Inr r"
  using assms by (cases r) (simp_all add: resource_type_from_str_def)

theorem resource_type_from_as_str_witness:
  "resource_type_from_str ''Stored Procedure'' = Inr StoredProcedure"
  by (rule resource_type_from_as_str) code_simp

end
