(* ===== verification/Endpoints.thy ===== *)
theory Endpoints
  imports Operation_Types "HOL-Library.Multiset"
begin

text \<open>
  Endpoints and the account-level routing state: \<^verbatim>\<open>options/region.rs\<close>, \<^verbatim>\<open>driver/routing/endpoint.rs\<close>,
  \<^verbatim>\<open>driver/routing/account_endpoint_state.rs\<close> and the account half of
  \<^verbatim>\<open>driver/routing/routing_systems.rs\<close>.

  A \<^verbatim>\<open>Url\<close> is its text; the accessor \<^verbatim>\<open>Url::scheme\<close> of the \<^verbatim>\<open>url\<close> package is the parameter
  \<open>scheme\<close> of the definitions that call it. The pre-computed \<^verbatim>\<open>endpoint_key\<close> of an endpoint is a
  function of its gateway URL and is left out: equality of endpoints does not depend on it. The
  states that the sources rebuild field by field are record updates. The clock is an argument
  of the operations that read it.
\<close>

section \<open>Regions\<close>

type_synonym region = string
type_synonym url = string

text \<open>\<^verbatim>\<open>Region::new\<close> keeps the normalised name only, so a region is that name.\<close>

definition normalize_region_name :: "string \<Rightarrow> region" where
  "normalize_region_name name = map to_lower (filter (\<lambda>c. \<not> is_whitespace c) name)"

definition region_new :: "string \<Rightarrow> region" where
  "region_new name = normalize_region_name name"

section \<open>Endpoints\<close>

record cosmos_endpoint =
  ep_region :: "region option"
  ep_gateway_url :: url
  ep_gateway_v2_url :: "url option"

definition endpoint_global :: "url \<Rightarrow> cosmos_endpoint" where
  "endpoint_global u = \<lparr>ep_region = None, ep_gateway_url = u, ep_gateway_v2_url = None\<rparr>"

definition endpoint_regional :: "region \<Rightarrow> url \<Rightarrow> cosmos_endpoint" where
  "endpoint_regional region u =
     \<lparr>ep_region = Some region, ep_gateway_url = u, ep_gateway_v2_url = None\<rparr>"

definition regional_with_gateway_v2 :: "region \<Rightarrow> url \<Rightarrow> url \<Rightarrow> cosmos_endpoint" where
  "regional_with_gateway_v2 region gateway_url gateway_v2_url =
     \<lparr>ep_region = Some region, ep_gateway_url = gateway_url, ep_gateway_v2_url = Some gateway_v2_url\<rparr>"

definition is_global :: "cosmos_endpoint \<Rightarrow> bool" where
  "is_global e \<longleftrightarrow> ep_region e = None"

definition uses_gateway_v2 :: "cosmos_endpoint \<Rightarrow> bool \<Rightarrow> bool" where
  "uses_gateway_v2 e prefer_gateway_v2 \<longleftrightarrow> prefer_gateway_v2 \<and> ep_gateway_v2_url e \<noteq> None"

definition selected_url :: "cosmos_endpoint \<Rightarrow> bool \<Rightarrow> url" where
  "selected_url e prefer_gateway_v2 =
     (if prefer_gateway_v2 then
        case ep_gateway_v2_url e of Some u \<Rightarrow> u | None \<Rightarrow> ep_gateway_url e
      else ep_gateway_url e)"

section \<open>Indices into endpoint lists\<close>

record location_index =
  li_index :: nat
  li_generation :: u64

definition location_index_initial :: "u64 \<Rightarrow> location_index" where
  "location_index_initial generation = \<lparr>li_index = 0, li_generation = generation\<rparr>"

text \<open>In a release build the debug assertion on an empty list is absent.\<close>

definition location_index_next :: "location_index \<Rightarrow> nat \<Rightarrow> location_index" where
  "location_index_next self list_len =
     (if list_len = 0 then self
      else \<lparr>li_index = (li_index self + 1) mod list_len, li_generation = li_generation self\<rparr>)"

definition next_for_generation :: "location_index \<Rightarrow> nat \<Rightarrow> u64 \<Rightarrow> location_index" where
  "next_for_generation self list_len generation =
     (if list_len = 0 then self
      else if li_generation self = generation then location_index_next self list_len
      else \<lparr>li_index = (0 + 1) mod list_len, li_generation = generation\<rparr>)"

definition location_is_current :: "location_index \<Rightarrow> u64 \<Rightarrow> bool" where
  "location_is_current self generation \<longleftrightarrow> li_generation self = generation"

section \<open>Account endpoint state\<close>

datatype unavailable_reason =
    WriteForbidden | DatabaseAccountNotFound | ServiceUnavailable | RequestTimeout
  | InternalServerError | TransportError

record account_endpoint_state =
  aes_generation :: u64
  aes_preferred_read_endpoints :: "cosmos_endpoint list"
  aes_preferred_write_endpoints :: "cosmos_endpoint list"
  aes_account_write_endpoints :: "cosmos_endpoint list"
  aes_unavailable_endpoints :: "(url, instant \<times> unavailable_reason) hashmap"
  aes_multiple_write_locations_enabled :: bool
  aes_default_endpoint :: cosmos_endpoint

definition account_state_single :: "cosmos_endpoint \<Rightarrow> account_endpoint_state" where
  "account_state_single default_endpoint =
     \<lparr>aes_generation = 0,
      aes_preferred_read_endpoints = [default_endpoint],
      aes_preferred_write_endpoints = [default_endpoint],
      aes_account_write_endpoints = [default_endpoint],
      aes_unavailable_endpoints = [],
      aes_multiple_write_locations_enabled = False,
      aes_default_endpoint = default_endpoint\<rparr>"

definition preferred_endpoints :: "account_endpoint_state \<Rightarrow> bool \<Rightarrow> cosmos_endpoint list" where
  "preferred_endpoints self read_only =
     (if read_only then aes_preferred_read_endpoints self else aes_preferred_write_endpoints self)"

text \<open>The fields of the account metadata that routing consults; the text of the entity tag and the
  account id are used by the location store.\<close>

record account_region =
  ar_name :: region
  ar_database_account_endpoint :: url

record account_properties =
  ap_id :: string
  ap_writable_locations :: "account_region list"
  ap_readable_locations :: "account_region list"
  ap_enable_multiple_write_locations :: bool
  ap_enable_per_partition_failover_behavior :: bool
  ap_thin_client_readable_locations :: "account_region list"
  ap_thin_client_writable_locations :: "account_region list"
  ap_etag :: string

section \<open>Building the state from account metadata\<close>

text \<open>Conflicting URLs for one region are logged; the first entry wins.\<close>

fun parse_gateway_v2_loop ::
  "(url \<Rightarrow> string) \<Rightarrow> account_region list \<Rightarrow> (region, url) hashmap \<Rightarrow> (region, url) hashmap" where
  "parse_gateway_v2_loop scheme [] urls = urls"
| "parse_gateway_v2_loop scheme (region # rest) urls =
     (let u = ar_database_account_endpoint region in
      if scheme u \<noteq> ''https'' then parse_gateway_v2_loop scheme rest urls
      else parse_gateway_v2_loop scheme rest (hm_upsert (ar_name region) (\<lambda>existing. existing) u urls))"

definition parse_gateway_v2_locations :: "(url \<Rightarrow> string) \<Rightarrow> account_region list \<Rightarrow> (region, url) hashmap" where
  "parse_gateway_v2_locations scheme gateway_v2_locations = parse_gateway_v2_loop scheme gateway_v2_locations []"

definition build_preferred_endpoints ::
  "(url \<Rightarrow> string) \<Rightarrow> account_region list \<Rightarrow> account_region list \<Rightarrow> bool \<Rightarrow> cosmos_endpoint list" where
  "build_preferred_endpoints scheme standard_locations gateway_v2_locations gateway_v2_enabled =
     (let gateway_v2_urls =
            (if gateway_v2_enabled then parse_gateway_v2_locations scheme gateway_v2_locations else [])
      in map (\<lambda>region.
           let u = ar_database_account_endpoint region in
           case hm_get gateway_v2_urls (ar_name region) of
             Some gateway_v2_url \<Rightarrow> regional_with_gateway_v2 (ar_name region) u gateway_v2_url
           | None \<Rightarrow> endpoint_regional (ar_name region) u) standard_locations)"

text \<open>The inner loop takes the first remaining endpoint of a region out of its slot.\<close>

fun take_region ::
  "region \<Rightarrow> cosmos_endpoint option list \<Rightarrow> cosmos_endpoint option \<times> cosmos_endpoint option list" where
  "take_region region [] = (None, [])"
| "take_region region (slot # slots) =
     (case slot of
        Some ep \<Rightarrow>
          if ep_region ep = Some region then (Some ep, None # slots)
          else (let (found, rest) = take_region region slots in (found, slot # rest))
      | None \<Rightarrow> (let (found, rest) = take_region region slots in (found, slot # rest)))"

fun reorder_loop ::
  "region list \<Rightarrow> cosmos_endpoint list \<Rightarrow> cosmos_endpoint option list \<Rightarrow>
   cosmos_endpoint list \<times> cosmos_endpoint option list" where
  "reorder_loop [] ordered remaining = (ordered, remaining)"
| "reorder_loop (region # regions) ordered remaining =
     (case take_region region remaining of
        (Some ep, remaining') \<Rightarrow> reorder_loop regions (ordered @ [ep]) remaining'
      | (None, remaining') \<Rightarrow> reorder_loop regions ordered remaining')"

definition reorder_by_preferred_regions :: "cosmos_endpoint list \<Rightarrow> region list \<Rightarrow> cosmos_endpoint list" where
  "reorder_by_preferred_regions endpoints preferred_regions =
     (let (ordered, remaining) = reorder_loop preferred_regions [] (map Some endpoints)
      in ordered @ List.map_filter (\<lambda>slot. slot) remaining)"

definition or_default :: "cosmos_endpoint \<Rightarrow> cosmos_endpoint list \<Rightarrow> cosmos_endpoint list" where
  "or_default default_endpoint endpoints = (if endpoints = [] then [default_endpoint] else endpoints)"

definition build_account_endpoint_state ::
  "(url \<Rightarrow> string) \<Rightarrow> account_properties \<Rightarrow> cosmos_endpoint \<Rightarrow> u64 option \<Rightarrow> bool \<Rightarrow> region list \<Rightarrow>
   account_endpoint_state" where
  "build_account_endpoint_state scheme properties default_endpoint previous_generation gateway_v2_enabled
     preferred_regions =
     (let generation = (case previous_generation of None \<Rightarrow> 0 | Some g \<Rightarrow> saturating_add_word g 1);
          read = build_preferred_endpoints scheme (ap_readable_locations properties)
                   (ap_thin_client_readable_locations properties) gateway_v2_enabled;
          write = build_preferred_endpoints scheme (ap_writable_locations properties)
                   (ap_thin_client_writable_locations properties) gateway_v2_enabled;
          account_write = write;
          read = (if preferred_regions \<noteq> [] then reorder_by_preferred_regions read preferred_regions else read);
          write = (if preferred_regions \<noteq> [] then reorder_by_preferred_regions write preferred_regions else write)
      in \<lparr>aes_generation = generation,
          aes_preferred_read_endpoints = or_default default_endpoint read,
          aes_preferred_write_endpoints = or_default default_endpoint write,
          aes_account_write_endpoints = or_default default_endpoint account_write,
          aes_unavailable_endpoints = [],
          aes_multiple_write_locations_enabled = ap_enable_multiple_write_locations properties,
          aes_default_endpoint = default_endpoint\<rparr>)"

section \<open>Unavailability marks\<close>

definition mark_endpoint_unavailable ::
  "instant \<Rightarrow> account_endpoint_state \<Rightarrow> cosmos_endpoint \<Rightarrow> unavailable_reason \<Rightarrow> account_endpoint_state" where
  "mark_endpoint_unavailable now state endpoint reason =
     state\<lparr>aes_unavailable_endpoints :=
       hm_insert (ep_gateway_url endpoint) (now, reason) (aes_unavailable_endpoints state)\<rparr>"

definition expire_unavailable_endpoints ::
  "account_endpoint_state \<Rightarrow> instant \<Rightarrow> duration \<Rightarrow> account_endpoint_state" where
  "expire_unavailable_endpoints state now expiry_duration =
     (if aes_unavailable_endpoints state = [] then state
      else state\<lparr>aes_unavailable_endpoints :=
        hm_retain (\<lambda>_ (marked_at, _). saturating_duration_since now marked_at < expiry_duration)
          (aes_unavailable_endpoints state)\<rparr>)"

section \<open>Reordering\<close>

text \<open>The endpoints still in their slots.\<close>

abbreviation slots :: "cosmos_endpoint option list \<Rightarrow> cosmos_endpoint list" where
  "slots \<equiv> List.map_filter (\<lambda>slot. slot)"

lemma slots_map_Some [simp]: "slots (map Some xs) = xs"
  by (induction xs) (simp_all add: List.map_filter_simps)

lemma take_region_None:
  "take_region r xs = (None, ys) \<Longrightarrow> ys = xs \<and> (\<forall>e \<in> set (slots xs). ep_region e \<noteq> Some r)"
  by (induction xs arbitrary: ys)
    (auto simp: List.map_filter_simps split: option.splits if_splits prod.splits)

lemma take_region_Some:
  "take_region r xs = (Some e, ys) \<Longrightarrow>
   \<exists>us vs. slots xs = us @ e # vs \<and> slots ys = us @ vs \<and> ep_region e = Some r \<and>
     (\<forall>u \<in> set us. ep_region u \<noteq> Some r)"
proof (induction xs arbitrary: ys)
  case Nil
  then show ?case by simp
next
  case (Cons x xs)
  show ?case
  proof (cases x)
    case None
    with Cons.prems obtain zs where zs: "take_region r xs = (Some e, zs)" "ys = None # zs"
      by (auto split: prod.splits)
    with Cons.IH [OF zs(1)] None show ?thesis by (simp add: List.map_filter_simps)
  next
    case (Some a)
    show ?thesis
    proof (cases "ep_region a = Some r")
      case True
      with Cons.prems Some show ?thesis
        by (intro exI [of _ "[]"] exI [of _ "slots xs"]) (auto simp: List.map_filter_simps)
    next
      case False
      with Cons.prems Some obtain zs where zs: "take_region r xs = (Some e, zs)" "ys = Some a # zs"
        by (auto split: prod.splits)
      from Cons.IH [OF zs(1)] obtain us vs where
        "slots xs = us @ e # vs" "slots zs = us @ vs" "ep_region e = Some r" "\<forall>u \<in> set us. ep_region u \<noteq> Some r"
        by blast
      with Some zs False show ?thesis
        by (intro exI [of _ "a # us"] exI [of _ vs]) (simp add: List.map_filter_simps)
    qed
  qed
qed

text \<open>The whole loop keeps the multiset of endpoints.\<close>

lemma reorder_loop_mset:
  "reorder_loop rs acc xs = (ordered, remaining) \<Longrightarrow>
   mset ordered + mset (slots remaining) = mset acc + mset (slots xs)"
proof (induction rs arbitrary: acc xs)
  case (Cons r rs)
  obtain found ys where t: "take_region r xs = (found, ys)" by (cases "take_region r xs")
  show ?case
  proof (cases found)
    case None
    then show ?thesis using Cons t take_region_None [of r xs ys] by simp
  next
    case (Some e)
    then obtain us vs where "slots xs = us @ e # vs" "slots ys = us @ vs"
      using t take_region_Some [of r xs e ys] by blast
    then show ?thesis using Cons.IH [of "acc @ [e]" ys] Cons.prems t Some by simp
  qed
qed simp

lemma mset_reorder: "mset (reorder_by_preferred_regions xs rs) = mset xs"
  unfolding reorder_by_preferred_regions_def Let_def
  using reorder_loop_mset [of rs "[]" "map Some xs"] by (auto split: prod.splits)

text \<open>With one endpoint per region the loop picks, region by region, the endpoint of that region,
  and leaves the others in place.\<close>

definition of_region :: "region \<Rightarrow> cosmos_endpoint list \<Rightarrow> cosmos_endpoint list" where
  "of_region r xs = filter (\<lambda>e. ep_region e = Some r) xs"

definition regions_distinct :: "cosmos_endpoint list \<Rightarrow> bool" where
  "regions_distinct xs \<longleftrightarrow> distinct (List.map_filter ep_region xs)"

lemma map_filter_append: "List.map_filter f (xs @ ys) = List.map_filter f xs @ List.map_filter f ys"
  by (simp add: List.map_filter_def)

lemma of_region_none: "(\<forall>e \<in> set xs. ep_region e \<noteq> Some r) \<Longrightarrow> of_region r xs = []"
  by (simp add: of_region_def filter_empty_conv)

lemma regions_distinct_split:
  assumes "regions_distinct (us @ e # vs)" "ep_region e = Some r"
  shows "regions_distinct (us @ vs)" "\<forall>v \<in> set (us @ vs). ep_region v \<noteq> Some r"
proof -
  have "r \<notin> set (List.map_filter ep_region (us @ vs))" "regions_distinct (us @ vs)"
    using assms by (auto simp: regions_distinct_def map_filter_append List.map_filter_simps)
  then show "regions_distinct (us @ vs)" "\<forall>v \<in> set (us @ vs). ep_region v \<noteq> Some r"
    by (force simp: List.map_filter_def)+
qed

lemma reorder_loop_spec:
  assumes "regions_distinct (slots xs)" "distinct rs"
    and "reorder_loop rs acc xs = (ordered, remaining)"
  shows "ordered = acc @ concat (map (\<lambda>r. of_region r (slots xs)) rs) \<and>
    slots remaining = filter (\<lambda>e. \<forall>r \<in> set rs. ep_region e \<noteq> Some r) (slots xs)"
  using assms
proof (induction rs arbitrary: acc xs)
  case (Cons r rs)
  obtain found ys where t: "take_region r xs = (found, ys)" by (cases "take_region r xs")
  show ?case
  proof (cases found)
    case None
    with take_region_None [of r xs ys] t have same: "ys = xs" "\<forall>e \<in> set (slots xs). ep_region e \<noteq> Some r" by auto
    have "filter (\<lambda>e. \<forall>r \<in> set rs. ep_region e \<noteq> Some r) (slots xs) =
        filter (\<lambda>e. \<forall>r' \<in> set (r # rs). ep_region e \<noteq> Some r') (slots xs)"
      using same(2) by (auto intro!: filter_cong)
    with Cons.IH [of xs acc] Cons.prems t None of_region_none [OF same(2)] same(1)
    show ?thesis by simp
  next
    case (Some e)
    then obtain us vs where s: "slots xs = us @ e # vs" "slots ys = us @ vs" "ep_region e = Some r"
      using t take_region_Some [of r xs e ys] by blast
    note d = regions_distinct_split [OF _ s(3), of us vs]
    have d': "regions_distinct (slots ys)" "\<forall>v \<in> set (slots ys). ep_region v \<noteq> Some r"
      using d Cons.prems(1) s by auto
    have "of_region r (slots xs) = [e]"
      using s d'(2) by (auto simp: of_region_def filter_empty_conv)
    moreover have "concat (map (\<lambda>r. of_region r (slots ys)) rs) = concat (map (\<lambda>r. of_region r (slots xs)) rs)"
      using s Cons.prems(2) by (auto simp: of_region_def intro!: arg_cong [where f = concat])
    moreover have "filter (\<lambda>e. \<forall>r \<in> set rs. ep_region e \<noteq> Some r) (slots ys) =
        filter (\<lambda>e. \<forall>r' \<in> set (r # rs). ep_region e \<noteq> Some r') (slots xs)"
      using s d'(2) by (auto intro!: arg_cong2 [where f = append] filter_cong)
    ultimately show ?thesis
      using Cons.IH [OF d'(1), of "acc @ [e]"] Cons.prems t Some by simp
  qed
qed simp

section \<open>Gateway 2.0 locations\<close>

lemma set_hm_insert: "set (hm_insert k v m) \<subseteq> insert (k, v) (set m)"
  by (induction m) auto

lemma parse_gateway_v2_https:
  assumes "list_all (\<lambda>(_, u). scheme u = ''https'') urls"
  shows "list_all (\<lambda>(_, u). scheme u = ''https'') (parse_gateway_v2_loop scheme locs urls)"
  using assms
proof (induction locs arbitrary: urls)
  case (Cons x xs)
  have "list_all (\<lambda>(_, u). scheme u = ''https'') (hm_upsert k (\<lambda>e. e) u urls)"
    if "scheme u = ''https''" for k u
  proof (cases "hm_get urls k")
    case None
    with Cons.prems that show ?thesis
      by (auto simp: hm_upsert_def list_all_iff dest!: subsetD [OF set_hm_insert])
  next
    case (Some v)
    with Cons.prems show ?thesis by (simp add: hm_upsert_def hm_insert_same)
  qed
  with Cons show ?case by (simp add: Let_def)
qed simp

lemma build_preferred_v2:
  "list_all (\<lambda>e. case ep_gateway_v2_url e of None \<Rightarrow> True | Some u \<Rightarrow> enabled \<and> scheme u = ''https'')
     (build_preferred_endpoints scheme std v2 enabled)"
proof -
  have https: "scheme u = ''https''" if "hm_get (parse_gateway_v2_locations scheme v2) r = Some u" for r u
    using parse_gateway_v2_https [of scheme "[]" v2] map_of_SomeD [OF that]
    by (auto simp: parse_gateway_v2_locations_def list_all_iff)
  show ?thesis
    using https
    by (auto simp: build_preferred_endpoints_def list_all_iff Let_def regional_with_gateway_v2_def
        endpoint_regional_def split: option.splits if_splits)
qed

lemma saturating_succ: "unat (saturating_add_word (g :: u64) 1) = min (unat g + 1) (2 ^ 64 - 1)"
proof (cases "unat g + 1 < 2 ^ 64")
  case True
  then have "unat (g + 1) = unat g + 1" by (subst unat_add_lem [THEN iffD1]) simp_all
  with True show ?thesis by (simp add: saturating_add_word_def)
next
  case False
  then show ?thesis by (simp add: saturating_add_word_def unsigned_minus_1_eq_mask mask_eq_exp_minus_1)
qed

section \<open>Properties\<close>

text \<open>Preferred regions decide the order of the endpoints and nothing else: with at most one
  endpoint per region and no repeated preference, the reordered list is the endpoints of the
  preferred regions in order of preference, followed by all others, global endpoints included, in
  account order; and it is a permutation of the input.\<close>

theorem reorder_follows_preferences:
  assumes "regions_distinct endpoints" and "distinct preferred_regions"
  shows "reorder_by_preferred_regions endpoints preferred_regions =
      concat (map (\<lambda>r. of_region r endpoints) preferred_regions) @
      filter (\<lambda>e. \<forall>r \<in> set preferred_regions. ep_region e \<noteq> Some r) endpoints \<and>
    mset (reorder_by_preferred_regions endpoints preferred_regions) = mset endpoints"
proof -
  obtain ordered remaining where l: "reorder_loop preferred_regions [] (map Some endpoints) = (ordered, remaining)"
    by (cases "reorder_loop preferred_regions [] (map Some endpoints)")
  from reorder_loop_spec [OF _ assms(2) l] assms(1)
  have "reorder_by_preferred_regions endpoints preferred_regions =
      concat (map (\<lambda>r. of_region r endpoints) preferred_regions) @
      filter (\<lambda>e. \<forall>r \<in> set preferred_regions. ep_region e \<noteq> Some r) endpoints"
    by (simp add: l reorder_by_preferred_regions_def)
  with mset_reorder show ?thesis by blast
qed

theorem reorder_follows_preferences_witness:
  "reorder_by_preferred_regions
     [endpoint_global ''g'', endpoint_regional ''eastus'' ''e'', endpoint_regional ''westus'' ''w'']
     [''westus'', ''uksouth''] =
   [endpoint_regional ''westus'' ''w'', endpoint_global ''g'', endpoint_regional ''eastus'' ''e'']"
  using reorder_follows_preferences
    [of "[endpoint_global ''g'', endpoint_regional ''eastus'' ''e'', endpoint_regional ''westus'' ''w'']"
      "[''westus'', ''uksouth'']"]
  by (simp add: regions_distinct_def endpoint_global_def endpoint_regional_def List.map_filter_simps of_region_def)

text \<open>A state built from account metadata is always routable: each endpoint list has at least one
  endpoint, the preferred write list is a permutation of the account's own write list, the
  generation counts up by one until it saturates, no endpoint starts out unavailable, and a
  Gateway 2.0 URL appears only when Gateway 2.0 is enabled and the URL is HTTPS.\<close>

theorem account_state_routable:
  "let s = build_account_endpoint_state scheme properties default_endpoint previous_generation
             gateway_v2_enabled preferred_regions
   in aes_preferred_read_endpoints s \<noteq> [] \<and> aes_preferred_write_endpoints s \<noteq> [] \<and>
      mset (aes_preferred_write_endpoints s) = mset (aes_account_write_endpoints s) \<and>
      unat (aes_generation s) =
        (case previous_generation of None \<Rightarrow> 0 | Some g \<Rightarrow> min (unat g + 1) (2 ^ 64 - 1)) \<and>
      aes_unavailable_endpoints s = [] \<and>
      list_all (\<lambda>e. e = default_endpoint \<or>
          (case ep_gateway_v2_url e of None \<Rightarrow> True | Some u \<Rightarrow> gateway_v2_enabled \<and> scheme u = ''https''))
        (aes_preferred_read_endpoints s @ aes_preferred_write_endpoints s)"
proof -
  let ?P = "\<lambda>e. e = default_endpoint \<or>
    (case ep_gateway_v2_url e of None \<Rightarrow> True | Some u \<Rightarrow> gateway_v2_enabled \<and> scheme u = ''https'')"
  have set_reorder: "set (reorder_by_preferred_regions xs rs) = set xs" for xs rs
    using mset_reorder mset_eq_setD by blast
  have P: "list_all ?P (build_preferred_endpoints scheme std v2 gateway_v2_enabled)" for std v2
    using build_preferred_v2 [of gateway_v2_enabled scheme std v2] by (auto simp: list_all_iff)
  then have "list_all ?P (or_default default_endpoint
      (if preferred_regions \<noteq> [] then reorder_by_preferred_regions
         (build_preferred_endpoints scheme std v2 gateway_v2_enabled) preferred_regions
       else build_preferred_endpoints scheme std v2 gateway_v2_enabled))" for std v2
    by (auto simp: or_default_def list_all_iff set_reorder)
  moreover have "mset (or_default default_endpoint (reorder_by_preferred_regions xs rs)) =
      mset (or_default default_endpoint xs)" for xs rs
    using mset_reorder [of xs rs] by (auto simp: or_default_def)
  moreover have "or_default default_endpoint xs \<noteq> []" for xs by (simp add: or_default_def)
  ultimately show ?thesis
    by (simp add: build_account_endpoint_state_def Let_def saturating_succ split: option.split)
qed

end
