(* ===== verification/Failover_Options.thy ===== *)
theory Failover_Options
  imports Operation_Types
begin

text \<open>
  Option resolution (\<^verbatim>\<open>options/env_parsing.rs\<close>) and the partition-failover options built with it
  (\<^verbatim>\<open>options/partition_failover.rs\<close>). The environment is the accessor \<open>get_env\<close>, as in the source;
  \<^verbatim>\<open>FromStr\<close> of the value type is the argument \<open>parse\<close> of the generic functions. A validation
  error keeps the short field name and the violated bound; log output is left out.
\<close>

section \<open>Resolution and validation\<close>

datatype 'a option_error = MustBeAtLeast string 'a 'a | MustBeAtMost string 'a 'a

record 'a validation_bounds =
  vb_min :: "'a option"
  vb_max :: "'a option"

definition bounds_none :: "'a validation_bounds" where
  "bounds_none = \<lparr>vb_min = None, vb_max = None\<rparr>"

definition bounds_range :: "'a \<Rightarrow> 'a \<Rightarrow> 'a validation_bounds" where
  "bounds_range lo hi = \<lparr>vb_min = Some lo, vb_max = Some hi\<rparr>"

definition bounds_min :: "'a \<Rightarrow> 'a validation_bounds" where
  "bounds_min lo = \<lparr>vb_min = Some lo, vb_max = None\<rparr>"

fun strip_prefix :: "string \<Rightarrow> string \<Rightarrow> string option" where
  "strip_prefix [] s = Some s"
| "strip_prefix (p # ps) (c # cs) = (if p = c then strip_prefix ps cs else None)"
| "strip_prefix (p # ps) [] = None"

definition option_or :: "'a option \<Rightarrow> 'a option \<Rightarrow> 'a option" where
  "option_or a b = (case a of Some x \<Rightarrow> Some x | None \<Rightarrow> b)"

definition unwrap_or :: "'a option \<Rightarrow> 'a \<Rightarrow> 'a" where
  "unwrap_or a d = (case a of Some x \<Rightarrow> x | None \<Rightarrow> d)"

definition short_field_name :: "string \<Rightarrow> string" where
  "short_field_name env_var_name =
     map to_lower
       (unwrap_or
          (option_or (strip_prefix ''AZURE_COSMOS_CONNECTION_POOL_'' env_var_name)
             (strip_prefix ''AZURE_COSMOS_PPCB_'' env_var_name))
          env_var_name)"

definition validate_bounds ::
  "'a::ord \<Rightarrow> string \<Rightarrow> 'a validation_bounds \<Rightarrow> 'a option_error + 'a" where
  "validate_bounds v env_var_name bounds =
     (case vb_min bounds of
        Some lo \<Rightarrow>
          if v < lo then Inl (MustBeAtLeast (short_field_name env_var_name) lo v)
          else (case vb_max bounds of
                  Some hi \<Rightarrow>
                    if v > hi then Inl (MustBeAtMost (short_field_name env_var_name) hi v) else Inr v
                | None \<Rightarrow> Inr v)
      | None \<Rightarrow>
          (case vb_max bounds of
             Some hi \<Rightarrow> if v > hi then Inl (MustBeAtMost (short_field_name env_var_name) hi v) else Inr v
           | None \<Rightarrow> Inr v))"

definition resolve_from_env ::
  "'a::ord option \<Rightarrow> 'a option \<Rightarrow> string \<Rightarrow> 'a \<Rightarrow> 'a validation_bounds \<Rightarrow> 'a option_error + 'a" where
  "resolve_from_env builder_value env_value env_var_name default_value bounds =
     validate_bounds (unwrap_or (option_or builder_value env_value) default_value) env_var_name bounds"

definition resolve_optional_from_env ::
  "'a::ord option \<Rightarrow> 'a option \<Rightarrow> string \<Rightarrow> 'a validation_bounds \<Rightarrow> 'a option_error + 'a option" where
  "resolve_optional_from_env builder_value env_value env_var_name bounds =
     (case option_or builder_value env_value of
        Some v \<Rightarrow> map_sum id Some (validate_bounds v env_var_name bounds)
      | None \<Rightarrow> Inr None)"

definition validate_duration_bounds ::
  "duration \<Rightarrow> string \<Rightarrow> u64 \<Rightarrow> u64 \<Rightarrow> nat option_error + unit" where
  "validate_duration_bounds v env_var_name min_millis max_millis =
     (let value_millis = v div 1000000;
          field_name = short_field_name env_var_name
      in if value_millis < unat min_millis then Inl (MustBeAtLeast field_name (unat min_millis) value_millis)
         else if value_millis > unat max_millis then Inl (MustBeAtMost field_name (unat max_millis) value_millis)
         else Inr ())"

definition resolve_duration_ms ::
  "duration option \<Rightarrow> u64 option \<Rightarrow> string \<Rightarrow> u64 \<Rightarrow> u64 \<Rightarrow> u64 \<Rightarrow> nat option_error + duration" where
  "resolve_duration_ms builder_value env_millis env_var_name default_millis min_millis max_millis =
     (let v = unwrap_or (option_or builder_value (map_option (\<lambda>ms. from_millis (unat ms)) env_millis))
                (from_millis (unat default_millis))
      in case validate_duration_bounds v env_var_name min_millis max_millis of
           Inl e \<Rightarrow> Inl e
         | Inr _ \<Rightarrow> Inr v)"

definition resolve_optional_duration_ms ::
  "duration option \<Rightarrow> u64 option \<Rightarrow> string \<Rightarrow> u64 \<Rightarrow> u64 \<Rightarrow> nat option_error + duration option" where
  "resolve_optional_duration_ms builder_value env_millis env_var_name min_millis max_millis =
     (case option_or builder_value (map_option (\<lambda>ms. from_millis (unat ms)) env_millis) of
        Some v \<Rightarrow>
          (case validate_duration_bounds v env_var_name min_millis max_millis of
             Inl e \<Rightarrow> Inl e
           | Inr _ \<Rightarrow> Inr (Some v))
      | None \<Rightarrow> Inr None)"

type_synonym env = "string \<Rightarrow> string option"

text \<open>A present but unparseable variable is logged and ignored.\<close>

definition parse_duration_millis_from_env ::
  "duration option \<Rightarrow> string \<Rightarrow> u64 \<Rightarrow> u64 \<Rightarrow> u64 \<Rightarrow> env \<Rightarrow> nat option_error + duration" where
  "parse_duration_millis_from_env builder_value env_var_name default_millis min_millis max_millis get_env =
     resolve_duration_ms builder_value (Option.bind (get_env env_var_name) parse_u64) env_var_name
       default_millis min_millis max_millis"

definition parse_from_env ::
  "(string \<Rightarrow> 'a option) \<Rightarrow> 'a::ord option \<Rightarrow> string \<Rightarrow> 'a \<Rightarrow> 'a validation_bounds \<Rightarrow> env \<Rightarrow>
   'a option_error + 'a" where
  "parse_from_env parse builder_value env_var_name default_value bounds get_env =
     resolve_from_env builder_value (Option.bind (get_env env_var_name) parse) env_var_name
       default_value bounds"

definition parse_optional_bool_from_env :: "bool option \<Rightarrow> string \<Rightarrow> env \<Rightarrow> bool option" where
  "parse_optional_bool_from_env builder_value env_var_name get_env =
     (case builder_value of
        Some v \<Rightarrow> Some v
      | None \<Rightarrow>
          (case get_env env_var_name of
             None \<Rightarrow> None
           | Some raw \<Rightarrow>
               (let s = map to_lower (trim raw) in
                if s \<in> {''true'', ''1'', ''yes'', ''on''} then Some True
                else if s \<in> {''false'', ''0'', ''no'', ''off''} then Some False
                else None)))"

text \<open>\<^verbatim>\<open>bool::from_str\<close> and \<^verbatim>\<open>u32::from_str\<close>.\<close>

definition parse_bool :: "string \<Rightarrow> bool option" where
  "parse_bool s = (if s = ''true'' then Some True else if s = ''false'' then Some False else None)"

definition parse_u32 :: "string \<Rightarrow> u32 option" where
  "parse_u32 s = map_option of_nat (parse_unsigned (2 ^ 32) s)"

section \<open>The options of partition failover\<close>

record partition_failover_options =
  pfo_circuit_breaker_enabled :: bool
  pfo_circuit_breaker_enabled_override :: "bool option"
  pfo_read_failure_threshold :: u32
  pfo_write_failure_threshold :: u32
  pfo_counter_reset_window :: duration
  pfo_partition_unavailability_duration :: duration
  pfo_failback_sweep_interval :: duration
  pfo_consecutive_hedge_win_threshold :: u32

definition partition_failover_default :: partition_failover_options where
  "partition_failover_default =
     \<lparr>pfo_circuit_breaker_enabled = True,
      pfo_circuit_breaker_enabled_override = None,
      pfo_read_failure_threshold = 10,
      pfo_write_failure_threshold = 5,
      pfo_counter_reset_window = from_millis 300000,
      pfo_partition_unavailability_duration = from_millis 5000,
      pfo_failback_sweep_interval = from_millis 300000,
      pfo_consecutive_hedge_win_threshold = 5\<rparr>"

record partition_failover_builder =
  pfb_circuit_breaker_enabled :: "bool option"
  pfb_circuit_breaker_enabled_override :: "bool option"
  pfb_read_failure_threshold :: "u32 option"
  pfb_write_failure_threshold :: "u32 option"
  pfb_counter_reset_window :: "duration option"
  pfb_partition_unavailability_duration :: "duration option"
  pfb_failback_sweep_interval :: "duration option"
  pfb_consecutive_hedge_win_threshold :: "u32 option"

definition failover_builder_new :: partition_failover_builder where
  "failover_builder_new =
     \<lparr>pfb_circuit_breaker_enabled = None, pfb_circuit_breaker_enabled_override = None,
      pfb_read_failure_threshold = None, pfb_write_failure_threshold = None,
      pfb_counter_reset_window = None, pfb_partition_unavailability_duration = None,
      pfb_failback_sweep_interval = None, pfb_consecutive_hedge_win_threshold = None\<rparr>"

datatype failover_options_error =
    BoolError "bool option_error" | CountError "u32 option_error" | DurationError "nat option_error"

definition and_then :: "('e \<Rightarrow> 'f) \<Rightarrow> 'e + 'a \<Rightarrow> ('a \<Rightarrow> 'f + 'b) \<Rightarrow> 'f + 'b" where
  "and_then wrap r k = (case r of Inl e \<Rightarrow> Inl (wrap e) | Inr a \<Rightarrow> k a)"

definition as_millis_u64 :: "duration \<Rightarrow> u64" where
  "as_millis_u64 d = of_nat (d div 1000000)"

definition build_from_env ::
  "partition_failover_builder \<Rightarrow> env \<Rightarrow> failover_options_error + partition_failover_options" where
  "build_from_env self get_env =
     (let defaults = partition_failover_default in
      and_then BoolError
        (parse_from_env parse_bool (pfb_circuit_breaker_enabled self) ''AZURE_COSMOS_PPCB_ENABLED''
           (pfo_circuit_breaker_enabled defaults) bounds_none get_env)
      (\<lambda>circuit_breaker_enabled.
        let circuit_breaker_enabled_override =
              parse_optional_bool_from_env (pfb_circuit_breaker_enabled_override self)
                ''AZURE_COSMOS_PPCB_ENABLED_OVERRIDE'' get_env in
      and_then CountError
        (parse_from_env parse_u32 (pfb_read_failure_threshold self)
           ''AZURE_COSMOS_PPCB_READ_FAILURE_THRESHOLD'' (pfo_read_failure_threshold defaults)
           (bounds_min 1) get_env)
      (\<lambda>read_failure_threshold.
      and_then CountError
        (parse_from_env parse_u32 (pfb_write_failure_threshold self)
           ''AZURE_COSMOS_PPCB_WRITE_FAILURE_THRESHOLD'' (pfo_write_failure_threshold defaults)
           (bounds_min 1) get_env)
      (\<lambda>write_failure_threshold.
      and_then DurationError
        (parse_duration_millis_from_env (pfb_counter_reset_window self)
           ''AZURE_COSMOS_PPCB_COUNTER_RESET_WINDOW_MS''
           (as_millis_u64 (pfo_counter_reset_window defaults)) 1000 (- 1) get_env)
      (\<lambda>counter_reset_window.
      and_then DurationError
        (parse_duration_millis_from_env (pfb_partition_unavailability_duration self)
           ''AZURE_COSMOS_PPCB_PARTITION_UNAVAILABILITY_DURATION_MS''
           (as_millis_u64 (pfo_partition_unavailability_duration defaults)) 1000 (- 1) get_env)
      (\<lambda>partition_unavailability_duration.
      and_then DurationError
        (parse_duration_millis_from_env (pfb_failback_sweep_interval self)
           ''AZURE_COSMOS_PPCB_FAILBACK_SWEEP_INTERVAL_MS''
           (as_millis_u64 (pfo_failback_sweep_interval defaults)) 1000 (- 1) get_env)
      (\<lambda>failback_sweep_interval.
      and_then CountError
        (parse_from_env parse_u32 (pfb_consecutive_hedge_win_threshold self)
           ''AZURE_COSMOS_PPCB_CONSECUTIVE_HEDGE_WIN_THRESHOLD''
           (pfo_consecutive_hedge_win_threshold defaults) (bounds_min 1) get_env)
      (\<lambda>consecutive_hedge_win_threshold.
        Inr \<lparr>pfo_circuit_breaker_enabled = circuit_breaker_enabled,
             pfo_circuit_breaker_enabled_override = circuit_breaker_enabled_override,
             pfo_read_failure_threshold = read_failure_threshold,
             pfo_write_failure_threshold = write_failure_threshold,
             pfo_counter_reset_window = counter_reset_window,
             pfo_partition_unavailability_duration = partition_unavailability_duration,
             pfo_failback_sweep_interval = failback_sweep_interval,
             pfo_consecutive_hedge_win_threshold = consecutive_hedge_win_threshold\<rparr>))))))))"

section \<open>What a successful build guarantees\<close>

definition options_ok :: "partition_failover_options \<Rightarrow> bool" where
  "options_ok opts \<longleftrightarrow>
     pfo_read_failure_threshold opts \<noteq> 0 \<and> pfo_write_failure_threshold opts \<noteq> 0 \<and>
     pfo_consecutive_hedge_win_threshold opts \<noteq> 0 \<and>
     from_millis 1000 \<le> pfo_counter_reset_window opts \<and>
     from_millis 1000 \<le> pfo_partition_unavailability_duration opts \<and>
     from_millis 1000 \<le> pfo_failback_sweep_interval opts"

lemma and_then_Inr: "and_then w r k = Inr b \<longleftrightarrow> (\<exists>a. r = Inr a \<and> k a = Inr b)"
  by (cases r) (simp_all add: and_then_def)

lemma parse_from_env_min:
  "parse_from_env p bv n d (bounds_min lo) get_env = Inr (v :: u32) \<Longrightarrow> lo \<le> v"
  by (auto simp: parse_from_env_def resolve_from_env_def validate_bounds_def bounds_min_def
      split: if_splits)

lemma parse_duration_min:
  assumes "parse_duration_millis_from_env bv n d 1000 hi get_env = Inr v"
  shows "from_millis 1000 \<le> v"
proof -
  have "\<not> v div 1000000 < 1000"
    using assms
    by (auto simp: parse_duration_millis_from_env_def resolve_duration_ms_def Let_def
        validate_duration_bounds_def split: if_splits sum.splits)
  then show ?thesis by (simp add: from_millis_def)
qed

lemma build_from_env_ok: "build_from_env b get_env = Inr opts \<Longrightarrow> options_ok opts"
  unfolding build_from_env_def Let_def and_then_Inr
  by (clarsimp simp: options_ok_def)
    (auto dest!: parse_from_env_min parse_duration_min)

definition agrees :: "'a option \<Rightarrow> 'a \<Rightarrow> bool" where
  "agrees set_value v \<longleftrightarrow> (case set_value of None \<Rightarrow> True | Some w \<Rightarrow> v = w)"

lemma parse_from_env_agrees:
  "parse_from_env p bv n d bounds get_env = Inr (v :: 'a::ord) \<Longrightarrow> agrees bv v"
  by (auto simp: agrees_def parse_from_env_def resolve_from_env_def validate_bounds_def option_or_def
      unwrap_or_def split: if_splits option.splits)

lemma parse_duration_agrees:
  "parse_duration_millis_from_env bv n d lo hi get_env = Inr v \<Longrightarrow> agrees bv v"
  by (auto simp: agrees_def parse_duration_millis_from_env_def resolve_duration_ms_def option_or_def
      unwrap_or_def Let_def split: sum.splits option.splits)

lemma parse_optional_bool_agrees:
  "agrees (map_option Some bv) (parse_optional_bool_from_env bv n get_env)"
  by (simp add: agrees_def parse_optional_bool_from_env_def split: option.split)

definition builder_respected :: "partition_failover_builder \<Rightarrow> partition_failover_options \<Rightarrow> bool" where
  "builder_respected b opts \<longleftrightarrow>
     agrees (pfb_circuit_breaker_enabled b) (pfo_circuit_breaker_enabled opts) \<and>
     agrees (map_option Some (pfb_circuit_breaker_enabled_override b)) (pfo_circuit_breaker_enabled_override opts) \<and>
     agrees (pfb_read_failure_threshold b) (pfo_read_failure_threshold opts) \<and>
     agrees (pfb_write_failure_threshold b) (pfo_write_failure_threshold opts) \<and>
     agrees (pfb_counter_reset_window b) (pfo_counter_reset_window opts) \<and>
     agrees (pfb_partition_unavailability_duration b) (pfo_partition_unavailability_duration opts) \<and>
     agrees (pfb_failback_sweep_interval b) (pfo_failback_sweep_interval opts) \<and>
     agrees (pfb_consecutive_hedge_win_threshold b) (pfo_consecutive_hedge_win_threshold opts)"

lemma build_from_env_respects: "build_from_env b get_env = Inr opts \<Longrightarrow> builder_respected b opts"
  unfolding build_from_env_def Let_def and_then_Inr
  by (clarsimp simp: builder_respected_def parse_optional_bool_agrees)
    (blast intro: parse_from_env_agrees parse_duration_agrees)

text \<open>A text that none of the parsers accepts.\<close>

definition unparseable :: "string \<Rightarrow> bool" where
  "unparseable raw \<longleftrightarrow>
     parse_bool raw = None \<and> parse_u32 raw = None \<and> parse_u64 raw = None \<and>
     map to_lower (trim raw) \<notin> {''true'', ''1'', ''yes'', ''on'', ''false'', ''0'', ''no'', ''off''}"

section \<open>Properties\<close>

text \<open>Validated options: whenever the builder succeeds, in whatever environment, all thresholds are
  at least one and all durations at least one second, and every value that was set on the builder
  is the value of the options, the environment notwithstanding.\<close>

theorem built_options_valid:
  assumes "build_from_env b get_env = Inr opts"
  shows "options_ok opts \<and> builder_respected b opts"
  using build_from_env_ok [OF assms] build_from_env_respects [OF assms] by blast

theorem built_options_valid_witness:
  "\<exists>opts. build_from_env (failover_builder_new\<lparr>pfb_read_failure_threshold := Some 3\<rparr>)
       (\<lambda>n. if n = ''AZURE_COSMOS_PPCB_ENABLED'' then Some ''false'' else None) = Inr opts \<and>
     options_ok opts \<and> pfo_read_failure_threshold opts = 3"
proof -
  let ?b = "failover_builder_new\<lparr>pfb_read_failure_threshold := Some 3\<rparr>"
  let ?e = "\<lambda>n. if n = ''AZURE_COSMOS_PPCB_ENABLED'' then Some ''false'' else None"
  obtain opts where o: "build_from_env ?b ?e = Inr opts"
    by (simp add: build_from_env_def failover_builder_new_def partition_failover_default_def and_then_def
        parse_from_env_def resolve_from_env_def validate_bounds_def option_or_def unwrap_or_def
        bounds_none_def bounds_min_def parse_bool_def parse_duration_millis_from_env_def
        resolve_duration_ms_def validate_duration_bounds_def as_millis_u64_def from_millis_def
        word_less_nat_alt Let_def unsigned_minus_1_eq_mask mask_eq_exp_minus_1)
  with built_options_valid [OF o] show ?thesis
    by (auto simp: builder_respected_def agrees_def failover_builder_new_def)
qed

text \<open>An environment variable that cannot be parsed is never an error: if every variable is absent
  or unparseable, the build gives the same result as with an empty environment.\<close>

theorem unparseable_env_ignored:
  assumes "\<And>n raw. get_env n = Some raw \<Longrightarrow> unparseable raw"
  shows "build_from_env b get_env = build_from_env b (\<lambda>_. None)"
proof -
  have "Option.bind (get_env n) parse_bool = None" "Option.bind (get_env n) parse_u32 = None"
    "Option.bind (get_env n) parse_u64 = None" for n
    using assms [of n] by (cases "get_env n"; auto simp: unparseable_def)+
  moreover have "parse_optional_bool_from_env bv n get_env = parse_optional_bool_from_env bv n (\<lambda>_. None)" for bv n
    using assms [of n]
    by (cases "get_env n") (auto simp: parse_optional_bool_from_env_def unparseable_def Let_def split: option.split)
  ultimately show ?thesis
    by (simp add: build_from_env_def parse_from_env_def parse_duration_millis_from_env_def)
qed

theorem unparseable_env_ignored_witness:
  "build_from_env failover_builder_new (\<lambda>_. Some ''ten'') = build_from_env failover_builder_new (\<lambda>_. None)"
  by (rule unparseable_env_ignored)
    (simp add: unparseable_def parse_bool_def parse_u32_def parse_u64_def parse_unsigned_def
      is_ascii_digit_def trim_def trim_start_def is_whitespace_def to_lower_def)

end
