(* ===== verification/Partition_Failover.thy ===== *)
theory Partition_Failover
  imports Endpoints Failover_Options
begin

text \<open>
  Partition-level routing state: per-partition automatic failover (PPAF) and the per-partition
  circuit breaker (PPCB) of \<^verbatim>\<open>driver/routing/partition_endpoint_state.rs\<close>,
  \<^verbatim>\<open>driver/routing/location_effects.rs\<close> and the partition half of
  \<^verbatim>\<open>driver/routing/routing_systems.rs\<close>.

  The failure counters are \<^verbatim>\<open>i32\<close>, 32-bit words compared with the signed order; thresholds are
  \<^verbatim>\<open>u32\<close> and cast. What an operation reads from its surroundings (the monotonic clock, the wall
  clock and the standard hasher, which seed the jitter) is a record argument. Endpoint sets are sets.
\<close>

section \<open>State\<close>

datatype health_status = Unhealthy | ProbeCandidate

record partition_failover_entry =
  pfe_current_endpoint :: cosmos_endpoint
  pfe_first_failed_endpoint :: cosmos_endpoint
  pfe_failed_endpoints :: "cosmos_endpoint set"
  pfe_read_failure_count :: "32 word"
  pfe_write_failure_count :: "32 word"
  pfe_first_failure_time :: instant
  pfe_last_failure_time :: instant
  pfe_health_status :: health_status
  pfe_failback_jitter :: duration

type_synonym pk_range_id = string

record partition_endpoint_state =
  pes_failover_overrides :: "(pk_range_id, partition_failover_entry) hashmap"
  pes_circuit_breaker_overrides :: "(pk_range_id, partition_failover_entry) hashmap"
  pes_ppaf_enabled :: bool
  pes_ppcb_enabled :: bool
  pes_consecutive_hedge_wins :: "(pk_range_id \<times> region option, u32) hashmap"
  pes_config :: partition_failover_options

definition partition_state_new :: "partition_failover_options \<Rightarrow> partition_endpoint_state" where
  "partition_state_new config =
     \<lparr>pes_failover_overrides = [], pes_circuit_breaker_overrides = [],
      pes_ppaf_enabled = False,
      pes_ppcb_enabled =
        unwrap_or (pfo_circuit_breaker_enabled_override config) (pfo_circuit_breaker_enabled config),
      pes_consecutive_hedge_wins = [], pes_config = config\<rparr>"

record unavailable_partition =
  up_partition_key_range_id :: "pk_range_id option"
  up_region :: "region option"
  up_is_read :: bool
  up_is_partitioned_resource :: bool

datatype location_effect =
    MarkEndpointUnavailable cosmos_endpoint unavailable_reason
  | MarkPartitionUnavailable unavailable_partition
  | RefreshAccountProperties
  | CacheHubRegion pk_range_id cosmos_endpoint
  | AdvanceHubRegionDiscovery pk_range_id cosmos_endpoint

section \<open>Eligibility\<close>

definition is_eligible_for_ppaf ::
  "partition_endpoint_state \<Rightarrow> account_endpoint_state \<Rightarrow> bool \<Rightarrow> bool \<Rightarrow> bool" where
  "is_eligible_for_ppaf partition_state account_state read_only is_partitioned_resource \<longleftrightarrow>
     pes_ppaf_enabled partition_state \<and> is_partitioned_resource \<and> \<not> read_only \<and>
     \<not> aes_multiple_write_locations_enabled account_state \<and>
     length (aes_preferred_read_endpoints account_state) > 1"

definition is_eligible_for_ppcb ::
  "partition_endpoint_state \<Rightarrow> account_endpoint_state \<Rightarrow> bool \<Rightarrow> bool \<Rightarrow> bool" where
  "is_eligible_for_ppcb partition_state account_state read_only is_partitioned_resource \<longleftrightarrow>
     pes_ppcb_enabled partition_state \<and> is_partitioned_resource \<and>
     (read_only \<or> aes_multiple_write_locations_enabled account_state) \<and>
     length (aes_preferred_read_endpoints account_state) > 1"

definition can_circuit_breaker_trigger_failover ::
  "partition_failover_entry \<Rightarrow> bool \<Rightarrow> partition_failover_options \<Rightarrow> bool" where
  "can_circuit_breaker_trigger_failover entry read_only config \<longleftrightarrow>
     (if read_only then sint (pfo_read_failure_threshold config) \<le> sint (pfe_read_failure_count entry)
      else sint (pfo_write_failure_threshold config) \<le> sint (pfe_write_failure_count entry))"

section \<open>Jitter\<close>

record surroundings =
  sur_now :: instant
  sur_epoch_nanos :: u64
  sur_hash :: "pk_range_id \<Rightarrow> u64"

definition splitmix_finalize :: "u64 \<Rightarrow> u64" where
  "splitmix_finalize z =
     (let z = xor z (drop_bit 30 z) * 0xbf58476d1ce4e5b9;
          z = xor z (drop_bit 27 z) * 0x94d049bb133111eb
      in xor z (drop_bit 31 z))"

definition ppcb_failback_jitter :: "surroundings \<Rightarrow> duration \<Rightarrow> pk_range_id \<Rightarrow> duration" where
  "ppcb_failback_jitter sur unavailability_duration pk_range_id =
     (let max_jitter_nanos = (of_nat (unavailability_duration div 2) :: u64) in
      if max_jitter_nanos = 0 then 0
      else unat (splitmix_finalize (xor (sur_epoch_nanos sur) (sur_hash sur pk_range_id)) mod max_jitter_nanos))"

section \<open>Moving a partition\<close>

text \<open>The loop over the candidates.\<close>

fun next_candidate ::
  "cosmos_endpoint \<Rightarrow> cosmos_endpoint set \<Rightarrow> cosmos_endpoint list \<Rightarrow> cosmos_endpoint option" where
  "next_candidate current failed [] = None"
| "next_candidate current failed (candidate # rest) =
     (if candidate = current then next_candidate current failed rest
      else if candidate \<in> failed then next_candidate current failed rest
      else Some candidate)"

definition try_move_next_endpoint ::
  "partition_failover_entry \<Rightarrow> cosmos_endpoint list \<Rightarrow> cosmos_endpoint \<Rightarrow> partition_failover_entry \<times> bool" where
  "try_move_next_endpoint entry next_endpoints failed_endpoint =
     (if failed_endpoint \<noteq> pfe_current_endpoint entry then (entry, True)
      else
        let entry = entry\<lparr>pfe_failed_endpoints := insert failed_endpoint (pfe_failed_endpoints entry)\<rparr> in
        case next_candidate (pfe_current_endpoint entry) (pfe_failed_endpoints entry) next_endpoints of
          Some candidate \<Rightarrow> (entry\<lparr>pfe_current_endpoint := candidate\<rparr>, True)
        | None \<Rightarrow> (entry, False))"

definition fresh_entry :: "cosmos_endpoint \<Rightarrow> instant \<Rightarrow> duration \<Rightarrow> partition_failover_entry" where
  "fresh_entry endpoint now jitter =
     \<lparr>pfe_current_endpoint = endpoint, pfe_first_failed_endpoint = endpoint, pfe_failed_endpoints = {},
      pfe_read_failure_count = 0, pfe_write_failure_count = 0,
      pfe_first_failure_time = now, pfe_last_failure_time = now,
      pfe_health_status = Unhealthy, pfe_failback_jitter = jitter\<rparr>"

text \<open>The endpoint of a region, looked up in the read and then in the write list.\<close>

definition endpoint_of_region :: "account_endpoint_state \<Rightarrow> region \<Rightarrow> cosmos_endpoint option" where
  "endpoint_of_region account_state region =
     find (\<lambda>e. ep_region e = Some region)
       (aes_preferred_read_endpoints account_state @ aes_preferred_write_endpoints account_state)"

text \<open>The circuit-breaker branch of \<^verbatim>\<open>mark_partition_unavailable\<close> on the entry: the result is the
  updated entry, or nothing when the entry is removed.\<close>

definition reset_probe ::
  "surroundings \<Rightarrow> partition_failover_options \<Rightarrow> pk_range_id \<Rightarrow> partition_failover_entry \<Rightarrow> partition_failover_entry" where
  "reset_probe sur config pk_range_id entry =
     entry\<lparr>pfe_health_status := Unhealthy, pfe_read_failure_count := 0, pfe_write_failure_count := 0,
       pfe_current_endpoint := pfe_first_failed_endpoint entry, pfe_failed_endpoints := {},
       pfe_first_failure_time := sur_now sur, pfe_last_failure_time := sur_now sur,
       pfe_failback_jitter :=
         ppcb_failback_jitter sur (pfo_partition_unavailability_duration config) pk_range_id\<rparr>"

definition count_failure ::
  "instant \<Rightarrow> partition_failover_options \<Rightarrow> bool \<Rightarrow> partition_failover_entry \<Rightarrow> partition_failover_entry" where
  "count_failure now config is_read entry =
     (let entry =
            (if saturating_duration_since now (pfe_last_failure_time entry) > pfo_counter_reset_window config
             then entry\<lparr>pfe_read_failure_count := 0, pfe_write_failure_count := 0\<rparr> else entry);
          entry =
            (if is_read then entry\<lparr>pfe_read_failure_count := pfe_read_failure_count entry + 1\<rparr>
             else entry\<lparr>pfe_write_failure_count := pfe_write_failure_count entry + 1\<rparr>)
      in entry\<lparr>pfe_last_failure_time := now\<rparr>)"

definition breaker_step ::
  "surroundings \<Rightarrow> partition_failover_options \<Rightarrow> pk_range_id \<Rightarrow> bool \<Rightarrow> cosmos_endpoint list \<Rightarrow> cosmos_endpoint \<Rightarrow>
   partition_failover_entry \<Rightarrow> partition_failover_entry option" where
  "breaker_step sur config pk_range_id is_read next_endpoints failed_endpoint entry =
     (if pfe_health_status entry = ProbeCandidate then Some (reset_probe sur config pk_range_id entry)
      else
        let entry = count_failure (sur_now sur) config is_read entry in
        if \<not> can_circuit_breaker_trigger_failover entry is_read config then Some entry
        else case try_move_next_endpoint entry next_endpoints failed_endpoint of
          (entry', True) \<Rightarrow> Some entry'
        | (entry', False) \<Rightarrow> None)"

definition failover_step ::
  "instant \<Rightarrow> cosmos_endpoint list \<Rightarrow> cosmos_endpoint \<Rightarrow> partition_failover_entry \<Rightarrow> partition_failover_entry option" where
  "failover_step now next_endpoints failed_endpoint entry =
     (case try_move_next_endpoint (entry\<lparr>pfe_last_failure_time := now\<rparr>) next_endpoints failed_endpoint of
        (entry', True) \<Rightarrow> Some entry'
      | (entry', False) \<Rightarrow> None)"

text \<open>\<^verbatim>\<open>entry(k).or_insert_with(..)\<close>, a step on the entry, and its removal when the step says so.\<close>

definition hm_step :: "'k \<Rightarrow> 'v \<Rightarrow> ('v \<Rightarrow> 'v option) \<Rightarrow> ('k, 'v) hashmap \<Rightarrow> ('k, 'v) hashmap" where
  "hm_step k fresh step m =
     (let entry = (case hm_get m k of Some e \<Rightarrow> e | None \<Rightarrow> fresh) in
      case step entry of
        Some e \<Rightarrow> hm_insert k e m
      | None \<Rightarrow> hm_remove k m)"

definition mark_partition_unavailable ::
  "surroundings \<Rightarrow> partition_endpoint_state \<Rightarrow> account_endpoint_state \<Rightarrow> unavailable_partition \<Rightarrow> bool \<Rightarrow>
   partition_endpoint_state" where
  "mark_partition_unavailable sur current_state account_state unavail is_partitioned_resource =
     (case up_partition_key_range_id unavail of
        None \<Rightarrow> current_state
      | Some pk_range_id \<Rightarrow>
          (case Option.bind (up_region unavail) (endpoint_of_region account_state) of
             None \<Rightarrow> current_state
           | Some failed_endpoint \<Rightarrow>
               let now = sur_now sur;
                   config = pes_config current_state;
                   is_read = up_is_read unavail;
                   next_endpoints = aes_preferred_read_endpoints account_state
               in if is_eligible_for_ppcb current_state account_state is_read is_partitioned_resource then
                    current_state\<lparr>pes_circuit_breaker_overrides :=
                      hm_step pk_range_id
                        (fresh_entry failed_endpoint now
                           (ppcb_failback_jitter sur (pfo_partition_unavailability_duration config) pk_range_id))
                        (breaker_step sur config pk_range_id is_read next_endpoints failed_endpoint)
                        (pes_circuit_breaker_overrides current_state)\<rparr>
                  else if is_eligible_for_ppaf current_state account_state is_read is_partitioned_resource then
                    current_state\<lparr>pes_failover_overrides :=
                      hm_step pk_range_id (fresh_entry failed_endpoint now 0)
                        (failover_step now next_endpoints failed_endpoint)
                        (pes_failover_overrides current_state)\<rparr>
                  else current_state))"

section \<open>Hub-region discovery\<close>

definition cache_hub_region ::
  "instant \<Rightarrow> partition_endpoint_state \<Rightarrow> pk_range_id \<Rightarrow> cosmos_endpoint \<Rightarrow> partition_endpoint_state" where
  "cache_hub_region now current_state pk_range_id hub_endpoint =
     (if \<not> pes_ppaf_enabled current_state then current_state
      else if ep_region hub_endpoint = None then current_state
      else current_state\<lparr>pes_failover_overrides :=
        hm_upsert pk_range_id (\<lambda>entry. entry\<lparr>pfe_current_endpoint := hub_endpoint\<rparr>)
          (fresh_entry hub_endpoint now 0) (pes_failover_overrides current_state)\<rparr>)"

definition hub_discovery_step ::
  "instant \<Rightarrow> cosmos_endpoint list \<Rightarrow> cosmos_endpoint \<Rightarrow> partition_failover_entry \<Rightarrow> partition_failover_entry option" where
  "hub_discovery_step now next_endpoints failed_endpoint entry =
     (case try_move_next_endpoint entry next_endpoints failed_endpoint of
        (entry', True) \<Rightarrow> Some (entry'\<lparr>pfe_last_failure_time := now\<rparr>)
      | (entry', False) \<Rightarrow> None)"

definition advance_hub_region_discovery ::
  "instant \<Rightarrow> partition_endpoint_state \<Rightarrow> account_endpoint_state \<Rightarrow> pk_range_id \<Rightarrow> cosmos_endpoint \<Rightarrow>
   partition_endpoint_state" where
  "advance_hub_region_discovery now current_state account_state pk_range_id failed_endpoint =
     (if \<not> pes_ppaf_enabled current_state then current_state
      else current_state\<lparr>pes_failover_overrides :=
        hm_step pk_range_id (fresh_entry failed_endpoint now 0)
          (hub_discovery_step now (aes_preferred_read_endpoints account_state) failed_endpoint)
          (pes_failover_overrides current_state)\<rparr>)"

section \<open>Failback\<close>

definition expire_entry :: "instant \<Rightarrow> duration \<Rightarrow> partition_failover_entry \<Rightarrow> partition_failover_entry" where
  "expire_entry now unavailability_duration entry =
     (if pfe_health_status entry = Unhealthy \<and>
         saturating_duration_since now (pfe_first_failure_time entry)
           \<ge> unavailability_duration + pfe_failback_jitter entry
      then entry\<lparr>pfe_health_status := ProbeCandidate\<rparr> else entry)"

definition expire_partition_overrides ::
  "partition_endpoint_state \<Rightarrow> instant \<Rightarrow> duration \<Rightarrow> partition_endpoint_state" where
  "expire_partition_overrides state now unavailability_duration =
     state\<lparr>pes_circuit_breaker_overrides :=
       hm_map_values (expire_entry now unavailability_duration) (pes_circuit_breaker_overrides state)\<rparr>"

definition remove_probe_succeeded_entry ::
  "partition_endpoint_state \<Rightarrow> pk_range_id \<Rightarrow> partition_endpoint_state" where
  "remove_probe_succeeded_entry state partition_key_range_id =
     state\<lparr>pes_circuit_breaker_overrides :=
       hm_remove partition_key_range_id (pes_circuit_breaker_overrides state)\<rparr>"

section \<open>Hedge wins\<close>

definition hedge_trip_entry ::
  "surroundings \<Rightarrow> partition_failover_options \<Rightarrow> pk_range_id \<Rightarrow> cosmos_endpoint \<Rightarrow> partition_failover_entry" where
  "hedge_trip_entry sur config pk_range_id primary_endpoint =
     (fresh_entry primary_endpoint (sur_now sur)
        (ppcb_failback_jitter sur (pfo_partition_unavailability_duration config) pk_range_id))
     \<lparr>pfe_read_failure_count := pfo_read_failure_threshold config,
      pfe_write_failure_count := pfo_write_failure_threshold config\<rparr>"

definition record_hedge_alternate_win ::
  "surroundings \<Rightarrow> partition_endpoint_state \<Rightarrow> account_endpoint_state \<Rightarrow> pk_range_id \<Rightarrow> region option \<Rightarrow>
   partition_endpoint_state" where
  "record_hedge_alternate_win sur state account_state partition_key_range_id primary_region =
     (let key = (partition_key_range_id, primary_region);
          count = saturating_add_word
                    (case hm_get (pes_consecutive_hedge_wins state) key of Some c \<Rightarrow> c | None \<Rightarrow> 0) 1;
          new_state = state\<lparr>pes_consecutive_hedge_wins := hm_insert key count (pes_consecutive_hedge_wins state)\<rparr>;
          cleared = hm_remove key (pes_consecutive_hedge_wins new_state)
      in if \<not> pfo_consecutive_hedge_win_threshold (pes_config state) \<le> count then new_state
         else if (case hm_get (pes_circuit_breaker_overrides new_state) partition_key_range_id of
                    Some existing \<Rightarrow> pfe_health_status existing = Unhealthy
                  | None \<Rightarrow> False)
         then new_state\<lparr>pes_consecutive_hedge_wins := cleared\<rparr>
         else case Option.bind primary_region (endpoint_of_region account_state) of
           None \<Rightarrow> new_state
         | Some primary_endpoint \<Rightarrow>
             (case try_move_next_endpoint
                     (hedge_trip_entry sur (pes_config state) partition_key_range_id primary_endpoint)
                     (aes_preferred_read_endpoints account_state) primary_endpoint of
                (entry, False) \<Rightarrow> new_state
              | (entry, True) \<Rightarrow>
                  new_state\<lparr>pes_consecutive_hedge_wins := cleared,
                    pes_circuit_breaker_overrides :=
                      hm_insert partition_key_range_id entry (pes_circuit_breaker_overrides new_state)\<rparr>))"

definition record_hedge_primary_win ::
  "partition_endpoint_state \<Rightarrow> pk_range_id \<Rightarrow> region option \<Rightarrow> partition_endpoint_state" where
  "record_hedge_primary_win state partition_key_range_id primary_region =
     (let key = (partition_key_range_id, primary_region) in
      if \<not> hm_contains_key key (pes_consecutive_hedge_wins state) then state
      else state\<lparr>pes_consecutive_hedge_wins := hm_remove key (pes_consecutive_hedge_wins state)\<rparr>)"

section \<open>Lookups after a step\<close>

lemma hm_get_step [hm_simps]:
  "hm_get (hm_step k fresh step m) k' =
     (if k' = k then step (case hm_get m k of Some e \<Rightarrow> e | None \<Rightarrow> fresh) else hm_get m k')"
  by (simp add: hm_step_def Let_def hm_simps split: option.split)

lemma hm_wf_step [simp]: "hm_wf m \<Longrightarrow> hm_wf (hm_step k fresh step m)"
  by (simp add: hm_step_def Let_def split: option.split)

section \<open>Moving to the next endpoint\<close>

lemma next_candidate_Some:
  "next_candidate c failed es = Some e \<Longrightarrow> e \<in> set es \<and> e \<noteq> c \<and> e \<notin> failed"
  by (induction es) (auto split: if_splits)

lemma next_candidate_None:
  "next_candidate c failed es = None \<longleftrightarrow> set es \<subseteq> insert c failed"
  by (induction es) auto

lemma next_candidate_first:
  "next_candidate c failed es = find (\<lambda>e. e \<noteq> c \<and> e \<notin> failed) es"
  by (induction es) auto

lemma try_move_True:
  assumes "try_move_next_endpoint e es f = (e', True)"
  shows "(f \<noteq> pfe_current_endpoint e \<and> e' = e) \<or>
    (f = pfe_current_endpoint e \<and> (\<exists>c. c \<in> set es \<and> c \<noteq> f \<and> c \<notin> pfe_failed_endpoints e \<and>
      e' = e\<lparr>pfe_failed_endpoints := insert f (pfe_failed_endpoints e), pfe_current_endpoint := c\<rparr>))"
  using assms
  by (auto simp: try_move_next_endpoint_def Let_def split: if_splits option.splits
      dest: next_candidate_Some)

lemma try_move_False:
  "try_move_next_endpoint e es f = (e', False) \<Longrightarrow>
   f = pfe_current_endpoint e \<and> set es \<subseteq> insert f (pfe_failed_endpoints e)"
  by (auto simp: try_move_next_endpoint_def Let_def next_candidate_None split: if_splits option.splits)

section \<open>Jitter\<close>

lemma jitter_bound: "2 * ppcb_failback_jitter sur d k \<le> d"
proof (cases "(of_nat (d div 2) :: u64) = 0")
  case True
  then show ?thesis by (simp add: ppcb_failback_jitter_def)
next
  case False
  let ?m = "of_nat (d div 2) :: u64"
  have "unat (z mod ?m) < unat ?m" for z
    using False by (simp add: unat_mod unat_gt_0)
  moreover have "unat ?m \<le> d div 2" by (simp add: unsigned_of_nat take_bit_eq_mod)
  ultimately show ?thesis
    using False by (simp add: ppcb_failback_jitter_def Let_def) (meson less_imp_le_nat order_trans mult_le_mono2 times_div_less_eq_dividend)
qed

section \<open>State machines and their invariants\<close>

locale invariant_system =
  fixes init :: "'s \<Rightarrow> bool"
    and step :: "'s \<Rightarrow> 's \<Rightarrow> bool"
    and inv :: "'s \<Rightarrow> bool"
  assumes init_inv: "init s \<Longrightarrow> inv s"
    and step_inv: "inv s \<Longrightarrow> step s t \<Longrightarrow> inv t"
begin

lemma reachable_inv: "step\<^sup>*\<^sup>* s t \<Longrightarrow> init s \<Longrightarrow> inv t"
  by (induction rule: rtranclp_induct) (auto intro: init_inv step_inv)

lemma inv_run: "step\<^sup>*\<^sup>* s t \<Longrightarrow> inv s \<Longrightarrow> inv t"
  by (induction rule: rtranclp_induct) (auto intro: step_inv)

end

text \<open>Every operation on the partition state, in whatever surroundings it runs.\<close>

inductive partition_step :: "partition_endpoint_state \<Rightarrow> partition_endpoint_state \<Rightarrow> bool" where
  mark: "partition_step s (mark_partition_unavailable sur s account unavail partitioned)"
| cache_hub: "partition_step s (cache_hub_region now s k hub)"
| advance_hub: "partition_step s (advance_hub_region_discovery now s account k failed)"
| expire: "partition_step s (expire_partition_overrides s now (pfo_partition_unavailability_duration (pes_config s)))"
| probe_succeeded: "partition_step s (remove_probe_succeeded_entry s k)"
| alternate_win: "partition_step s (record_hedge_alternate_win sur s account k region)"
| primary_win: "partition_step s (record_hedge_primary_win s k region)"

inductive_cases partition_stepE: "partition_step s t"

definition partition_init :: "partition_endpoint_state \<Rightarrow> bool" where
  "partition_init s \<longleftrightarrow> (\<exists>config. s = partition_state_new config)"

definition breaker_entry_ok :: "partition_failover_options \<Rightarrow> partition_failover_entry \<Rightarrow> bool" where
  "breaker_entry_ok config e \<longleftrightarrow>
     pfe_current_endpoint e \<notin> pfe_failed_endpoints e \<and>
     (pfe_current_endpoint e = pfe_first_failed_endpoint e \<or>
      pfe_first_failed_endpoint e \<in> pfe_failed_endpoints e) \<and>
     2 * pfe_failback_jitter e \<le> pfo_partition_unavailability_duration config"

definition partition_wf :: "partition_endpoint_state \<Rightarrow> bool" where
  "partition_wf s \<longleftrightarrow>
     hm_wf (pes_failover_overrides s) \<and> hm_wf (pes_circuit_breaker_overrides s) \<and>
     hm_wf (pes_consecutive_hedge_wins s) \<and>
     (\<forall>k e. hm_get (pes_circuit_breaker_overrides s) k = Some e \<longrightarrow> breaker_entry_ok (pes_config s) e)"

lemma fresh_entry_ok: "2 * j \<le> pfo_partition_unavailability_duration config \<Longrightarrow> breaker_entry_ok config (fresh_entry e now j)"
  by (simp add: breaker_entry_ok_def fresh_entry_def)

lemma try_move_ok:
  "breaker_entry_ok config e \<Longrightarrow> try_move_next_endpoint e es f = (e', True) \<Longrightarrow> breaker_entry_ok config e'"
  by (drule try_move_True) (auto simp: breaker_entry_ok_def)

lemma count_failure_fields [simp]:
  "pfe_current_endpoint (count_failure now config is_read e) = pfe_current_endpoint e"
  "pfe_failed_endpoints (count_failure now config is_read e) = pfe_failed_endpoints e"
  "pfe_first_failed_endpoint (count_failure now config is_read e) = pfe_first_failed_endpoint e"
  "pfe_failback_jitter (count_failure now config is_read e) = pfe_failback_jitter e"
  "pfe_health_status (count_failure now config is_read e) = pfe_health_status e"
  "pfe_first_failure_time (count_failure now config is_read e) = pfe_first_failure_time e"
  "pfe_last_failure_time (count_failure now config is_read e) = now"
  by (simp_all add: count_failure_def Let_def)

lemma count_failure_ok:
  "breaker_entry_ok config (count_failure now config' is_read e) = breaker_entry_ok config e"
  by (simp add: breaker_entry_ok_def)

lemma breaker_step_ok:
  assumes "breaker_entry_ok config e" and "breaker_step sur config k is_read es f e = Some e'"
  shows "breaker_entry_ok config e'"
proof -
  have "breaker_entry_ok config (reset_probe sur config k e)"
    using jitter_bound by (simp add: breaker_entry_ok_def reset_probe_def)
  moreover have "breaker_entry_ok config (count_failure (sur_now sur) config is_read e)"
    using assms(1) by (simp add: count_failure_ok)
  ultimately show ?thesis
    using assms(2) try_move_ok [of config "count_failure (sur_now sur) config is_read e" es f e']
    by (auto simp: breaker_step_def Let_def split: if_splits prod.splits bool.splits)
qed

lemma hedge_trip_entry_ok: "breaker_entry_ok config (hedge_trip_entry sur config k p)"
  using jitter_bound by (simp add: breaker_entry_ok_def hedge_trip_entry_def fresh_entry_def)

lemma mark_partition_wf:
  assumes "partition_wf s"
  shows "partition_wf (mark_partition_unavailable sur s account u p)"
proof -
  have ok: "breaker_entry_ok (pes_config s) e"
    if "breaker_step sur (pes_config s) k r es f
          (case hm_get (pes_circuit_breaker_overrides s) k of Some e \<Rightarrow> e
           | None \<Rightarrow> fresh_entry f (sur_now sur)
               (ppcb_failback_jitter sur (pfo_partition_unavailability_duration (pes_config s)) k)) = Some e"
    for k r es f e
    using that assms
    by (intro breaker_step_ok [OF _ that])
      (auto simp: partition_wf_def split: option.splits intro: fresh_entry_ok jitter_bound)
  show ?thesis
    using assms ok
    by (auto simp: mark_partition_unavailable_def partition_wf_def Let_def hm_simps
        split: option.split if_splits)
qed

lemma expire_entry_ok [simp]: "breaker_entry_ok config (expire_entry now d e) = breaker_entry_ok config e"
  by (simp add: expire_entry_def breaker_entry_ok_def)

lemma expire_wf:
  "partition_wf s \<Longrightarrow> partition_wf (expire_partition_overrides s now d)"
  by (auto simp: partition_wf_def expire_partition_overrides_def hm_simps)

lemma alternate_win_wf:
  assumes "partition_wf s"
  shows "partition_wf (record_hedge_alternate_win sur s account k r)"
  using assms
  by (auto simp: partition_wf_def record_hedge_alternate_win_def Let_def hm_simps
      split: option.split prod.split bool.split if_splits
      dest!: try_move_ok [OF hedge_trip_entry_ok])

lemma hub_wf:
  "partition_wf s \<Longrightarrow> partition_wf (cache_hub_region now s k hub)"
  "partition_wf s \<Longrightarrow> partition_wf (advance_hub_region_discovery now s account k failed)"
  by (simp_all add: partition_wf_def cache_hub_region_def advance_hub_region_discovery_def)

lemma removal_wf:
  "partition_wf s \<Longrightarrow> partition_wf (remove_probe_succeeded_entry s k)"
  "partition_wf s \<Longrightarrow> partition_wf (record_hedge_primary_win s k region)"
  by (auto simp: partition_wf_def remove_probe_succeeded_entry_def record_hedge_primary_win_def Let_def
      hm_simps split: if_splits)

lemma partition_step_wf: "partition_step s t \<Longrightarrow> partition_wf s \<Longrightarrow> partition_wf t"
  by (induction rule: partition_step.induct)
    (simp_all add: mark_partition_wf alternate_win_wf expire_wf hub_wf removal_wf)

lemma partition_new_wf: "partition_wf (partition_state_new config)"
  by (simp add: partition_state_new_def partition_wf_def)

interpretation partitions: invariant_system partition_init partition_step partition_wf
proof unfold_locales
  show "partition_init s \<Longrightarrow> partition_wf s" for s by (auto simp: partition_init_def partition_new_wf)
qed (rule partition_step_wf)

lemma partition_step_config: "partition_step s t \<Longrightarrow> pes_config t = pes_config s"
  by (induction rule: partition_step.induct)
    (auto simp: mark_partition_unavailable_def cache_hub_region_def advance_hub_region_discovery_def
      expire_partition_overrides_def remove_probe_succeeded_entry_def record_hedge_primary_win_def
      record_hedge_alternate_win_def Let_def split: option.split prod.split bool.split)

section \<open>Rotation of a failing write partition\<close>

text \<open>A sequence of write failures, each at the endpoint the partition was moved to.\<close>

fun rotate_failures ::
  "cosmos_endpoint list \<Rightarrow> instant list \<Rightarrow> partition_failover_entry \<Rightarrow> partition_failover_entry option" where
  "rotate_failures endpoints [] entry = Some entry"
| "rotate_failures endpoints (now # ts) entry =
     Option.bind (failover_step now endpoints (pfe_current_endpoint entry) entry) (rotate_failures endpoints ts)"

definition candidates :: "cosmos_endpoint list \<Rightarrow> partition_failover_entry \<Rightarrow> cosmos_endpoint set" where
  "candidates endpoints entry = set endpoints - insert (pfe_current_endpoint entry) (pfe_failed_endpoints entry)"

lemma failover_step_None:
  "failover_step now es (pfe_current_endpoint e) e = None \<longleftrightarrow> candidates es e = {}"
  using next_candidate_None [of "pfe_current_endpoint e" "insert (pfe_current_endpoint e) (pfe_failed_endpoints e)" es]
  by (auto simp: failover_step_def try_move_next_endpoint_def candidates_def Let_def split: option.splits)

lemma failover_step_Some:
  assumes "failover_step now es (pfe_current_endpoint e) e = Some e'"
  shows "\<exists>c \<in> candidates es e. candidates es e' = candidates es e - {c} \<and> pfe_current_endpoint e' = c"
proof -
  have "try_move_next_endpoint (e\<lparr>pfe_last_failure_time := now\<rparr>) es (pfe_current_endpoint e) = (e', True)"
    using assms by (auto simp: failover_step_def split: prod.splits bool.splits)
  from try_move_True [OF this] show ?thesis
    by (auto simp: candidates_def)
qed

lemma rotate_failures_iff:
  "rotate_failures es ts e \<noteq> None \<longleftrightarrow> length ts \<le> card (candidates es e)"
proof (induction ts arbitrary: e)
  case (Cons now ts)
  have fin: "finite (candidates es x)" for x by (simp add: candidates_def)
  show ?case
  proof (cases "failover_step now es (pfe_current_endpoint e) e")
    case None
    then have "candidates es e = {}" by (simp add: failover_step_None)
    with None show ?thesis by simp
  next
    case (Some e')
    from failover_step_Some [OF this] have "Suc (card (candidates es e')) = card (candidates es e)"
      using fin by (metis card_Suc_Diff1)
    with Cons Some show ?thesis by auto
  qed
qed simp

section \<open>Runs of the circuit breaker\<close>

text \<open>A sequence of failures of one kind at one endpoint, each within the reset window of the one
  before.\<close>

fun breaker_run ::
  "partition_failover_options \<Rightarrow> pk_range_id \<Rightarrow> bool \<Rightarrow> cosmos_endpoint list \<Rightarrow> cosmos_endpoint \<Rightarrow>
   surroundings list \<Rightarrow> partition_failover_entry \<Rightarrow> partition_failover_entry option" where
  "breaker_run config k is_read endpoints f [] entry = Some entry"
| "breaker_run config k is_read endpoints f (sur # surs) entry =
     Option.bind (breaker_step sur config k is_read endpoints f entry) (breaker_run config k is_read endpoints f surs)"

fun within_window :: "duration \<Rightarrow> instant \<Rightarrow> surroundings list \<Rightarrow> bool" where
  "within_window window prev [] = True"
| "within_window window prev (sur # surs) \<longleftrightarrow>
     saturating_duration_since (sur_now sur) prev \<le> window \<and> within_window window (sur_now sur) surs"

definition threshold :: "partition_failover_options \<Rightarrow> bool \<Rightarrow> u32" where
  "threshold config is_read =
     (if is_read then pfo_read_failure_threshold config else pfo_write_failure_threshold config)"

definition failure_count :: "bool \<Rightarrow> partition_failover_entry \<Rightarrow> u32" where
  "failure_count is_read entry =
     (if is_read then pfe_read_failure_count entry else pfe_write_failure_count entry)"

lemma triggers_iff:
  "can_circuit_breaker_trigger_failover e r config \<longleftrightarrow> sint (threshold config r) \<le> sint (failure_count r e)"
  by (simp add: can_circuit_breaker_trigger_failover_def threshold_def failure_count_def)

lemma count_failure_count:
  "saturating_duration_since now (pfe_last_failure_time e) \<le> pfo_counter_reset_window config \<Longrightarrow>
   failure_count r (count_failure now config r e) = failure_count r e + 1"
  by (auto simp: failure_count_def count_failure_def Let_def)

text \<open>An entry with a given number of counted failures at its endpoint.\<close>

definition counting :: "bool \<Rightarrow> cosmos_endpoint \<Rightarrow> nat \<Rightarrow> instant \<Rightarrow> partition_failover_entry \<Rightarrow> bool" where
  "counting r f n prev e \<longleftrightarrow>
     failure_count r e = of_nat n \<and> pfe_current_endpoint e = f \<and> pfe_failed_endpoints e = {} \<and>
     pfe_health_status e = Unhealthy \<and> pfe_last_failure_time e = prev"

lemma sint_small: "n < 2 ^ 31 \<Longrightarrow> sint (of_nat n :: u32) = int n"
  by (simp add: signed_of_nat signed_take_bit_int_eq_self)

lemma counting_step:
  assumes "counting r f n prev e" "saturating_duration_since (sur_now sur) prev \<le> pfo_counter_reset_window config"
    and "Suc n < unat (threshold config r)" "unat (threshold config r) < 2 ^ 31"
  shows "\<exists>e'. breaker_step sur config k r es f e = Some e' \<and> counting r f (Suc n) (sur_now sur) e'"
proof -
  let ?e = "count_failure (sur_now sur) config r e"
  have c: "counting r f (Suc n) (sur_now sur) ?e"
    using assms(1,2) count_failure_count [of "sur_now sur" e config r]
    by (simp add: counting_def)
  have "sint (threshold config r) = int (unat (threshold config r))"
    using sint_small [OF assms(4)] by simp
  then have "\<not> can_circuit_breaker_trigger_failover ?e r config"
    using c assms(3,4) sint_small [of "Suc n"] unfolding triggers_iff counting_def
    by (metis less_trans not_le of_nat_less_iff)
  then show ?thesis using c assms(1) by (simp add: breaker_step_def counting_def Let_def)
qed

lemma counting_run:
  assumes "counting r f n prev e" "within_window (pfo_counter_reset_window config) prev surs"
    and "n + length surs < unat (threshold config r)" "unat (threshold config r) < 2 ^ 31"
  shows "\<exists>e' prev'. breaker_run config k r es f surs e = Some e' \<and> counting r f (n + length surs) prev' e' \<and>
    (\<forall>sur. within_window (pfo_counter_reset_window config) prev (surs @ [sur]) \<longrightarrow>
       saturating_duration_since (sur_now sur) prev' \<le> pfo_counter_reset_window config)"
  using assms
proof (induction surs arbitrary: n prev e)
  case Nil
  then show ?case by auto
next
  case (Cons sur surs)
  then obtain e1 where e1: "breaker_step sur config k r es f e = Some e1" "counting r f (Suc n) (sur_now sur) e1"
    using counting_step [of r f n prev e sur config k es] by auto
  from Cons.IH [OF e1(2)] Cons.prems e1(1) show ?case by simp
qed

lemma breaker_run_snoc:
  "breaker_run config k r es f (surs @ [sur]) e =
   Option.bind (breaker_run config k r es f surs e) (breaker_step sur config k r es f)"
  by (induction surs arbitrary: e) (auto split: bind_splits)

lemma within_window_butlast: "within_window w prev (surs @ [sur]) \<Longrightarrow> within_window w prev surs"
  by (induction surs arbitrary: prev) auto

lemma tripping_step:
  assumes "counting r f n prev e" "saturating_duration_since (sur_now sur) prev \<le> pfo_counter_reset_window config"
    and "Suc n = unat (threshold config r)" "unat (threshold config r) < 2 ^ 31"
  shows "map_option pfe_current_endpoint (breaker_step sur config k r es f e) = find (\<lambda>x. x \<noteq> f) es"
proof -
  let ?e = "count_failure (sur_now sur) config r e"
  have c: "failure_count r ?e = of_nat (Suc n)" "pfe_current_endpoint e = f" "pfe_failed_endpoints e = {}"
    "pfe_health_status e \<noteq> ProbeCandidate"
    using assms(1,2) count_failure_count [of "sur_now sur" e config r] by (simp_all add: counting_def)
  have "threshold config r = of_nat (Suc n)" using assms(3) by simp
  then have "can_circuit_breaker_trigger_failover ?e r config" using c unfolding triggers_iff by simp
  moreover have "find (\<lambda>x. x \<noteq> f \<and> x \<notin> {f}) es = find (\<lambda>x. x \<noteq> f) es" by simp
  ultimately show ?thesis
    using c by (simp add: breaker_step_def Let_def try_move_next_endpoint_def next_candidate_first
        split: option.split)
qed

section \<open>Hedge wins\<close>

lemma saturating_add_1:
  assumes "c \<noteq> (- 1 :: u32)"
  shows "saturating_add_word c 1 = c + 1"
proof -
  have "unat c \<noteq> 2 ^ 32 - 1"
    using assms word_unat_eq_iff [of c "- 1"] by (simp add: unsigned_minus_1_eq_mask mask_eq_exp_minus_1)
  moreover have "unat c < 2 ^ 32" using unsigned_less [of c] by simp
  ultimately show ?thesis by (simp add: saturating_add_word_def)
qed

lemma endpoint_of_region_Some:
  "endpoint_of_region account r = Some e \<Longrightarrow> ep_region e = Some r"
  by (auto simp: endpoint_of_region_def find_Some_iff)

section \<open>Properties\<close>

text \<open>A failing write partition visits each alternative once: a partition whose writes fail again
  and again, each time at the endpoint it was just moved to, keeps an override for exactly as many
  failures as there are other preferred endpoints not yet tried; the next failure removes the
  override and restores default routing.\<close>

theorem failover_rotation_bounded:
  "(rotate_failures endpoints ts entry \<noteq> None) =
   (length ts \<le> card (set endpoints - insert (pfe_current_endpoint entry) (pfe_failed_endpoints entry)))"
  using rotate_failures_iff [of endpoints ts entry] by (simp add: candidates_def)

text \<open>The circuit breaker trips at its threshold and not before: from a fresh entry, failures of one
  kind that follow each other within the reset window leave the partition at its endpoint as long as
  there are fewer than the threshold; the failure that reaches the threshold moves the partition to
  the first other preferred endpoint, or removes the override when there is none.\<close>

theorem breaker_trips_at_threshold:
  assumes "within_window (pfo_counter_reset_window config) start surs"
    and "0 < threshold config is_read" and "unat (threshold config is_read) < 2 ^ 31"
  shows "(length surs < unat (threshold config is_read) \<longrightarrow>
      map_option pfe_current_endpoint
        (breaker_run config k is_read endpoints f surs (fresh_entry f start jitter)) = Some f) \<and>
    (length surs = unat (threshold config is_read) \<longrightarrow>
      map_option pfe_current_endpoint
        (breaker_run config k is_read endpoints f surs (fresh_entry f start jitter)) =
      find (\<lambda>e. e \<noteq> f) endpoints)"
proof (intro conjI impI)
  have c0: "counting is_read f 0 start (fresh_entry f start jitter)"
    by (simp add: counting_def failure_count_def fresh_entry_def)
  show "map_option pfe_current_endpoint
      (breaker_run config k is_read endpoints f surs (fresh_entry f start jitter)) = Some f"
    if "length surs < unat (threshold config is_read)"
    using counting_run [OF c0 assms(1) _ assms(3), of k endpoints] that by (auto simp: counting_def)
  show "map_option pfe_current_endpoint
      (breaker_run config k is_read endpoints f surs (fresh_entry f start jitter)) = find (\<lambda>e. e \<noteq> f) endpoints"
    if len: "length surs = unat (threshold config is_read)"
  proof -
    have "surs \<noteq> []" using len assms(2) by (auto simp: word_gt_0 unat_eq_zero)
    then obtain before sur where surs: "surs = before @ [sur]" by (metis rev_exhaust)
    note w = within_window_butlast [OF assms(1) [unfolded surs]]
    obtain e' prev' where run: "breaker_run config k is_read endpoints f before (fresh_entry f start jitter) = Some e'"
      "counting is_read f (length before) prev' e'"
      "saturating_duration_since (sur_now sur) prev' \<le> pfo_counter_reset_window config"
      using counting_run [OF c0 w _ assms(3), of k endpoints] len surs assms(1) by auto
    with tripping_step [OF run(2,3) _ assms(3), of k endpoints] len surs
    show ?thesis by (simp add: breaker_run_snoc)
  qed
qed

theorem breaker_trips_at_threshold_witness:
  "let config = partition_failover_default;
       sur = (\<lambda>t. \<lparr>sur_now = t, sur_epoch_nanos = 0, sur_hash = (\<lambda>_. 0)\<rparr>);
       east = endpoint_regional ''eastus'' ''e''; west = endpoint_regional ''westus'' ''w''
   in map_option pfe_current_endpoint
        (breaker_run config ''0'' False [east, west] east (map sur [1, 2, 3, 4]) (fresh_entry east 0 0)) = Some east \<and>
      map_option pfe_current_endpoint
        (breaker_run config ''0'' False [east, west] east (map sur [1, 2, 3, 4, 5]) (fresh_entry east 0 0)) = Some west"
proof -
  let ?sur = "\<lambda>t. \<lparr>sur_now = t, sur_epoch_nanos = 0, sur_hash = (\<lambda>_. 0)\<rparr>"
  have "within_window (pfo_counter_reset_window partition_failover_default) 0 (map ?sur [1, 2, 3, 4])"
    "within_window (pfo_counter_reset_window partition_failover_default) 0 (map ?sur [1, 2, 3, 4, 5])"
    by (simp_all add: partition_failover_default_def from_millis_def saturating_duration_since_def)
  moreover have "0 < threshold partition_failover_default False" "unat (threshold partition_failover_default False) = 5"
    by (simp_all add: threshold_def partition_failover_default_def)
  ultimately show ?thesis
    unfolding Let_def
    using breaker_trips_at_threshold [of partition_failover_default 0 "map ?sur [1, 2, 3, 4]" False]
      breaker_trips_at_threshold [of partition_failover_default 0 "map ?sur [1, 2, 3, 4, 5]" False]
    by (simp add: endpoint_regional_def)
qed

text \<open>A threshold of \<^verbatim>\<open>2^31\<close> or more trips the breaker at the first failure: the cast to a signed
  counter makes it negative, so the first counted failure already reaches it, although the options
  accept every such threshold.\<close>

theorem huge_threshold_trips_at_once:
  assumes "2 ^ 31 \<le> unat (threshold config is_read)"
  shows "can_circuit_breaker_trigger_failover
    (count_failure now config is_read (fresh_entry f start jitter)) is_read config"
proof -
  have "sint (threshold config is_read) < 0"
  proof (rule ccontr)
    let ?s = "sint (threshold config is_read)"
    assume "\<not> ?s < 0"
    moreover have "?s < 2 ^ 31" using sint_lt [of "threshold config is_read"] by simp
    ultimately have "take_bit LENGTH(32) ?s = ?s" by (intro take_bit_int_eq_self) simp_all
    then have "uint (threshold config is_read) = ?s" by (rule trans [OF uint_sint])
    with \<open>?s < 2 ^ 31\<close> have "uint (threshold config is_read) < 2 ^ 31" by simp
    moreover have "2 ^ 31 \<le> int (unat (threshold config is_read))"
      using assms of_nat_le_iff [where 'a = int, THEN iffD2, OF assms] by simp
    ultimately show False by simp
  qed
  moreover have "failure_count is_read (count_failure now config is_read (fresh_entry f start jitter)) = 1"
    by (simp add: failure_count_def count_failure_def fresh_entry_def Let_def)
  ultimately show ?thesis unfolding triggers_iff by simp
qed

theorem huge_threshold_trips_at_once_witness:
  "can_circuit_breaker_trigger_failover
     (count_failure 1 (partition_failover_default\<lparr>pfo_read_failure_threshold := 0x80000000\<rparr>) True
        (fresh_entry (endpoint_global ''g'') 0 0)) True
     (partition_failover_default\<lparr>pfo_read_failure_threshold := 0x80000000\<rparr>)"
  by (rule huge_threshold_trips_at_once) (simp add: threshold_def)

text \<open>Tripped partitions are probed in time: in every state reachable from a new one, the failback
  sweep turns a circuit-breaker override into a probe candidate once one and a half times the
  unavailability duration has passed since its first failure, never before the full duration has
  passed, and leaves all failover overrides alone.\<close>

theorem breaker_probed_in_time:
  assumes "partition_init s0" and "partition_step\<^sup>*\<^sup>* s0 s"
    and "hm_get (pes_circuit_breaker_overrides s) k = Some e"
    and "d = pfo_partition_unavailability_duration (pes_config s)"
  shows "\<exists>e'. hm_get (pes_circuit_breaker_overrides (expire_partition_overrides s now d)) k = Some e' \<and>
    (pfe_first_failure_time e + d + d div 2 \<le> now \<longrightarrow> pfe_health_status e' = ProbeCandidate) \<and>
    (0 < d \<and> now < pfe_first_failure_time e + d \<longrightarrow> e' = e) \<and>
    pes_failover_overrides (expire_partition_overrides s now d) = pes_failover_overrides s"
proof -
  have "2 * pfe_failback_jitter e \<le> d"
    using partitions.reachable_inv [OF assms(2,1)] assms(3,4)
    by (auto simp: partition_wf_def breaker_entry_ok_def)
  then have j: "pfe_failback_jitter e \<le> d div 2" by simp
  have "pfe_health_status (expire_entry now d e) = ProbeCandidate"
    if "pfe_first_failure_time e + d + d div 2 \<le> now"
    using that j by (cases "pfe_health_status e") (auto simp: expire_entry_def saturating_duration_since_def)
  moreover have "expire_entry now d e = e" if "0 < d" "now < pfe_first_failure_time e + d"
    using that by (auto simp: expire_entry_def saturating_duration_since_def)
  ultimately show ?thesis
    using assms(3) by (auto simp: expire_partition_overrides_def hm_simps)
qed

theorem breaker_probed_in_time_witness:
  "let config = partition_failover_default;
       east = endpoint_regional ''eastus'' ''e''; west = endpoint_regional ''westus'' ''w'';
       account = (account_state_single east)\<lparr>aes_preferred_read_endpoints := [east, west]\<rparr>;
       sur = \<lparr>sur_now = 7, sur_epoch_nanos = 0, sur_hash = (\<lambda>_. 0)\<rparr>;
       s = mark_partition_unavailable sur (partition_state_new config) account
             \<lparr>up_partition_key_range_id = Some ''0'', up_region = Some ''eastus'', up_is_read = True,
              up_is_partitioned_resource = True\<rparr> True
   in \<exists>e'. hm_get (pes_circuit_breaker_overrides (expire_partition_overrides s 7500000007
              (pfo_partition_unavailability_duration (pes_config s)))) ''0'' = Some e' \<and>
        pfe_health_status e' = ProbeCandidate"
proof -
  let ?config = partition_failover_default
  let ?east = "endpoint_regional ''eastus'' ''e''"
  let ?account = "(account_state_single ?east)\<lparr>aes_preferred_read_endpoints := [?east, endpoint_regional ''westus'' ''w'']\<rparr>"
  let ?sur = "\<lparr>sur_now = 7, sur_epoch_nanos = 0, sur_hash = (\<lambda>_. 0)\<rparr>"
  let ?u = "\<lparr>up_partition_key_range_id = Some ''0'', up_region = Some ''eastus'', up_is_read = True,
    up_is_partitioned_resource = True\<rparr>"
  let ?s = "mark_partition_unavailable ?sur (partition_state_new ?config) ?account ?u True"
  have init: "partition_init (partition_state_new ?config)" by (auto simp: partition_init_def)
  have run: "partition_step\<^sup>*\<^sup>* (partition_state_new ?config) ?s"
    by (rule r_into_rtranclp) (rule partition_step.mark)
  have cfg: "pes_config ?s = ?config"
    using partition_step_config [OF partition_step.mark] by (simp add: partition_state_new_def)
  have el: "is_eligible_for_ppcb (partition_state_new ?config) ?account True True"
    by (simp add: is_eligible_for_ppcb_def partition_state_new_def partition_failover_default_def unwrap_or_def)
  have reg: "endpoint_of_region ?account ''eastus'' = Some ?east"
    by (simp add: endpoint_of_region_def endpoint_regional_def)
  obtain e where e: "hm_get (pes_circuit_breaker_overrides ?s) ''0'' = Some e" "pfe_first_failure_time e = 7"
    using el reg
    by (simp add: mark_partition_unavailable_def hm_simps breaker_step_def can_circuit_breaker_trigger_failover_def
        count_failure_def partition_state_new_def fresh_entry_def Let_def partition_failover_default_def)
  from breaker_probed_in_time [OF init run e(1) refl, of 7500000007] e(2) cfg
  show ?thesis by (auto simp: Let_def partition_failover_default_def from_millis_def)
qed

text \<open>The two mechanisms never mix: no request is eligible for both; marking a partition
  unavailable changes at most the entry of that partition, in the failover map only for an eligible
  write and in the circuit-breaker map only for an eligible request, and nothing else of the state.\<close>

theorem mechanisms_exclusive:
  "let s' = mark_partition_unavailable sur s account u partitioned in
   \<not> (is_eligible_for_ppaf s account (up_is_read u) partitioned \<and>
      is_eligible_for_ppcb s account (up_is_read u) partitioned) \<and>
   (is_eligible_for_ppaf s account (up_is_read u) partitioned \<or>
      pes_failover_overrides s' = pes_failover_overrides s) \<and>
   (is_eligible_for_ppcb s account (up_is_read u) partitioned \<or>
      pes_circuit_breaker_overrides s' = pes_circuit_breaker_overrides s) \<and>
   (Some k = up_partition_key_range_id u \<or>
      hm_get (pes_failover_overrides s') k = hm_get (pes_failover_overrides s) k \<and>
      hm_get (pes_circuit_breaker_overrides s') k = hm_get (pes_circuit_breaker_overrides s) k) \<and>
   s' = s\<lparr>pes_failover_overrides := pes_failover_overrides s',
         pes_circuit_breaker_overrides := pes_circuit_breaker_overrides s'\<rparr>"
proof -
  have "\<not> (is_eligible_for_ppaf s account (up_is_read u) partitioned \<and>
      is_eligible_for_ppcb s account (up_is_read u) partitioned)"
    by (auto simp: is_eligible_for_ppaf_def is_eligible_for_ppcb_def)
  then show ?thesis
    by (cases "up_partition_key_range_id u")
      (auto simp: mark_partition_unavailable_def Let_def hm_simps split: option.split)
qed

text \<open>A hedge-driven trip takes effect: an alternate win below the threshold only counts; the win
  that reaches it, for a partition without an unhealthy override whose primary region is a known
  endpoint with an alternative, installs an override that routes reads and writes to another
  preferred read endpoint, that routing accepts at once, and clears the counter.\<close>

theorem hedge_trip_takes_effect:
  assumes "partition_wf s"
    and "hm_get (pes_consecutive_hedge_wins s) (k, Some r) = Some c" and "c \<noteq> - 1"
    and "case hm_get (pes_circuit_breaker_overrides s) k of None \<Rightarrow> True | Some e \<Rightarrow> pfe_health_status e = ProbeCandidate"
    and "endpoint_of_region account r = Some p" and "\<exists>e \<in> set (aes_preferred_read_endpoints account). e \<noteq> p"
  shows "let s' = record_hedge_alternate_win sur s account k (Some r) in
    if c + 1 < pfo_consecutive_hedge_win_threshold (pes_config s)
    then s' = s\<lparr>pes_consecutive_hedge_wins := hm_insert (k, Some r) (c + 1) (pes_consecutive_hedge_wins s)\<rparr>
    else hm_get (pes_consecutive_hedge_wins s') (k, Some r) = None \<and>
      (\<exists>e. hm_get (pes_circuit_breaker_overrides s') k = Some e \<and>
        pfe_current_endpoint e \<in> set (aes_preferred_read_endpoints account) \<and>
        ep_region p = Some r \<and> pfe_current_endpoint e \<noteq> p \<and> pfe_health_status e = Unhealthy \<and>
        can_circuit_breaker_trigger_failover e True (pes_config s) \<and>
        can_circuit_breaker_trigger_failover e False (pes_config s))"
proof -
  let ?t = "hedge_trip_entry sur (pes_config s) k p"
  have sat: "saturating_add_word c 1 = c + 1"
    by (rule saturating_add_1 [OF assms(3)])
  have cur: "pfe_current_endpoint ?t = p" "pfe_failed_endpoints ?t = {}"
    by (simp_all add: hedge_trip_entry_def fresh_entry_def)
  obtain q where q: "next_candidate p {p} (aes_preferred_read_endpoints account) = Some q"
    using assms(6) next_candidate_None [of p "{p}"] by (cases "next_candidate p {p} (aes_preferred_read_endpoints account)") auto
  then have move: "try_move_next_endpoint ?t (aes_preferred_read_endpoints account) p =
      (?t\<lparr>pfe_failed_endpoints := {p}, pfe_current_endpoint := q\<rparr>, True)"
    using cur by (simp add: try_move_next_endpoint_def Let_def)
  have trig: "can_circuit_breaker_trigger_failover (?t\<lparr>pfe_failed_endpoints := {p}, pfe_current_endpoint := q\<rparr>) b (pes_config s)" for b
    by (simp add: can_circuit_breaker_trigger_failover_def hedge_trip_entry_def)
  show ?thesis
    using assms(2,4,5) sat move trig next_candidate_Some [OF q] endpoint_of_region_Some [OF assms(5)]
    by (auto simp: record_hedge_alternate_win_def Let_def hm_simps not_less hedge_trip_entry_def fresh_entry_def
        split: option.splits)
qed

theorem hedge_trip_takes_effect_witness:
  "let config = partition_failover_default;
       east = endpoint_regional ''eastus'' ''e''; west = endpoint_regional ''westus'' ''w'';
       account = (account_state_single east)\<lparr>aes_preferred_read_endpoints := [east, west]\<rparr>;
       sur = \<lparr>sur_now = 7, sur_epoch_nanos = 0, sur_hash = (\<lambda>_. 0)\<rparr>;
       s = (partition_state_new config)\<lparr>pes_consecutive_hedge_wins := [((''0'', Some ''eastus''), 4)]\<rparr>
   in \<exists>e. hm_get (pes_circuit_breaker_overrides (record_hedge_alternate_win sur s account ''0'' (Some ''eastus''))) ''0'' = Some e \<and>
        pfe_current_endpoint e \<noteq> east"
proof -
  let ?east = "endpoint_regional ''eastus'' ''e''"
  let ?account = "(account_state_single ?east)\<lparr>aes_preferred_read_endpoints := [?east, endpoint_regional ''westus'' ''w'']\<rparr>"
  let ?sur = "\<lparr>sur_now = 7, sur_epoch_nanos = 0, sur_hash = (\<lambda>_. 0)\<rparr>"
  let ?s = "(partition_state_new partition_failover_default)\<lparr>pes_consecutive_hedge_wins := [((''0'', Some ''eastus''), 4)]\<rparr>"
  have "partition_wf ?s"
    using partition_new_wf [of partition_failover_default] by (simp add: partition_wf_def hm_wf_def)
  moreover have "endpoint_of_region ?account ''eastus'' = Some ?east"
    by (simp add: endpoint_of_region_def endpoint_regional_def)
  moreover have "\<exists>e \<in> set (aes_preferred_read_endpoints ?account). e \<noteq> ?east" by (simp add: endpoint_regional_def)
  ultimately show ?thesis
    using hedge_trip_takes_effect [of ?s "''0''" "''eastus''" 4 ?account ?east ?sur]
    by (auto simp: Let_def partition_state_new_def partition_failover_default_def)
qed

end
