(* ===== verification/Location_Store.thy ===== *)
theory Location_Store
  imports Partition_Failover
begin

text \<open>
  The location state store of \<^verbatim>\<open>driver/routing/location_state_store.rs\<close>: the account and partition
  states with everything that updates them. An update is one compare-and-swap on one of the two
  states; here the operations run one after the other, and \<open>Location_Snapshot\<close> treats the
  interleaving of the compare-and-swap loops with the snapshot cache.

  What the store learns from outside is an argument: the clocks, the answer of the account refresh
  callback and metadata cache, and the outcome of the connectivity and endpoint probes. A shared
  \<^verbatim>\<open>Arc\<close> is a pair of an address and a value. Logging and task management are left out.
\<close>

section \<open>State\<close>

type_synonym 'a arc = "nat \<times> 'a"

record location_store =
  ls_account :: account_endpoint_state
  ls_partitions :: partition_endpoint_state
  ls_default_endpoint :: cosmos_endpoint
  ls_preferred_regions :: "region list"
  ls_gateway_v2_enabled :: bool
  ls_has_connectivity_probe :: bool
  ls_gateway_v2_runtime_blocked :: bool
  ls_probe_succeeded_regions :: "region set"
  ls_endpoint_unavailability_ttl :: duration
  ls_refresh_interval :: duration
  ls_last_refresh_epoch_ms :: u64
  ls_last_synced_etag :: string
  ls_last_synced_properties :: "account_properties arc option"
  ls_account_version :: u64

definition location_store_new ::
  "cosmos_endpoint \<Rightarrow> bool \<Rightarrow> duration \<Rightarrow> partition_failover_options \<Rightarrow> region list \<Rightarrow> bool \<Rightarrow> location_store" where
  "location_store_new default_endpoint gateway_v2_enabled ttl options preferred_regions has_probe =
     \<lparr>ls_account = account_state_single default_endpoint,
      ls_partitions = partition_state_new options,
      ls_default_endpoint = default_endpoint,
      ls_preferred_regions = preferred_regions,
      ls_gateway_v2_enabled = gateway_v2_enabled,
      ls_has_connectivity_probe = has_probe,
      ls_gateway_v2_runtime_blocked = False,
      ls_probe_succeeded_regions = {},
      ls_endpoint_unavailability_ttl = ttl,
      ls_refresh_interval = from_secs 5,
      ls_last_refresh_epoch_ms = 0,
      ls_last_synced_etag = [],
      ls_last_synced_properties = None,
      ls_account_version = 0\<rparr>"

text \<open>A compare-and-swap that succeeds installs the new state and bumps the version.\<close>

definition apply_account ::
  "(account_endpoint_state \<Rightarrow> account_endpoint_state) \<Rightarrow> location_store \<Rightarrow> location_store" where
  "apply_account f self =
     self\<lparr>ls_account := f (ls_account self), ls_account_version := ls_account_version self + 1\<rparr>"

definition apply_partition ::
  "(partition_endpoint_state \<Rightarrow> partition_endpoint_state) \<Rightarrow> location_store \<Rightarrow> location_store" where
  "apply_partition f self =
     self\<lparr>ls_partitions := f (ls_partitions self), ls_account_version := ls_account_version self + 1\<rparr>"

definition effective_gateway_v2_enabled :: "location_store \<Rightarrow> bool" where
  "effective_gateway_v2_enabled self \<longleftrightarrow> ls_gateway_v2_enabled self \<and> \<not> ls_gateway_v2_runtime_blocked self"

section \<open>Synchronising with account properties\<close>

text \<open>The partition update of \<^verbatim>\<open>sync_account_properties\<close>.\<close>

definition sync_partition_flags :: "bool \<Rightarrow> partition_endpoint_state \<Rightarrow> partition_endpoint_state" where
  "sync_partition_flags ppaf_enabled previous =
     (let ppcb_enabled =
            unwrap_or (pfo_circuit_breaker_enabled_override (pes_config previous))
              (ppaf_enabled \<or> pfo_circuit_breaker_enabled (pes_config previous))
      in previous
         \<lparr>pes_ppaf_enabled := ppaf_enabled, pes_ppcb_enabled := ppcb_enabled,
          pes_failover_overrides :=
            (if pes_ppaf_enabled previous \<noteq> ppaf_enabled then [] else pes_failover_overrides previous),
          pes_circuit_breaker_overrides :=
            (if pes_ppcb_enabled previous \<noteq> ppcb_enabled then [] else pes_circuit_breaker_overrides previous)\<rparr>)"

definition sync_account_properties ::
  "(url \<Rightarrow> string) \<Rightarrow> account_properties arc \<Rightarrow> cosmos_endpoint \<Rightarrow> location_store \<Rightarrow> location_store" where
  "sync_account_properties scheme properties default_endpoint self =
     (let props = snd properties in
      if map_option fst (ls_last_synced_properties self) = Some (fst properties) then self
      else if ap_etag props \<noteq> [] \<and> ls_last_synced_etag self = ap_etag props then
        self\<lparr>ls_last_synced_properties := Some properties\<rparr>
      else
        let self = apply_account
              (\<lambda>current.
                 (build_account_endpoint_state scheme props default_endpoint (Some (aes_generation current))
                    (effective_gateway_v2_enabled self) (ls_preferred_regions self))
                 \<lparr>aes_unavailable_endpoints := aes_unavailable_endpoints current\<rparr>) self;
            self = (if ap_etag props \<noteq> [] then self\<lparr>ls_last_synced_etag := ap_etag props\<rparr> else self);
            self = self\<lparr>ls_last_synced_properties := Some properties\<rparr>
        in apply_partition (sync_partition_flags (ap_enable_per_partition_failover_behavior props)) self)"

section \<open>Gateway 2.0 connectivity probe\<close>

datatype probe_role = ProbeWrite | ProbeRead

text \<open>The outcome of a probe is the set of regions that failed, empty when all are healthy.\<close>

type_synonym connectivity_probe = "(region \<times> probe_role \<times> url) list \<Rightarrow> region set"

definition probe_targets :: "account_properties \<Rightarrow> (region \<times> probe_role \<times> url) list" where
  "probe_targets properties =
     map (\<lambda>loc. (ar_name loc, ProbeWrite, ar_database_account_endpoint loc)) (ap_thin_client_writable_locations properties) @
     map (\<lambda>loc. (ar_name loc, ProbeRead, ar_database_account_endpoint loc)) (ap_thin_client_readable_locations properties)"

definition set_runtime_blocked :: "bool \<Rightarrow> location_store \<Rightarrow> location_store" where
  "set_runtime_blocked now_blocked self =
     (let was_blocked = ls_gateway_v2_runtime_blocked self;
          self = self\<lparr>ls_gateway_v2_runtime_blocked := now_blocked\<rparr>
      in if was_blocked \<noteq> now_blocked then self\<lparr>ls_last_synced_etag := []\<rparr> else self)"

definition run_connectivity_probe ::
  "connectivity_probe \<Rightarrow> account_properties \<Rightarrow> location_store \<Rightarrow> location_store" where
  "run_connectivity_probe probe properties self =
     (if \<not> ls_has_connectivity_probe self then self
      else if \<not> ls_gateway_v2_enabled self then self
      else
        let endpoints = probe_targets properties in
        if endpoints = [] then set_runtime_blocked False self
        else
          let known_regions = fst ` set endpoints;
              delta = filter (\<lambda>(region, _, _). region \<notin> ls_probe_succeeded_regions self) endpoints;
              self = (if delta = [] then self
                      else self\<lparr>ls_probe_succeeded_regions :=
                        ls_probe_succeeded_regions self \<union> (fst ` set delta - probe delta)\<rparr>)
          in set_runtime_blocked (\<not> known_regions \<subseteq> ls_probe_succeeded_regions self) self)"

definition sync_account_properties_with_probe ::
  "connectivity_probe \<Rightarrow> (url \<Rightarrow> string) \<Rightarrow> account_properties arc \<Rightarrow> cosmos_endpoint \<Rightarrow> location_store \<Rightarrow> location_store" where
  "sync_account_properties_with_probe probe scheme properties default_endpoint self =
     sync_account_properties scheme properties default_endpoint
       (run_connectivity_probe probe (snd properties) self)"

section \<open>Refreshing\<close>

text \<open>What a refresh learns: the wall clock before and after, whether the fetch succeeded, the value
  the metadata cache holds afterwards, and the probe outcome.\<close>

record refresh_env =
  re_now_ms :: u64
  re_done_ms :: u64
  re_fetched :: bool
  re_cached :: "account_properties arc option"
  re_probe :: connectivity_probe
  re_scheme :: "url \<Rightarrow> string"

definition refresh_account_properties_inner :: "refresh_env \<Rightarrow> location_store \<Rightarrow> location_store" where
  "refresh_account_properties_inner env self =
     (if \<not> re_fetched env then self
      else case re_cached env of
        None \<Rightarrow> self
      | Some properties \<Rightarrow>
          let self = self\<lparr>ls_last_refresh_epoch_ms := re_done_ms env\<rparr>;
              self = run_connectivity_probe (re_probe env) (snd properties) self
          in sync_account_properties (re_scheme env) properties (ls_default_endpoint self) self)"

definition saturating_sub_word :: "'a::len word \<Rightarrow> 'a word \<Rightarrow> 'a word" where
  "saturating_sub_word a b = (if b \<le> a then a - b else 0)"

definition refresh_account_properties_if_due :: "refresh_env \<Rightarrow> location_store \<Rightarrow> location_store" where
  "refresh_account_properties_if_due env self =
     (let now_ms = re_now_ms env;
          refresh_after_ms = (of_nat (ls_refresh_interval self div 1000000) :: u64)
      in if saturating_sub_word now_ms (ls_last_refresh_epoch_ms self) < refresh_after_ms then self
         else refresh_account_properties_inner env (self\<lparr>ls_last_refresh_epoch_ms := now_ms\<rparr>))"

definition force_refresh_account_properties :: "refresh_env \<Rightarrow> location_store \<Rightarrow> location_store" where
  "force_refresh_account_properties env self = refresh_account_properties_inner env self"

section \<open>Applying effects\<close>

record apply_env =
  env_sur :: surroundings
  env_refresh :: refresh_env

fun apply_effect :: "apply_env \<Rightarrow> location_effect \<Rightarrow> location_store \<Rightarrow> location_store" where
  "apply_effect env (MarkEndpointUnavailable endpoint reason) self =
     apply_account (\<lambda>current. mark_endpoint_unavailable (sur_now (env_sur env)) current endpoint reason) self"
| "apply_effect env (MarkPartitionUnavailable unavail) self =
     (if up_partition_key_range_id unavail = None then self
      else apply_partition
        (\<lambda>current. mark_partition_unavailable (env_sur env) current (ls_account self) unavail
           (up_is_partitioned_resource unavail)) self)"
| "apply_effect env RefreshAccountProperties self =
     refresh_account_properties_if_due (env_refresh env) self"
| "apply_effect env (CacheHubRegion pk_range_id hub_endpoint) self =
     apply_partition (\<lambda>current. cache_hub_region (sur_now (env_sur env)) current pk_range_id hub_endpoint) self"
| "apply_effect env (AdvanceHubRegionDiscovery pk_range_id failed_endpoint) self =
     apply_partition
       (\<lambda>current. advance_hub_region_discovery (sur_now (env_sur env)) current (ls_account self) pk_range_id
          failed_endpoint) self"

fun apply_effects :: "(apply_env \<times> location_effect) list \<Rightarrow> location_store \<Rightarrow> location_store" where
  "apply_effects [] self = self"
| "apply_effects ((env, effect) # effects) self = apply_effects effects (apply_effect env effect self)"

section \<open>Background loops\<close>

text \<open>One round of \<^verbatim>\<open>failback_loop\<close>.\<close>

definition failback_tick :: "instant \<Rightarrow> partition_failover_options \<Rightarrow> location_store \<Rightarrow> location_store" where
  "failback_tick now config self =
     apply_partition
       (\<lambda>current. expire_partition_overrides current now (pfo_partition_unavailability_duration config)) self"

text \<open>The endpoints due for a probe, with the marks observed, and the update after one probe
  returned: a reachable endpoint loses its mark only if it is still the observed one.\<close>

definition due_endpoints :: "instant \<Rightarrow> location_store \<Rightarrow> (url \<times> instant) list" where
  "due_endpoints now self =
     map (\<lambda>(u, (marked_at, _)). (u, marked_at))
       (filter (\<lambda>(_, (marked_at, _)). saturating_duration_since now marked_at \<ge> ls_endpoint_unavailability_ttl self)
          (aes_unavailable_endpoints (ls_account self)))"

definition failback_endpoint :: "url \<Rightarrow> instant \<Rightarrow> bool \<Rightarrow> instant \<Rightarrow> account_endpoint_state \<Rightarrow> account_endpoint_state" where
  "failback_endpoint u observed_marked_at reachable now current =
     (case hm_get (aes_unavailable_endpoints current) u of
        None \<Rightarrow> current
      | Some (marked_at, reason) \<Rightarrow>
          if reachable then
            (if marked_at = observed_marked_at
             then current\<lparr>aes_unavailable_endpoints := hm_remove u (aes_unavailable_endpoints current)\<rparr>
             else current)
          else current\<lparr>aes_unavailable_endpoints := hm_insert u (now, reason) (aes_unavailable_endpoints current)\<rparr>)"

fun probe_and_failback_loop ::
  "(url \<Rightarrow> bool \<times> instant) \<Rightarrow> (url \<times> instant) list \<Rightarrow> location_store \<Rightarrow> location_store" where
  "probe_and_failback_loop probe_fn [] self = self"
| "probe_and_failback_loop probe_fn ((u, observed_marked_at) # due) self =
     (case probe_fn u of
        (reachable, now) \<Rightarrow>
          probe_and_failback_loop probe_fn due
            (apply_account (failback_endpoint u observed_marked_at reachable now) self))"

definition probe_and_failback_unavailable_endpoints ::
  "(url \<Rightarrow> bool \<times> instant) \<Rightarrow> instant \<Rightarrow> location_store \<Rightarrow> location_store" where
  "probe_and_failback_unavailable_endpoints probe_fn now self =
     probe_and_failback_loop probe_fn (due_endpoints now self) self"

definition record_consecutive_hedge_win ::
  "surroundings \<Rightarrow> pk_range_id \<Rightarrow> region option \<Rightarrow> location_store \<Rightarrow> location_store" where
  "record_consecutive_hedge_win sur pk_range_id primary_region self =
     apply_partition
       (\<lambda>current. record_hedge_alternate_win sur current (ls_account self) pk_range_id primary_region) self"

definition record_primary_win :: "pk_range_id \<Rightarrow> region option \<Rightarrow> location_store \<Rightarrow> location_store" where
  "record_primary_win pk_range_id primary_region self =
     apply_partition (\<lambda>current. record_hedge_primary_win current pk_range_id primary_region) self"

section \<open>Runs of the store\<close>

inductive store_step :: "location_store \<Rightarrow> location_store \<Rightarrow> bool" where
  effect: "store_step s (apply_effect env effect s)"
| sync: "store_step s (sync_account_properties_with_probe probe scheme properties default_endpoint s)"
| timer_refresh: "store_step s (force_refresh_account_properties renv s)"
| failback: "config = pes_config (ls_partitions s) \<Longrightarrow> store_step s (failback_tick now config s)"
| probe: "store_step s (probe_and_failback_unavailable_endpoints probe_fn now s)"
| alternate_win: "store_step s (record_consecutive_hedge_win sur k region s)"
| primary_win: "store_step s (record_primary_win k region s)"

definition store_init :: "location_store \<Rightarrow> bool" where
  "store_init s \<longleftrightarrow> (\<exists>e g ttl opts regions p. s = location_store_new e g ttl opts regions p)"

definition store_ok :: "location_store \<Rightarrow> bool" where
  "store_ok s \<longleftrightarrow>
     aes_preferred_read_endpoints (ls_account s) \<noteq> [] \<and>
     aes_preferred_write_endpoints (ls_account s) \<noteq> [] \<and>
     aes_account_write_endpoints (ls_account s) \<noteq> [] \<and>
     hm_wf (aes_unavailable_endpoints (ls_account s)) \<and>
     partition_wf (ls_partitions s)"

abbreviation marks :: "location_store \<Rightarrow> (url, instant \<times> unavailable_reason) hashmap" where
  "marks s \<equiv> aes_unavailable_endpoints (ls_account s)"

lemma apply_simps [simp]:
  "ls_account (apply_account f s) = f (ls_account s)"
  "ls_partitions (apply_account f s) = ls_partitions s"
  "ls_account (apply_partition g s) = ls_account s"
  "ls_partitions (apply_partition g s) = g (ls_partitions s)"
  "ls_default_endpoint (apply_account f s) = ls_default_endpoint s"
  "ls_last_refresh_epoch_ms (apply_account f s) = ls_last_refresh_epoch_ms s"
  "ls_last_refresh_epoch_ms (apply_partition g s) = ls_last_refresh_epoch_ms s"
  by (simp_all add: apply_account_def apply_partition_def)

lemma set_runtime_blocked_simps [simp]:
  "ls_account (set_runtime_blocked b s) = ls_account s"
  "ls_partitions (set_runtime_blocked b s) = ls_partitions s"
  "ls_probe_succeeded_regions (set_runtime_blocked b s) = ls_probe_succeeded_regions s"
  "ls_gateway_v2_runtime_blocked (set_runtime_blocked b s) = b"
  by (simp_all add: set_runtime_blocked_def Let_def)

lemma run_probe_simps [simp]:
  "ls_account (run_connectivity_probe probe props s) = ls_account s"
  "ls_partitions (run_connectivity_probe probe props s) = ls_partitions s"
  by (simp_all add: run_connectivity_probe_def Let_def)

text \<open>The outcome of a synchronisation on the two states.\<close>

definition sync_fast :: "account_properties arc \<Rightarrow> location_store \<Rightarrow> bool" where
  "sync_fast properties s \<longleftrightarrow>
     map_option fst (ls_last_synced_properties s) = Some (fst properties) \<or>
     ap_etag (snd properties) \<noteq> [] \<and> ls_last_synced_etag s = ap_etag (snd properties)"

lemma sync_fast_states:
  "sync_fast properties s \<Longrightarrow>
   ls_account (sync_account_properties scheme properties de s) = ls_account s \<and>
   ls_partitions (sync_account_properties scheme properties de s) = ls_partitions s"
  by (auto simp: sync_fast_def sync_account_properties_def Let_def)

lemma sync_slow_states:
  "\<not> sync_fast properties s \<Longrightarrow>
   ls_account (sync_account_properties scheme properties de s) =
     (build_account_endpoint_state scheme (snd properties) de (Some (aes_generation (ls_account s)))
        (effective_gateway_v2_enabled s) (ls_preferred_regions s))
     \<lparr>aes_unavailable_endpoints := marks s\<rparr> \<and>
   ls_partitions (sync_account_properties scheme properties de s) =
     sync_partition_flags (ap_enable_per_partition_failover_behavior (snd properties)) (ls_partitions s)"
  by (auto simp: sync_fast_def sync_account_properties_def Let_def)

lemma build_nonempty:
  "aes_preferred_read_endpoints (build_account_endpoint_state sc p de g v2 prefs) \<noteq> []"
  "aes_preferred_write_endpoints (build_account_endpoint_state sc p de g v2 prefs) \<noteq> []"
  "aes_account_write_endpoints (build_account_endpoint_state sc p de g v2 prefs) \<noteq> []"
  by (simp_all add: build_account_endpoint_state_def or_default_def Let_def)

lemma sync_flags_wf: "partition_wf s \<Longrightarrow> partition_wf (sync_partition_flags b s)"
  by (auto simp: partition_wf_def sync_partition_flags_def Let_def)

lemma sync_ok: "store_ok s \<Longrightarrow> store_ok (sync_account_properties scheme properties de s)"
  by (cases "sync_fast properties s")
    (simp_all add: store_ok_def sync_fast_states sync_slow_states build_nonempty sync_flags_wf)

lemma run_probe_ok: "store_ok s \<Longrightarrow> store_ok (run_connectivity_probe probe props s)"
  by (simp add: store_ok_def)

lemma refresh_inner_ok: "store_ok s \<Longrightarrow> store_ok (refresh_account_properties_inner env s)"
  by (auto simp: refresh_account_properties_inner_def Let_def split: option.split
      intro!: sync_ok run_probe_ok) (simp add: store_ok_def)

lemma refresh_due_ok: "store_ok s \<Longrightarrow> store_ok (refresh_account_properties_if_due env s)"
  by (auto simp: refresh_account_properties_if_due_def Let_def intro!: refresh_inner_ok)
    (simp add: store_ok_def)

lemma apply_effect_ok: "store_ok s \<Longrightarrow> store_ok (apply_effect env effect s)"
proof (cases effect)
  case RefreshAccountProperties
  then show "store_ok s \<Longrightarrow> ?thesis" by (simp add: refresh_due_ok)
qed (simp_all add: store_ok_def mark_endpoint_unavailable_def mark_partition_wf hub_wf)

lemma failback_endpoint_simps [simp]:
  "aes_preferred_read_endpoints (failback_endpoint u t b now a) = aes_preferred_read_endpoints a"
  "aes_preferred_write_endpoints (failback_endpoint u t b now a) = aes_preferred_write_endpoints a"
  "aes_account_write_endpoints (failback_endpoint u t b now a) = aes_account_write_endpoints a"
  "hm_wf (aes_unavailable_endpoints a) \<Longrightarrow> hm_wf (aes_unavailable_endpoints (failback_endpoint u t b now a))"
  by (auto simp: failback_endpoint_def split: option.split)

lemma probe_loop_ok: "store_ok s \<Longrightarrow> store_ok (probe_and_failback_loop probe_fn due s)"
  by (induction probe_fn due s rule: probe_and_failback_loop.induct)
    (auto simp: store_ok_def split: prod.splits)

lemma store_step_ok: "store_step s t \<Longrightarrow> store_ok s \<Longrightarrow> store_ok t"
proof (induction rule: store_step.induct)
  case (effect s env effect)
  then show ?case by (rule apply_effect_ok)
next
  case (sync s probe scheme properties default_endpoint)
  then show ?case by (simp add: sync_account_properties_with_probe_def sync_ok run_probe_ok)
next
  case (timer_refresh s renv)
  then show ?case by (simp add: force_refresh_account_properties_def refresh_inner_ok)
next
  case (probe s probe_fn now)
  then show ?case by (simp add: probe_and_failback_unavailable_endpoints_def probe_loop_ok)
qed (simp_all add: store_ok_def failback_tick_def record_consecutive_hedge_win_def record_primary_win_def
    expire_wf alternate_win_wf removal_wf)

lemma store_new_ok: "store_ok (location_store_new e g ttl opts regions p)"
  by (simp add: store_ok_def location_store_new_def account_state_single_def partition_new_wf)

interpretation stores: invariant_system store_init store_step store_ok
proof unfold_locales
  show "store_init s \<Longrightarrow> store_ok s" for s by (auto simp: store_init_def store_new_ok)
qed (rule store_step_ok)

section \<open>Marks\<close>

lemma sync_marks: "marks (sync_account_properties scheme properties de s) = marks s"
  by (cases "sync_fast properties s") (simp_all add: sync_fast_states sync_slow_states)

lemma refresh_marks: "marks (refresh_account_properties_inner env s) = marks s"
  by (auto simp: refresh_account_properties_inner_def Let_def sync_marks split: option.split)

lemma effect_marks: "hm_get (marks s) u = Some m \<Longrightarrow> hm_get (marks (apply_effect env effect s)) u \<noteq> None"
  by (cases effect)
    (auto simp: mark_endpoint_unavailable_def hm_simps refresh_account_properties_if_due_def Let_def refresh_marks)

text \<open>The probe loop removes a mark only after the endpoint was reachable and the mark was due.\<close>

lemma failback_endpoint_marks:
  assumes "hm_get (aes_unavailable_endpoints a) u = Some (t, r)"
    and "hm_get (aes_unavailable_endpoints (failback_endpoint u' obs b now a)) u = None"
  shows "u' = u \<and> b \<and> obs = t"
  using assms by (auto simp: failback_endpoint_def hm_simps split: option.splits if_splits prod.splits)

lemma failback_endpoint_keeps:
  assumes "hm_get (aes_unavailable_endpoints a) u = Some (t, r)"
    and "hm_get (aes_unavailable_endpoints (failback_endpoint u' obs b now a)) u = Some m"
  shows "m = (t, r) \<or> (u' = u \<and> \<not> b)"
  using assms by (auto simp: failback_endpoint_def hm_simps split: option.splits if_splits prod.splits)

lemma probe_loop_removes:
  assumes "hm_get (marks s) u = Some (t, r)" and "distinct (map fst due)"
    and "hm_get (marks (probe_and_failback_loop probe_fn due s)) u = None"
  shows "(u, t) \<in> set due \<and> fst (probe_fn u)"
  using assms
proof (induction due arbitrary: s t r)
  case (Cons d due)
  obtain u' obs where d: "d = (u', obs)" by (cases d)
  obtain b now where p: "probe_fn u' = (b, now)" by (cases "probe_fn u'")
  let ?s = "apply_account (failback_endpoint u' obs b now) s"
  have rest: "hm_get (marks (probe_and_failback_loop probe_fn due ?s)) u = None"
    using Cons.prems(3) d p by simp
  show ?case
  proof (cases "hm_get (marks ?s) u")
    case None
    then have "u' = u \<and> b \<and> obs = t"
      by (intro failback_endpoint_marks [OF Cons.prems(1), of u' obs b now]) simp
    then show ?thesis using d p by auto
  next
    case (Some m)
    then have "m = (t, r) \<or> (u' = u \<and> \<not> b)" by (intro failback_endpoint_keeps [OF Cons.prems(1), of u' obs b now]) simp
    then show ?thesis
    proof
      assume "m = (t, r)"
      then show ?thesis using Cons.IH [of ?s t r] rest Some Cons.prems(2) by auto
    next
      assume "u' = u \<and> \<not> b"
      then have no: "u \<notin> fst ` set due" using Cons.prems(2) d by auto
      obtain t' r' where "m = (t', r')" by (cases m)
      then have "(u, t') \<in> set due" using Cons.IH [of ?s t' r'] rest Some Cons.prems(2) by auto
      with no show ?thesis by force
    qed
  qed
qed simp

lemma due_endpoints_distinct: "hm_wf (marks s) \<Longrightarrow> distinct (map fst (due_endpoints now s))"
proof -
  have "map fst (due_endpoints now s) = map fst (filter (\<lambda>(_, (marked_at, _)).
      saturating_duration_since now marked_at \<ge> ls_endpoint_unavailability_ttl s) (marks s))"
    by (auto simp: due_endpoints_def)
  then show "hm_wf (marks s) \<Longrightarrow> ?thesis"
    using distinct_map_filter [of fst "marks s"] by (simp add: hm_wf_def)
qed

section \<open>Properties\<close>

text \<open>C25. The store can always route: after any sequence of effects, synchronisations, refreshes,
  failback sweeps, endpoint probes and hedge results, each endpoint list has an endpoint, and the
  partition state satisfies its invariant.\<close>

theorem store_always_routable:
  assumes "store_init s" and "store_step\<^sup>*\<^sup>* s t"
  shows "aes_preferred_read_endpoints (ls_account t) \<noteq> [] \<and>
    aes_preferred_write_endpoints (ls_account t) \<noteq> [] \<and>
    aes_account_write_endpoints (ls_account t) \<noteq> [] \<and> partition_wf (ls_partitions t)"
  using stores.reachable_inv [OF assms(2,1)] by (simp add: store_ok_def)

theorem store_always_routable_witness:
  "aes_preferred_read_endpoints (ls_account (record_primary_win ''0'' None
     (location_store_new (endpoint_global ''g'') False 0 partition_failover_default [] False))) \<noteq> []"
proof -
  let ?s = "location_store_new (endpoint_global ''g'') False 0 partition_failover_default [] False"
  have "store_init ?s" unfolding store_init_def by blast
  moreover have "store_step\<^sup>*\<^sup>* ?s (record_primary_win ''0'' None ?s)"
    by (rule r_into_rtranclp) (rule store_step.primary_win)
  ultimately show ?thesis using store_always_routable by blast
qed

text \<open>Only a probe brings an endpoint back: when a reachable store no longer has the unavailability
  mark it had before a step, that step was a probe round which found this endpoint reachable, and
  the mark was at least as old as the configured cooldown.\<close>

theorem endpoint_failback_only_by_probe:
  assumes "store_init s0" and "store_step\<^sup>*\<^sup>* s0 s" and "store_step s s'"
    and "hm_get (aes_unavailable_endpoints (ls_account s)) u = Some (marked_at, reason)"
    and "hm_get (aes_unavailable_endpoints (ls_account s')) u = None"
  shows "\<exists>probe_fn now. s' = probe_and_failback_unavailable_endpoints probe_fn now s \<and> fst (probe_fn u) \<and>
    ls_endpoint_unavailability_ttl s \<le> saturating_duration_since now marked_at"
proof -
  have wf: "hm_wf (marks s)" using stores.reachable_inv [OF assms(2,1)] by (simp add: store_ok_def)
  from assms(3) show ?thesis
  proof cases
    case (probe probe_fn now)
    then have "hm_get (marks (probe_and_failback_loop probe_fn (due_endpoints now s) s)) u = None"
      using assms(5) by (simp add: probe_and_failback_unavailable_endpoints_def)
    from probe_loop_removes [OF assms(4) due_endpoints_distinct [OF wf] this] probe show ?thesis
      by (auto simp: due_endpoints_def)
  next
    case (effect env effect)
    then show ?thesis using effect_marks [OF assms(4)] assms(5) by blast
  qed (use assms(4,5) in \<open>auto simp: sync_account_properties_with_probe_def force_refresh_account_properties_def
      sync_marks refresh_marks failback_tick_def record_consecutive_hedge_win_def record_primary_win_def\<close>)
qed

theorem endpoint_failback_only_by_probe_witness:
  "let s = location_store_new (endpoint_global ''g'') False 0 partition_failover_default [] False;
       env = \<lparr>env_sur = \<lparr>sur_now = 3, sur_epoch_nanos = 0, sur_hash = (\<lambda>_. 0)\<rparr>,
              env_refresh = \<lparr>re_now_ms = 0, re_done_ms = 0, re_fetched = False, re_cached = None,
                re_probe = (\<lambda>_. {}), re_scheme = (\<lambda>_. [])\<rparr>\<rparr>;
       m = apply_effect env (MarkEndpointUnavailable (endpoint_global ''g'') TransportError) s;
       s' = probe_and_failback_unavailable_endpoints (\<lambda>_. (True, 5)) 4 m
   in \<exists>probe_fn now. s' = probe_and_failback_unavailable_endpoints probe_fn now m \<and> fst (probe_fn ''g'')"
proof -
  let ?s = "location_store_new (endpoint_global ''g'') False 0 partition_failover_default [] False"
  let ?env = "\<lparr>env_sur = \<lparr>sur_now = 3, sur_epoch_nanos = 0, sur_hash = (\<lambda>_. 0)\<rparr>,
    env_refresh = \<lparr>re_now_ms = 0, re_done_ms = 0, re_fetched = False, re_cached = None,
      re_probe = (\<lambda>_. {}), re_scheme = (\<lambda>_. [])\<rparr>\<rparr>"
  let ?m = "apply_effect ?env (MarkEndpointUnavailable (endpoint_global ''g'') TransportError) ?s"
  let ?t = "probe_and_failback_unavailable_endpoints (\<lambda>_. (True, 5)) 4 ?m"
  have "store_init ?s" unfolding store_init_def by blast
  moreover have "store_step\<^sup>*\<^sup>* ?s ?m" by (rule r_into_rtranclp) (rule store_step.effect)
  moreover have "store_step ?m ?t" by (rule store_step.probe)
  moreover have "hm_get (marks ?m) ''g'' = Some (3, TransportError)" "hm_get (marks ?t) ''g'' = None"
    by (simp_all add: location_store_new_def account_state_single_def mark_endpoint_unavailable_def
        endpoint_global_def probe_and_failback_unavailable_endpoints_def due_endpoints_def
        apply_account_def failback_endpoint_def saturating_duration_since_def)
  ultimately show ?thesis unfolding Let_def using endpoint_failback_only_by_probe by blast
qed

text \<open>New account properties take effect completely: unless they are the ones synchronised last,
  the account state is rebuilt with the next generation and keeps all unavailability marks, the
  failover flag follows the account, the circuit-breaker flag follows the operator's kill switch
  when it is set and otherwise the account or the option, and the overrides of a mechanism survive
  exactly when its flag does not change.\<close>

theorem sync_takes_effect:
  assumes "\<not> sync_fast properties s"
  shows "let s' = sync_account_properties scheme properties de s;
      ppaf = ap_enable_per_partition_failover_behavior (snd properties);
      p = ls_partitions s; p' = ls_partitions s'
    in aes_generation (ls_account s') = saturating_add_word (aes_generation (ls_account s)) 1 \<and>
       aes_unavailable_endpoints (ls_account s') = aes_unavailable_endpoints (ls_account s) \<and>
       pes_ppaf_enabled p' = ppaf \<and>
       pes_ppcb_enabled p' = (case pfo_circuit_breaker_enabled_override (pes_config p) of
         Some switch \<Rightarrow> switch | None \<Rightarrow> ppaf \<or> pfo_circuit_breaker_enabled (pes_config p)) \<and>
       pes_failover_overrides p' = (if pes_ppaf_enabled p = ppaf then pes_failover_overrides p else []) \<and>
       pes_circuit_breaker_overrides p' =
         (if pes_ppcb_enabled p = pes_ppcb_enabled p' then pes_circuit_breaker_overrides p else [])"
  using sync_slow_states [OF assms, of scheme de]
  by (simp add: Let_def build_account_endpoint_state_def sync_partition_flags_def unwrap_or_def)

theorem sync_takes_effect_witness:
  "let s = location_store_new (endpoint_global ''g'') False 0 partition_failover_default [] False;
       props = \<lparr>ap_id = ''a'', ap_writable_locations = [], ap_readable_locations = [],
         ap_enable_multiple_write_locations = False, ap_enable_per_partition_failover_behavior = True,
         ap_thin_client_readable_locations = [], ap_thin_client_writable_locations = [], ap_etag = ''1''\<rparr>
   in pes_ppaf_enabled (ls_partitions (sync_account_properties (\<lambda>_. ''https'') (0, props) (endpoint_global ''g'') s))"
proof -
  let ?s = "location_store_new (endpoint_global ''g'') False 0 partition_failover_default [] False"
  let ?props = "\<lparr>ap_id = ''a'', ap_writable_locations = [], ap_readable_locations = [],
    ap_enable_multiple_write_locations = False, ap_enable_per_partition_failover_behavior = True,
    ap_thin_client_readable_locations = [], ap_thin_client_writable_locations = [], ap_etag = ''1''\<rparr>"
  have "\<not> sync_fast (0, ?props) ?s" by (simp add: sync_fast_def location_store_new_def)
  from sync_takes_effect [OF this, of "\<lambda>_. ''https''" "endpoint_global ''g''"] show ?thesis
    by (simp add: Let_def)
qed

text \<open>A failed event-driven refresh is throttled like a successful one: the clock of the rate limit
  is advanced before the fetch, so when the fetch fails, further event-driven refreshes within the
  interval do nothing.\<close>

theorem failed_refresh_throttles:
  assumes "\<not> re_fetched env" and "ls_refresh_interval s = from_secs 5"
    and "\<not> saturating_sub_word (re_now_ms env) (ls_last_refresh_epoch_ms s) < 5000"
    and "re_now_ms env \<le> re_now_ms env'" and "re_now_ms env' - re_now_ms env < 5000"
  shows "let s' = refresh_account_properties_if_due env s in
    ls_last_refresh_epoch_ms s' = re_now_ms env \<and> refresh_account_properties_if_due env' s' = s'"
proof -
  have "saturating_sub_word (re_now_ms env') (re_now_ms env) < 5000"
    using assms(4,5) by (simp add: saturating_sub_word_def)
  with assms(1-3) show ?thesis
    by (simp add: refresh_account_properties_if_due_def refresh_account_properties_inner_def Let_def from_secs_def)
qed

theorem failed_refresh_throttles_witness:
  "let s = location_store_new (endpoint_global ''g'') False 0 partition_failover_default [] False;
       env = (\<lambda>t. \<lparr>re_now_ms = t, re_done_ms = t, re_fetched = False, re_cached = None,
                re_probe = (\<lambda>_. {}), re_scheme = (\<lambda>_. [])\<rparr>);
       s' = refresh_account_properties_if_due (env 6000) s
   in refresh_account_properties_if_due (env 7000) s' = s'"
proof -
  let ?s = "location_store_new (endpoint_global ''g'') False 0 partition_failover_default [] False"
  let ?env = "\<lambda>t. \<lparr>re_now_ms = t, re_done_ms = t, re_fetched = False, re_cached = None,
    re_probe = (\<lambda>_. {}), re_scheme = (\<lambda>_. [])\<rparr>"
  have "ls_refresh_interval ?s = from_secs 5" "ls_last_refresh_epoch_ms ?s = 0"
    by (simp_all add: location_store_new_def)
  then show ?thesis
    using failed_refresh_throttles [of "?env 6000" ?s "?env 7000"]
    by (simp add: Let_def saturating_sub_word_def word_le_nat_alt word_less_nat_alt)
qed

end
