(* ===== verification/Location_Snapshot.thy ===== *)
theory Location_Snapshot
  imports Location_Store
begin

text \<open>
  The interleaving of \<^verbatim>\<open>LocationStateStore::snapshot\<close> with the compare-and-swap loops of
  \<^verbatim>\<open>apply_account\<close> and \<^verbatim>\<open>apply_partition\<close>, instruction by instruction. Each thread has a program
  counter; each shared access of the source is one step. The two atomic pointers are represented by
  the lists of all states they ever pointed to: a pointer is a position, the current one is the
  last. A compare-and-swap succeeds when the pointer loaded is still the last position. The version
  counter is bumped in a separate step, after the swap, as in the source; it is a natural number,
  so the model covers runs with fewer than \<^verbatim>\<open>2^64\<close> updates.

  The list \<open>cs_completed\<close> is a ghost: for each value of the version counter, the newest account and
  partition positions whose updates had completed when the counter reached that value.
\<close>

datatype pc =
    Idle
  | SnapVersion nat
  | SnapMiss nat
  | SnapAccount nat nat
  | SnapBoth nat nat nat
  | SnapReturn nat nat nat
  | CasAccount nat "account_endpoint_state \<Rightarrow> account_endpoint_state"
  | CasPartition nat "partition_endpoint_state \<Rightarrow> partition_endpoint_state"
  | BumpAccount nat
  | BumpPartition nat

record concurrent_store =
  cs_accounts :: "account_endpoint_state list"
  cs_partitions :: "partition_endpoint_state list"
  cs_version :: nat
  cs_cached :: "nat \<times> nat \<times> nat"
  cs_threads :: "nat \<Rightarrow> pc"
  cs_completed :: "(nat \<times> nat) list"

definition goto :: "nat \<Rightarrow> pc \<Rightarrow> concurrent_store \<Rightarrow> concurrent_store" where
  "goto i p s = s\<lparr>cs_threads := (cs_threads s)(i := p)\<rparr>"

definition concurrent_init :: "concurrent_store \<Rightarrow> bool" where
  "concurrent_init s \<longleftrightarrow>
     (\<exists>a p. s = \<lparr>cs_accounts = [a], cs_partitions = [p], cs_version = 0, cs_cached = (0, 0, 0),
                 cs_threads = (\<lambda>_. Idle), cs_completed = [(0, 0)]\<rparr>)"

inductive concurrent_step :: "concurrent_store \<Rightarrow> concurrent_store \<Rightarrow> bool" where
  snap_begin:
    "cs_threads s i = Idle \<Longrightarrow> concurrent_step s (goto i (SnapVersion (cs_version s)) s)"
| snap_hit:
    "cs_threads s i = SnapVersion v \<Longrightarrow> cs_cached s = (v, a, p) \<Longrightarrow>
     concurrent_step s (goto i (SnapReturn v a p) s)"
| snap_miss:
    "cs_threads s i = SnapVersion v \<Longrightarrow> fst (cs_cached s) \<noteq> v \<Longrightarrow>
     concurrent_step s (goto i (SnapMiss v) s)"
| snap_load_account:
    "cs_threads s i = SnapMiss v \<Longrightarrow>
     concurrent_step s (goto i (SnapAccount v (length (cs_accounts s) - 1)) s)"
| snap_load_partition:
    "cs_threads s i = SnapAccount v a \<Longrightarrow>
     concurrent_step s (goto i (SnapBoth v a (length (cs_partitions s) - 1)) s)"
| snap_publish:
    "cs_threads s i = SnapBoth v a p \<Longrightarrow>
     concurrent_step s
       (goto i (SnapReturn v a p)
          (if fst (cs_cached s) < v then s\<lparr>cs_cached := (v, a, p)\<rparr> else s))"
| snap_end:
    "cs_threads s i = SnapReturn v a p \<Longrightarrow> concurrent_step s (goto i Idle s)"
| account_load:
    "cs_threads s i = Idle \<Longrightarrow> concurrent_step s (goto i (CasAccount (length (cs_accounts s) - 1) f) s)"
| account_swap:
    "cs_threads s i = CasAccount ptr f \<Longrightarrow> ptr = length (cs_accounts s) - 1 \<Longrightarrow>
     concurrent_step s
       (goto i (BumpAccount (length (cs_accounts s)))
          (s\<lparr>cs_accounts := cs_accounts s @ [f (cs_accounts s ! ptr)]\<rparr>))"
| account_retry:
    "cs_threads s i = CasAccount ptr f \<Longrightarrow> ptr \<noteq> length (cs_accounts s) - 1 \<Longrightarrow>
     concurrent_step s (goto i (CasAccount (length (cs_accounts s) - 1) f) s)"
| account_bump:
    "cs_threads s i = BumpAccount n \<Longrightarrow> last (cs_completed s) = (a, p) \<Longrightarrow>
     concurrent_step s
       (goto i Idle
          (s\<lparr>cs_version := cs_version s + 1, cs_completed := cs_completed s @ [(max a n, p)]\<rparr>))"
| partition_load:
    "cs_threads s i = Idle \<Longrightarrow> concurrent_step s (goto i (CasPartition (length (cs_partitions s) - 1) g) s)"
| partition_swap:
    "cs_threads s i = CasPartition ptr g \<Longrightarrow> ptr = length (cs_partitions s) - 1 \<Longrightarrow>
     concurrent_step s
       (goto i (BumpPartition (length (cs_partitions s)))
          (s\<lparr>cs_partitions := cs_partitions s @ [g (cs_partitions s ! ptr)]\<rparr>))"
| partition_retry:
    "cs_threads s i = CasPartition ptr g \<Longrightarrow> ptr \<noteq> length (cs_partitions s) - 1 \<Longrightarrow>
     concurrent_step s (goto i (CasPartition (length (cs_partitions s) - 1) g) s)"
| partition_bump:
    "cs_threads s i = BumpPartition n \<Longrightarrow> last (cs_completed s) = (a, p) \<Longrightarrow>
     concurrent_step s
       (goto i Idle
          (s\<lparr>cs_version := cs_version s + 1, cs_completed := cs_completed s @ [(a, max p n)]\<rparr>))"

section \<open>The invariant\<close>

text \<open>A pair of positions is fresh for a version when it includes everything completed then, and valid
  when both positions exist.\<close>

definition valid_account :: "concurrent_store \<Rightarrow> nat \<Rightarrow> nat \<Rightarrow> bool" where
  "valid_account s v a \<longleftrightarrow>
     v \<le> cs_version s \<and> fst (cs_completed s ! v) \<le> a \<and> a < length (cs_accounts s)"

definition valid_partition :: "concurrent_store \<Rightarrow> nat \<Rightarrow> nat \<Rightarrow> bool" where
  "valid_partition s v p \<longleftrightarrow> snd (cs_completed s ! v) \<le> p \<and> p < length (cs_partitions s)"

fun pc_ok :: "concurrent_store \<Rightarrow> pc \<Rightarrow> bool" where
  "pc_ok s Idle = True"
| "pc_ok s (SnapVersion v) = (v \<le> cs_version s)"
| "pc_ok s (SnapMiss v) = (v \<le> cs_version s)"
| "pc_ok s (SnapAccount v a) = valid_account s v a"
| "pc_ok s (SnapBoth v a p) = (valid_account s v a \<and> valid_partition s v p)"
| "pc_ok s (SnapReturn v a p) = (valid_account s v a \<and> valid_partition s v p)"
| "pc_ok s (CasAccount ptr f) = (ptr < length (cs_accounts s))"
| "pc_ok s (CasPartition ptr g) = (ptr < length (cs_partitions s))"
| "pc_ok s (BumpAccount n) = (n < length (cs_accounts s))"
| "pc_ok s (BumpPartition n) = (n < length (cs_partitions s))"

definition concurrent_ok :: "concurrent_store \<Rightarrow> bool" where
  "concurrent_ok s \<longleftrightarrow>
     length (cs_completed s) = Suc (cs_version s) \<and>
     (\<forall>v \<le> cs_version s. fst (cs_completed s ! v) < length (cs_accounts s) \<and>
        snd (cs_completed s ! v) < length (cs_partitions s)) \<and>
     pc_ok s (case cs_cached s of (v, a, p) \<Rightarrow> SnapReturn v a p) \<and>
     (\<forall>i. pc_ok s (cs_threads s i))"

text \<open>Everything a thread knows stays true when the lists grow.\<close>

definition grows :: "concurrent_store \<Rightarrow> concurrent_store \<Rightarrow> bool" where
  "grows s t \<longleftrightarrow>
     length (cs_accounts s) \<le> length (cs_accounts t) \<and>
     length (cs_partitions s) \<le> length (cs_partitions t) \<and>
     cs_version s \<le> cs_version t \<and>
     (\<forall>v \<le> cs_version s. cs_completed t ! v = cs_completed s ! v)"

lemma pc_ok_grows: "pc_ok s p \<Longrightarrow> grows s t \<Longrightarrow> pc_ok t p"
  by (cases p) (auto simp: grows_def valid_account_def valid_partition_def)

lemma goto_simps [simp]:
  "cs_accounts (goto i p s) = cs_accounts s" "cs_partitions (goto i p s) = cs_partitions s"
  "cs_version (goto i p s) = cs_version s" "cs_cached (goto i p s) = cs_cached s"
  "cs_completed (goto i p s) = cs_completed s"
  "cs_threads (goto i p s) = (cs_threads s)(i := p)"
  by (simp_all add: goto_def)

lemma pc_ok_goto [simp]: "pc_ok (goto i q s) p = pc_ok s p"
  by (cases p) (simp_all add: valid_account_def valid_partition_def)

lemma goto_ok: "concurrent_ok s \<Longrightarrow> pc_ok s p \<Longrightarrow> concurrent_ok (goto i p s)"
  by (auto simp: concurrent_ok_def split: prod.splits)

text \<open>A step that only grows the shared state keeps the invariant.\<close>

lemma grows_ok:
  assumes "concurrent_ok s" "grows s t" "cs_threads t = cs_threads s" "cs_cached t = cs_cached s"
    and "length (cs_completed t) = Suc (cs_version t)"
    and "\<forall>v \<le> cs_version t. fst (cs_completed t ! v) < length (cs_accounts t) \<and>
        snd (cs_completed t ! v) < length (cs_partitions t)"
  shows "concurrent_ok t"
  using assms pc_ok_grows [OF _ assms(2)] unfolding concurrent_ok_def by simp

lemma swap_ok:
  assumes "concurrent_ok s"
  shows "concurrent_ok (s\<lparr>cs_accounts := cs_accounts s @ [a]\<rparr>)"
    and "concurrent_ok (s\<lparr>cs_partitions := cs_partitions s @ [p]\<rparr>)"
  by (rule grows_ok [OF assms]; use assms in \<open>auto simp: grows_def concurrent_ok_def less_Suc_eq\<close>)+

lemma bump_ok:
  assumes "concurrent_ok s" and "a < length (cs_accounts s)" and "p < length (cs_partitions s)"
  shows "concurrent_ok (s\<lparr>cs_version := cs_version s + 1, cs_completed := cs_completed s @ [(a, p)]\<rparr>)"
proof (rule grows_ok [OF assms(1)])
  have len: "length (cs_completed s) = Suc (cs_version s)" using assms(1) by (simp add: concurrent_ok_def)
  then show "grows s (s\<lparr>cs_version := cs_version s + 1, cs_completed := cs_completed s @ [(a, p)]\<rparr>)"
    by (simp add: grows_def nth_append)
  show "\<forall>v \<le> cs_version (s\<lparr>cs_version := cs_version s + 1, cs_completed := cs_completed s @ [(a, p)]\<rparr>).
    fst (cs_completed (s\<lparr>cs_version := cs_version s + 1, cs_completed := cs_completed s @ [(a, p)]\<rparr>) ! v)
      < length (cs_accounts (s\<lparr>cs_version := cs_version s + 1, cs_completed := cs_completed s @ [(a, p)]\<rparr>)) \<and>
    snd (cs_completed (s\<lparr>cs_version := cs_version s + 1, cs_completed := cs_completed s @ [(a, p)]\<rparr>) ! v)
      < length (cs_partitions (s\<lparr>cs_version := cs_version s + 1, cs_completed := cs_completed s @ [(a, p)]\<rparr>))"
    using assms len by (auto simp: nth_append concurrent_ok_def less_Suc_eq_le le_Suc_eq)
qed (use assms(1) in \<open>simp_all add: concurrent_ok_def\<close>)

lemma completed_last:
  assumes "concurrent_ok s" "last (cs_completed s) = (a, p)"
  shows "a < length (cs_accounts s)" "p < length (cs_partitions s)"
proof -
  have "cs_completed s ! cs_version s = (a, p)"
    using assms by (metis concurrent_ok_def diff_Suc_1 last_conv_nth length_0_conv nat.distinct(1))
  then show "a < length (cs_accounts s)" "p < length (cs_partitions s)"
    using assms(1) unfolding concurrent_ok_def by (metis fst_conv le_refl, metis snd_conv le_refl)
qed

lemma publish_ok:
  assumes "concurrent_ok s" "valid_account s v a" "valid_partition s v p"
  shows "concurrent_ok (s\<lparr>cs_cached := (v, a, p)\<rparr>)"
proof -
  have same: "pc_ok (s\<lparr>cs_cached := (v, a, p)\<rparr>) q = pc_ok s q" for q
    by (cases q) (simp_all add: valid_account_def valid_partition_def)
  show ?thesis using assms unfolding concurrent_ok_def same by simp
qed

lemma current_positions:
  assumes "concurrent_ok s" "v \<le> cs_version s"
  shows "valid_account s v (length (cs_accounts s) - 1)" "valid_partition s v (length (cs_partitions s) - 1)"
proof -
  have "fst (cs_completed s ! v) < length (cs_accounts s)" "snd (cs_completed s ! v) < length (cs_partitions s)"
    using assms by (auto simp: concurrent_ok_def)
  then show "valid_account s v (length (cs_accounts s) - 1)" "valid_partition s v (length (cs_partitions s) - 1)"
    using assms(2) by (auto simp: valid_account_def valid_partition_def)
qed

lemma nonempty_ok:
  "concurrent_ok s \<Longrightarrow> cs_accounts s \<noteq> [] \<and> cs_partitions s \<noteq> []"
  unfolding concurrent_ok_def by (metis le_refl length_0_conv not_less_zero)

lemma thread_ok: "concurrent_ok s \<Longrightarrow> pc_ok s (cs_threads s i)"
  by (simp add: concurrent_ok_def)

lemma concurrent_step_ok: "concurrent_step s t \<Longrightarrow> concurrent_ok s \<Longrightarrow> concurrent_ok t"
proof (induction rule: concurrent_step.induct)
  case (snap_begin s i)
  then show ?case by (intro goto_ok) simp_all
next
  case (snap_hit s i v a p)
  then show ?case by (intro goto_ok) (simp_all add: concurrent_ok_def)
next
  case (snap_miss s i v)
  then show ?case using thread_ok [of s i] by (intro goto_ok) simp_all
next
  case (snap_load_account s i v)
  then show ?case using thread_ok [of s i] by (intro goto_ok) (simp_all add: current_positions [simplified])
next
  case (snap_load_partition s i v a)
  then show ?case using thread_ok [of s i]
    by (intro goto_ok) (simp_all add: current_positions [simplified] valid_account_def)
next
  case (snap_publish s i v a p)
  then have "valid_account s v a" "valid_partition s v p" using thread_ok [of s i] by simp_all
  then show ?case using snap_publish publish_ok [of s v a p]
    by (auto intro!: goto_ok simp: valid_account_def valid_partition_def)
next
  case (account_swap s i ptr f)
  then show ?case by (intro goto_ok) (simp_all add: swap_ok)
next
  case (partition_swap s i ptr g)
  then show ?case by (intro goto_ok) (simp_all add: swap_ok)
next
  case (account_bump s i n a p)
  then show ?case using thread_ok [of s i] completed_last [of s a p]
    by (intro goto_ok bump_ok) simp_all
next
  case (partition_bump s i n a p)
  then show ?case using thread_ok [of s i] completed_last [of s a p]
    by (intro goto_ok bump_ok) simp_all
qed (simp_all add: goto_ok nonempty_ok)

interpretation concurrent: invariant_system concurrent_init concurrent_step concurrent_ok
proof unfold_locales
  show "concurrent_init s \<Longrightarrow> concurrent_ok s" for s
    by (auto simp: concurrent_init_def concurrent_ok_def valid_account_def valid_partition_def)
qed (rule concurrent_step_ok)

section \<open>Property\<close>

text \<open>C24. Snapshots are never stale, under every interleaving: a snapshot that a thread returns, from
  the cache or freshly loaded, contains every account and partition update that had completed when
  the call read the version counter, even when other threads swapped, bumped, or published in
  between. The counter is unbounded here, so this is for runs with fewer than \<^verbatim>\<open>2^64\<close> updates.\<close>

theorem snapshot_never_stale:
  assumes "concurrent_init s0" and "concurrent_step\<^sup>*\<^sup>* s0 s"
    and "cs_threads s i = SnapReturn v a p" and "cs_completed s ! v = (done_a, done_p)"
  shows "done_a \<le> a \<and> a < length (cs_accounts s) \<and> done_p \<le> p \<and> p < length (cs_partitions s)"
proof -
  have "pc_ok s (SnapReturn v a p)"
    using thread_ok [OF concurrent.reachable_inv [OF assms(2,1)], of i] assms(3) by simp
  with assms(4) show ?thesis by (simp add: valid_account_def valid_partition_def)
qed

theorem snapshot_never_stale_witness:
  "let a = account_state_single (endpoint_global ''g'');
       p = partition_state_new partition_failover_default;
       s0 = \<lparr>cs_accounts = [a], cs_partitions = [p], cs_version = 0, cs_cached = (0, 0, 0),
             cs_threads = (\<lambda>_. Idle), cs_completed = [(0, 0)]\<rparr>
   in \<exists>s. concurrent_step\<^sup>*\<^sup>* s0 s \<and> cs_threads s 1 = SnapReturn 1 1 0 \<and> 1 < length (cs_accounts s)"
proof -
  let ?a = "account_state_single (endpoint_global ''g'')"
  let ?p = "partition_state_new partition_failover_default"
  let ?st = "\<lambda>as v t0 t1 c. \<lparr>cs_accounts = as, cs_partitions = [?p], cs_version = v, cs_cached = (0, 0, 0),
    cs_threads = (\<lambda>_. Idle)(0 := t0, 1 := t1), cs_completed = c\<rparr>"
  let ?s0 = "\<lparr>cs_accounts = [?a], cs_partitions = [?p], cs_version = 0, cs_cached = (0, 0, 0),
    cs_threads = (\<lambda>_. Idle), cs_completed = [(0, 0)]\<rparr>"
  let ?s7 = "(?st [?a, ?a] 1 Idle (SnapReturn 1 1 0) [(0, 0), (1, 0)])\<lparr>cs_cached := (1, 1, 0)\<rparr>"
  have "concurrent_step ?s0 (?st [?a] 0 (CasAccount 0 (\<lambda>x. x)) Idle [(0, 0)])"
    using account_load [of ?s0 0 "\<lambda>x. x"] by (simp add: goto_def fun_upd_idem)
  moreover have "concurrent_step (?st [?a] 0 (CasAccount 0 (\<lambda>x. x)) Idle [(0, 0)]) (?st [?a, ?a] 0 (BumpAccount 1) Idle [(0, 0)])"
    using account_swap [of "?st [?a] 0 (CasAccount 0 (\<lambda>x. x)) Idle [(0, 0)]" 0 0 "\<lambda>x. x"]
    by (simp add: goto_def fun_upd_twist)
  moreover have "concurrent_step (?st [?a, ?a] 0 (BumpAccount 1) Idle [(0, 0)]) (?st [?a, ?a] 1 Idle Idle [(0, 0), (1, 0)])"
    using account_bump [of "?st [?a, ?a] 0 (BumpAccount 1) Idle [(0, 0)]" 0 1 0 0]
    by (simp add: goto_def fun_upd_twist)
  moreover have "concurrent_step (?st [?a, ?a] 1 Idle Idle [(0, 0), (1, 0)]) (?st [?a, ?a] 1 Idle (SnapVersion 1) [(0, 0), (1, 0)])"
    using snap_begin [of "?st [?a, ?a] 1 Idle Idle [(0, 0), (1, 0)]" 1] by (simp add: goto_def)
  moreover have "concurrent_step (?st [?a, ?a] 1 Idle (SnapVersion 1) [(0, 0), (1, 0)]) (?st [?a, ?a] 1 Idle (SnapMiss 1) [(0, 0), (1, 0)])"
    using snap_miss [of "?st [?a, ?a] 1 Idle (SnapVersion 1) [(0, 0), (1, 0)]" 1 1] by (simp add: goto_def)
  moreover have "concurrent_step (?st [?a, ?a] 1 Idle (SnapMiss 1) [(0, 0), (1, 0)]) (?st [?a, ?a] 1 Idle (SnapAccount 1 1) [(0, 0), (1, 0)])"
    using snap_load_account [of "?st [?a, ?a] 1 Idle (SnapMiss 1) [(0, 0), (1, 0)]" 1 1] by (simp add: goto_def)
  moreover have "concurrent_step (?st [?a, ?a] 1 Idle (SnapAccount 1 1) [(0, 0), (1, 0)]) (?st [?a, ?a] 1 Idle (SnapBoth 1 1 0) [(0, 0), (1, 0)])"
    using snap_load_partition [of "?st [?a, ?a] 1 Idle (SnapAccount 1 1) [(0, 0), (1, 0)]" 1 1 1] by (simp add: goto_def)
  moreover have "concurrent_step (?st [?a, ?a] 1 Idle (SnapBoth 1 1 0) [(0, 0), (1, 0)]) ?s7"
    using snap_publish [of "?st [?a, ?a] 1 Idle (SnapBoth 1 1 0) [(0, 0), (1, 0)]" 1 1 1 0] by (simp add: goto_def)
  ultimately have run: "concurrent_step\<^sup>*\<^sup>* ?s0 ?s7" by (meson converse_rtranclp_into_rtranclp rtranclp.rtrancl_refl)
  have "concurrent_init ?s0" by (auto simp: concurrent_init_def)
  from snapshot_never_stale [OF this run, of 1 1 1 0 1 0] run show ?thesis
    unfolding Let_def by (intro exI [of _ ?s7]) simp
qed

end
