(* ===== verification/Session_Token.thy ===== *)
theory Session_Token
  imports Rust_Strings
begin

text \<open>
  Session tokens, \<^verbatim>\<open>models/vector_session_token.rs\<close>, \<^verbatim>\<open>models/session_token_segment.rs\<close> and
  \<^verbatim>\<open>SessionToken\<close> of \<^verbatim>\<open>models/mod.rs\<close>: the version vector behind the colon of a wire token, the
  V1/V2 sum type, the \<^verbatim>\<open><pkRangeId>:<value>\<close> segment and the merge of compound tokens. The order
  of recency and the merge are related to an abstract token (a version, an LSN and a partial map of
  regions), and printing is related to parsing.
\<close>

section \<open>Version vectors\<close>

text \<open>The error messages of the parsers, with the text they quote.\<close>

datatype token_error =
    EmptyInput
  | BadVersion string
  | MissingGlobalLsn string
  | BadGlobalLsn string
  | MalformedRegionSegment string
  | BadRegionId string
  | BadRegionLsn string
  | BadTokenValue string
  | MissingColon

record vector_session_token =
  vst_version :: u64
  vst_global_lsn :: u64
  vst_region_progress :: "(u64, u64 option) hashmap"

subsection \<open>Parsing\<close>

fun vst_parse_regions ::
  "string list \<Rightarrow> (u64, u64 option) hashmap \<Rightarrow> token_error + (u64, u64 option) hashmap" where
  "vst_parse_regions [] region_progress = Inr region_progress"
| "vst_parse_regions (segment # parts) region_progress =
     (if segment = [] then vst_parse_regions parts region_progress
      else case split_once CHR ''='' segment of
        None \<Rightarrow> Inl (MalformedRegionSegment segment)
      | Some (region_str, lsn_str) \<Rightarrow>
          (case parse_u64 region_str of
             None \<Rightarrow> Inl (BadRegionId region_str)
           | Some region_id \<Rightarrow>
               (case parse_i64 lsn_str of
                  None \<Rightarrow> Inl (BadRegionLsn lsn_str)
                | Some lsn \<Rightarrow>
                    vst_parse_regions parts
                      (hm_insert region_id (if lsn < 0 then None else Some (word_of_int lsn))
                         region_progress))))"

definition vst_parse :: "string \<Rightarrow> token_error + vector_session_token" where
  "vst_parse s =
     (case split_char CHR ''#'' s of
        [] \<Rightarrow> Inl EmptyInput
      | version_str # parts \<Rightarrow>
          (case parse_u64 version_str of
             None \<Rightarrow> Inl (BadVersion version_str)
           | Some version \<Rightarrow>
               (case parts of
                  [] \<Rightarrow> Inl (MissingGlobalLsn s)
                | global_str # parts' \<Rightarrow>
                    (case parse_u64 global_str of
                       None \<Rightarrow> Inl (BadGlobalLsn global_str)
                     | Some global_lsn \<Rightarrow>
                         (case vst_parse_regions parts' [] of
                            Inl e \<Rightarrow> Inl e
                          | Inr region_progress \<Rightarrow>
                              Inr \<lparr>vst_version = version, vst_global_lsn = global_lsn,
                                   vst_region_progress = region_progress\<rparr>)))))"

subsection \<open>Recency and merge\<close>

definition vst_is_as_recent_as :: "vector_session_token \<Rightarrow> vector_session_token \<Rightarrow> bool" where
  "vst_is_as_recent_as self other =
     (if vst_version self > vst_version other then True
      else if vst_version self < vst_version other then False
      else if vst_global_lsn self < vst_global_lsn other then False
      else list_all (\<lambda>(region, other_lsn).
             case hm_get (vst_region_progress self) region of
               Some self_lsn \<Rightarrow> self_lsn \<ge> other_lsn
             | None \<Rightarrow> False) (vst_region_progress other))"

fun vst_merge_region ::
  "u64 \<times> u64 option \<Rightarrow> (u64, u64 option) hashmap \<times> bool \<Rightarrow> (u64, u64 option) hashmap \<times> bool" where
  "vst_merge_region (region, other_lsn) (region_progress, changed) =
     (case hm_get region_progress region of
        Some entry \<Rightarrow>
          if other_lsn > entry then (hm_insert region other_lsn region_progress, True)
          else (region_progress, changed)
      | None \<Rightarrow> (hm_insert region other_lsn region_progress, True))"

definition vst_merged_regions ::
  "(u64, u64 option) hashmap \<Rightarrow> (u64, u64 option) hashmap \<Rightarrow> (u64, u64 option) hashmap" where
  "vst_merged_regions higher lower =
     fold (\<lambda>(region, higher_lsn) merged_regions.
             hm_insert region
               (case hm_get lower region of
                  Some lower_lsn \<Rightarrow> max higher_lsn lower_lsn
                | None \<Rightarrow> higher_lsn) merged_regions) higher []"

definition vst_merge ::
  "vector_session_token \<Rightarrow> vector_session_token \<Rightarrow> vector_session_token \<times> bool" where
  "vst_merge self other =
     (if vst_version self = vst_version other then
        let (global_lsn, changed) =
              (if vst_global_lsn other > vst_global_lsn self then (vst_global_lsn other, True)
               else (vst_global_lsn self, False));
            (region_progress, changed') =
              fold vst_merge_region (vst_region_progress other) (vst_region_progress self, changed)
        in (self\<lparr>vst_global_lsn := global_lsn, vst_region_progress := region_progress\<rparr>, changed')
      else
        let (higher, lower) =
              (if vst_version other > vst_version self then (other, self) else (self, other));
            merged_regions =
              vst_merged_regions (vst_region_progress higher) (vst_region_progress lower);
            new_version = vst_version higher;
            new_global_lsn = vst_global_lsn higher;
            changed = (vst_version self \<noteq> new_version \<or> vst_global_lsn self \<noteq> new_global_lsn \<or>
                       \<not> hm_eq (vst_region_progress self) merged_regions)
        in if changed then
             (\<lparr>vst_version = new_version, vst_global_lsn = new_global_lsn,
               vst_region_progress = merged_regions\<rparr>, True)
           else (self, False))"

subsection \<open>Display\<close>

definition show_region :: "u64 \<times> u64 option \<Rightarrow> string" where
  "show_region r =
     ''#'' @ show_u64 (fst r) @ ''='' @ (case snd r of Some v \<Rightarrow> show_u64 v | None \<Rightarrow> ''-1'')"

definition vst_fmt :: "vector_session_token \<Rightarrow> string" where
  "vst_fmt self =
     show_u64 (vst_version self) @ ''#'' @ show_u64 (vst_global_lsn self) @
     concat (map show_region (sort_key fst (vst_region_progress self)))"

section \<open>V1 and V2 token values\<close>

datatype session_token_value = Simple u64 | Vector vector_session_token

fun stv_global_lsn :: "session_token_value \<Rightarrow> u64" where
  "stv_global_lsn (Simple lsn) = lsn"
| "stv_global_lsn (Vector v) = vst_global_lsn v"

definition stv_parse :: "string \<Rightarrow> token_error + session_token_value" where
  "stv_parse s =
     (case vst_parse s of
        Inr vector \<Rightarrow> Inr (Vector vector)
      | Inl _ \<Rightarrow>
          (case parse_u64 s of None \<Rightarrow> Inl (BadTokenValue s) | Some lsn \<Rightarrow> Inr (Simple lsn)))"

fun stv_merge :: "session_token_value \<Rightarrow> session_token_value \<Rightarrow> session_token_value \<times> bool" where
  "stv_merge (Vector self_v) (Vector other_v) =
     (let (v, changed) = vst_merge self_v other_v in (Vector v, changed))"
| "stv_merge (Simple self_lsn) (Simple other_lsn) =
     (if other_lsn > self_lsn then (Simple other_lsn, True) else (Simple self_lsn, False))"
| "stv_merge (Simple self_lsn) (Vector other_v) = (Vector other_v, True)"
| "stv_merge (Vector self_v) (Simple other_lsn) = (Vector self_v, False)"

fun stv_is_as_recent_as :: "session_token_value \<Rightarrow> session_token_value \<Rightarrow> bool" where
  "stv_is_as_recent_as (Vector a) (Vector b) = vst_is_as_recent_as a b"
| "stv_is_as_recent_as (Simple a) (Simple b) = (a \<ge> b)"
| "stv_is_as_recent_as (Vector a) (Simple b) = True"
| "stv_is_as_recent_as (Simple a) (Vector b) = False"

fun stv_fmt :: "session_token_value \<Rightarrow> string" where
  "stv_fmt (Simple lsn) = show_u64 lsn"
| "stv_fmt (Vector v) = vst_fmt v"

section \<open>Segments and compound tokens\<close>

record session_token_segment =
  seg_pk_range_id :: string
  seg_value :: session_token_value

definition segment_from_str :: "string \<Rightarrow> token_error + session_token_segment" where
  "segment_from_str s =
     (case split_once CHR '':'' (trim s) of
        None \<Rightarrow> Inl MissingColon
      | Some (pk_range_id, value_str) \<Rightarrow>
          (case stv_parse value_str of
             Inl e \<Rightarrow> Inl e
           | Inr value \<Rightarrow> Inr \<lparr>seg_pk_range_id = pk_range_id, seg_value = value\<rparr>))"

definition segment_global_lsn :: "session_token_segment \<Rightarrow> u64" where
  "segment_global_lsn self = stv_global_lsn (seg_value self)"

definition segment_merge_value ::
  "session_token_segment \<Rightarrow> session_token_segment \<Rightarrow> session_token_segment \<times> bool" where
  "segment_merge_value self other =
     (let (value, changed) = stv_merge (seg_value self) (seg_value other)
      in (self\<lparr>seg_value := value\<rparr>, changed))"

definition segment_is_as_recent_as :: "session_token_segment \<Rightarrow> session_token_segment \<Rightarrow> bool" where
  "segment_is_as_recent_as self other = stv_is_as_recent_as (seg_value self) (seg_value other)"

definition segment_set_pk_range_id :: "string \<Rightarrow> session_token_segment \<Rightarrow> session_token_segment" where
  "segment_set_pk_range_id i self = self\<lparr>seg_pk_range_id := i\<rparr>"

definition segment_fmt :: "session_token_segment \<Rightarrow> string" where
  "segment_fmt self = seg_pk_range_id self @ '':'' @ stv_fmt (seg_value self)"

text \<open>\<^verbatim>\<open>SessionToken\<close> is a string; its merge walks the segments of both tokens, keeping the order in
  which partition key range ids first occur.\<close>

type_synonym session_token = string

fun session_token_merge_loop ::
  "string list \<Rightarrow> string list \<Rightarrow> (string, session_token_segment) hashmap \<Rightarrow>
   token_error + string list \<times> (string, session_token_segment) hashmap" where
  "session_token_merge_loop [] pk_order pk_map = Inr (pk_order, pk_map)"
| "session_token_merge_loop (raw # rest) pk_order pk_map =
     (let trimmed = trim raw in
      if trimmed = [] then session_token_merge_loop rest pk_order pk_map
      else case segment_from_str trimmed of
        Inl e \<Rightarrow> Inl e
      | Inr seg \<Rightarrow>
          (let pk_id = seg_pk_range_id seg in
           case hm_get pk_map pk_id of
             Some existing \<Rightarrow>
               session_token_merge_loop rest pk_order
                 (hm_insert pk_id (fst (segment_merge_value existing seg)) pk_map)
           | None \<Rightarrow>
               session_token_merge_loop rest (pk_order @ [pk_id]) (hm_insert pk_id seg pk_map)))"

definition session_token_merge :: "session_token \<Rightarrow> session_token \<Rightarrow> token_error + session_token" where
  "session_token_merge self other =
     (case session_token_merge_loop
             (split_char CHR '','' self @ split_char CHR '','' other) [] [] of
        Inl e \<Rightarrow> Inl e
      | Inr (pk_order, pk_map) \<Rightarrow>
          Inr (join_with '','' (map segment_fmt (List.map_filter (hm_get pk_map) pk_order))))"

section \<open>The abstract token\<close>

text \<open>
  What a version vector means: a version, an LSN and a partial map from regions to progress.
  \<^verbatim>\<open>abs_merge\<close> is the contract of the merge in these terms; the loops over hash maps above refine it.
\<close>

type_synonym abs_token = "u64 \<times> u64 \<times> (u64 \<rightharpoonup> u64 option)"

definition vst_abs :: "vector_session_token \<Rightarrow> abs_token" where
  "vst_abs t = (vst_version t, vst_global_lsn t, hm_get (vst_region_progress t))"

definition join_regions :: "(u64 \<rightharpoonup> u64 option) \<Rightarrow> (u64 \<rightharpoonup> u64 option) \<Rightarrow> (u64 \<rightharpoonup> u64 option)" where
  "join_regions m n r =
     (case (m r, n r) of
        (None, y) \<Rightarrow> y | (Some x, None) \<Rightarrow> Some x | (Some x, Some y) \<Rightarrow> Some (max x y))"

definition refresh_regions :: "(u64 \<rightharpoonup> u64 option) \<Rightarrow> (u64 \<rightharpoonup> u64 option) \<Rightarrow> (u64 \<rightharpoonup> u64 option)" where
  "refresh_regions higher lower r =
     (case (higher r, lower r) of
        (None, y) \<Rightarrow> None | (Some x, None) \<Rightarrow> Some x | (Some x, Some y) \<Rightarrow> Some (max x y))"

fun abs_merge :: "abs_token \<Rightarrow> abs_token \<Rightarrow> abs_token" where
  "abs_merge (v1, l1, m1) (v2, l2, m2) =
     (if v1 = v2 then (v1, max l1 l2, join_regions m1 m2)
      else if v1 < v2 then (v2, l2, refresh_regions m2 m1)
      else (v1, l1, refresh_regions m1 m2))"

fun abs_recent :: "abs_token \<Rightarrow> abs_token \<Rightarrow> bool" where
  "abs_recent (v1, l1, m1) (v2, l2, m2) \<longleftrightarrow>
     v2 < v1 \<or> (v1 = v2 \<and> l2 \<le> l1 \<and> (\<forall>r y. m2 r = Some y \<longrightarrow> (\<exists>x. m1 r = Some x \<and> y \<le> x)))"

text \<open>Well-formed vectors: the region map has distinct keys and every LSN is in the signed range
  that the wire format can carry.\<close>

definition lsn_ok :: "u64 option \<Rightarrow> bool" where
  "lsn_ok l = (case l of None \<Rightarrow> True | Some n \<Rightarrow> unat n < 2 ^ 63)"

definition vst_wf :: "vector_session_token \<Rightarrow> bool" where
  "vst_wf t \<longleftrightarrow> hm_wf (vst_region_progress t) \<and> list_all (lsn_ok \<circ> snd) (vst_region_progress t)"

fun stv_wf :: "session_token_value \<Rightarrow> bool" where
  "stv_wf (Simple lsn) = True"
| "stv_wf (Vector v) = vst_wf v"

lemma vst_wf_hm [simp]: "vst_wf t \<Longrightarrow> hm_wf (vst_region_progress t)"
  by (simp add: vst_wf_def)

lemma vst_wf_iff:
  "vst_wf t \<longleftrightarrow> hm_wf (vst_region_progress t) \<and>
     (\<forall>r l. hm_get (vst_region_progress t) r = Some l \<longrightarrow> lsn_ok l)"
  unfolding vst_wf_def by (rule conj_cong [OF refl]) (simp add: list_all_iff hm_get_iff_mem Ball_def)

lemma lsn_ok_max: "lsn_ok x \<Longrightarrow> lsn_ok y \<Longrightarrow> lsn_ok (max x y)"
  by (simp add: max_def)

lemma vst_merge_region_fst:
  "fst (vst_merge_region p s) = hm_upsert (fst p) (\<lambda>x. max x (snd p)) (snd p) (fst s)"
  by (cases p; cases s)
    (auto simp: hm_upsert_def max_def not_le hm_insert_same split: option.splits)

lemma fold_merge_region_fst:
  "fst (fold vst_merge_region kvs s) = hm_upsert_all max kvs (fst s)"
  by (induction kvs arbitrary: s)
    (simp_all add: hm_upsert_all_def vst_merge_region_fst case_prod_beta')

lemma fold_merge_region_get:
  assumes "hm_wf m" "hm_wf kvs"
  shows "hm_get (fst (fold vst_merge_region kvs (m, c))) = join_regions (hm_get m) (hm_get kvs)"
  using assms
  by (auto simp: fun_eq_iff fold_merge_region_fst hm_simps hm_filter_key join_regions_def
      split: option.splits)

lemma fold_merge_region_snd:
  "hm_wf kvs \<Longrightarrow> snd (fold vst_merge_region kvs (m, c)) \<longleftrightarrow>
     c \<or> (\<exists>(r, l) \<in> set kvs. case hm_get m r of None \<Rightarrow> True | Some x \<Rightarrow> x < l)"
proof (induction kvs arbitrary: m c)
  case Nil
  then show ?case by simp
next
  case (Cons p kvs)
  obtain r l where p: "p = (r, l)" by (cases p)
  obtain m' c' where s: "vst_merge_region p (m, c) = (m', c')" by (cases "vst_merge_region p (m, c)")
  have m': "hm_get m' q = hm_get m q" if "q \<noteq> r" for q
    using s that by (auto simp: p hm_simps split: option.splits if_splits)
  have c': "c' \<longleftrightarrow> c \<or> (case hm_get m r of None \<Rightarrow> True | Some x \<Rightarrow> x < l)"
    using s by (auto simp: p split: option.splits if_splits)
  have "r \<notin> fst ` set kvs" using Cons.prems by (simp add: p hm_wf_def)
  then have "(\<exists>(q, l) \<in> set kvs. case hm_get m' q of None \<Rightarrow> True | Some x \<Rightarrow> x < l) \<longleftrightarrow>
      (\<exists>(q, l) \<in> set kvs. case hm_get m q of None \<Rightarrow> True | Some x \<Rightarrow> x < l)"
    by (intro bex_cong refl) (use m' in \<open>force split: option.splits\<close>)
  moreover have "hm_wf kvs" using Cons.prems by (simp add: hm_wf_def)
  ultimately have "snd (fold vst_merge_region kvs (m', c')) \<longleftrightarrow>
      c' \<or> (\<exists>(q, l) \<in> set kvs. case hm_get m q of None \<Rightarrow> True | Some x \<Rightarrow> x < l)"
    using Cons.IH by simp
  moreover have "fold vst_merge_region (p # kvs) (m, c) = fold vst_merge_region kvs (m', c')"
    by (simp only: fold_simps s)
  ultimately show ?case by (auto simp del: fold_simps simp: c' p)
qed

lemma merged_regions_upsert:
  "fold (\<lambda>(r, x) acc. hm_insert r (f r x) acc) kvs acc0 =
   fold (\<lambda>(r, x) acc. hm_insert r (case hm_get acc r of None \<Rightarrow> x | Some _ \<Rightarrow> x) acc)
     (map (\<lambda>(r, x). (r, f r x)) kvs) acc0"
  by (induction kvs arbitrary: acc0) (auto split: option.splits)

lemma vst_merged_regions_get:
  assumes "hm_wf higher"
  shows "hm_wf (vst_merged_regions higher lower) \<and>
    hm_get (vst_merged_regions higher lower) = refresh_regions (hm_get higher) (hm_get lower)"
proof -
  let ?f = "\<lambda>r x. case hm_get lower r of Some y \<Rightarrow> max x y | None \<Rightarrow> x"
  let ?kvs = "map (\<lambda>(r, x). (r, ?f r x)) higher"
  have kvs: "hm_wf ?kvs"
    using assms by (simp add: hm_wf_def case_prod_beta' comp_def)
  have get: "hm_get ?kvs r = map_option (?f r) (hm_get higher r)" for r
    by (induction higher) (auto split: option.splits)
  have eq: "vst_merged_regions higher lower = hm_upsert_all (\<lambda>_ y. y) ?kvs []"
    unfolding vst_merged_regions_def hm_upsert_all_def hm_upsert_def
    by (subst merged_regions_upsert) (simp add: case_prod_beta')
  show ?thesis
    by (auto simp: eq fun_eq_iff hm_simps hm_filter_key [OF kvs] get refresh_regions_def
        split: option.splits)
qed

section \<open>The merge refines its contract\<close>

lemma vst_merge_refines:
  assumes a: "vst_wf a" and b: "vst_wf b"
  shows "vst_abs (fst (vst_merge a b)) = abs_merge (vst_abs a) (vst_abs b)"
proof -
  have ab: "hm_wf (vst_region_progress a)" "hm_wf (vst_region_progress b)"
    using a b by simp_all
  note get = vst_merged_regions_get [OF ab(1)] vst_merged_regions_get [OF ab(2)]
    fold_merge_region_get [OF ab]
  consider "vst_version a = vst_version b" | "vst_version a < vst_version b"
    | "vst_version b < vst_version a" by (rule linorder_cases)
  then show ?thesis
    using get by cases
      (auto simp: vst_merge_def vst_abs_def Let_def max_def case_prod_beta' hm_eq_iff ab)
qed

lemma join_regions_id_at:
  "join_regions m n r = m r \<longleftrightarrow> (\<forall>y. n r = Some y \<longrightarrow> (\<exists>x. m r = Some x \<and> y \<le> x))"
  by (cases "m r"; cases "n r") (auto simp: join_regions_def max_def)

lemma join_regions_id_iff:
  "join_regions m n = m \<longleftrightarrow> (\<forall>r y. n r = Some y \<longrightarrow> (\<exists>x. m r = Some x \<and> y \<le> x))"
  by (simp add: fun_eq_iff join_regions_id_at)

lemma vst_merge_changed:
  assumes a: "vst_wf a" and b: "vst_wf b"
  shows "snd (vst_merge a b) \<longleftrightarrow> vst_abs (fst (vst_merge a b)) \<noteq> vst_abs a"
proof -
  have ab: "hm_wf (vst_region_progress a)" "hm_wf (vst_region_progress b)"
    using a b by simp_all
  show ?thesis
  proof (cases "vst_version a = vst_version b")
    case True
    have "(\<exists>(r, l) \<in> set (vst_region_progress b).
            case hm_get (vst_region_progress a) r of None \<Rightarrow> True | Some x \<Rightarrow> x < l) \<longleftrightarrow>
          join_regions (hm_get (vst_region_progress a)) (hm_get (vst_region_progress b)) \<noteq>
            hm_get (vst_region_progress a)"
      unfolding join_regions_id_iff hm_get_iff_mem [OF ab(2)]
      by (fastforce simp: not_le split: option.splits)
    with True show ?thesis
      by (auto simp: vst_merge_def vst_abs_def Let_def case_prod_beta' fold_merge_region_snd [OF ab(2)]
          fold_merge_region_get [OF ab])
  next
    case False
    with vst_merged_regions_get [OF ab(1)] vst_merged_regions_get [OF ab(2)] show ?thesis
      by (auto simp: vst_merge_def vst_abs_def Let_def hm_eq_iff ab)
  qed
qed

lemma join_regions_ok:
  "(\<And>l. m r = Some l \<Longrightarrow> lsn_ok l) \<Longrightarrow> (\<And>l. n r = Some l \<Longrightarrow> lsn_ok l) \<Longrightarrow>
   join_regions m n r = Some l \<Longrightarrow> lsn_ok l"
  by (cases "m r"; cases "n r") (auto simp: join_regions_def lsn_ok_max)

lemma refresh_regions_ok:
  "(\<And>l. m r = Some l \<Longrightarrow> lsn_ok l) \<Longrightarrow> (\<And>l. n r = Some l \<Longrightarrow> lsn_ok l) \<Longrightarrow>
   refresh_regions m n r = Some l \<Longrightarrow> lsn_ok l"
  by (cases "m r"; cases "n r") (auto simp: refresh_regions_def lsn_ok_max)

lemma abs_merge_ok:
  assumes "\<And>r l. m1 r = Some l \<Longrightarrow> lsn_ok l" and "\<And>r l. m2 r = Some l \<Longrightarrow> lsn_ok l"
    and "snd (snd (abs_merge (v1, l1, m1) (v2, l2, m2))) r = Some l"
  shows "lsn_ok l"
proof -
  have "join_regions m1 m2 r = Some l \<or> refresh_regions m1 m2 r = Some l \<or>
      refresh_regions m2 m1 r = Some l"
    using assms(3) by (simp split: if_splits)
  then show ?thesis
    by (elim disjE) (rule join_regions_ok [OF assms(1,2)] refresh_regions_ok [OF assms(1,2)]
      refresh_regions_ok [OF assms(2,1)], assumption+)+
qed

lemma vst_merge_hm_wf:
  assumes "vst_wf a" "vst_wf b"
  shows "hm_wf (vst_region_progress (fst (vst_merge a b)))"
proof (cases "vst_version a = vst_version b")
  case True
  then show ?thesis
    using assms by (simp add: vst_merge_def case_prod_beta' Let_def fold_merge_region_fst)
next
  case False
  have "hm_wf (vst_merged_regions (vst_region_progress a) (vst_region_progress b))"
    and "hm_wf (vst_merged_regions (vst_region_progress b) (vst_region_progress a))"
    using assms by (simp_all add: vst_merged_regions_get)
  with False assms show ?thesis by (simp add: vst_merge_def Let_def)
qed

lemma vst_merge_wf:
  assumes a: "vst_wf a" and b: "vst_wf b"
  shows "vst_wf (fst (vst_merge a b))"
proof -
  have "lsn_ok l" if "hm_get (vst_region_progress (fst (vst_merge a b))) r = Some l" for r l
  proof (rule abs_merge_ok)
    show "snd (snd (abs_merge (vst_version a, vst_global_lsn a, hm_get (vst_region_progress a))
        (vst_version b, vst_global_lsn b, hm_get (vst_region_progress b)))) r = Some l"
      using that vst_merge_refines [OF a b] by (metis snd_conv vst_abs_def)
  qed (use a b in \<open>auto simp: vst_wf_iff\<close>)
  then show ?thesis
    using vst_merge_hm_wf [OF a b] by (simp add: vst_wf_iff)
qed

section \<open>Recency\<close>

lemma case_option_False_Some:
  "(case x of None \<Rightarrow> False | Some y \<Rightarrow> P y) \<longleftrightarrow> (\<exists>y. x = Some y \<and> P y)"
  by (cases x) simp_all

lemma vst_recent_abs:
  assumes b: "vst_wf b"
  shows "vst_is_as_recent_as a b \<longleftrightarrow> abs_recent (vst_abs a) (vst_abs b)"
proof -
  have "list_all (\<lambda>(r, y). case hm_get (vst_region_progress a) r of Some x \<Rightarrow> x \<ge> y | None \<Rightarrow> False)
      (vst_region_progress b) \<longleftrightarrow>
    (\<forall>r y. hm_get (vst_region_progress b) r = Some y \<longrightarrow>
      (\<exists>x. hm_get (vst_region_progress a) r = Some x \<and> y \<le> x))"
    unfolding list_all_iff hm_get_iff_mem [OF vst_wf_hm [OF b]]
    by (simp add: case_option_False_Some Ball_def)
  then show ?thesis
    by (auto simp: vst_is_as_recent_as_def vst_abs_def)
qed

lemma abs_recent_trans:
  assumes "abs_recent a b" "abs_recent b c"
  shows "abs_recent a c"
proof -
  obtain v1 l1 m1 v2 l2 m2 v3 l3 m3
    where t: "a = (v1, l1, m1)" "b = (v2, l2, m2)" "c = (v3, l3, m3)"
    by (metis prod_cases3)
  have "\<exists>x. m1 r = Some x \<and> z \<le> x"
    if "\<forall>r y. m2 r = Some y \<longrightarrow> (\<exists>x. m1 r = Some x \<and> y \<le> x)"
      "\<forall>r y. m3 r = Some y \<longrightarrow> (\<exists>x. m2 r = Some x \<and> y \<le> x)" "m3 r = Some z" for r z
    using that by (meson order.trans)
  then have "(\<forall>r y. m2 r = Some y \<longrightarrow> (\<exists>x. m1 r = Some x \<and> y \<le> x)) \<Longrightarrow>
      (\<forall>r y. m3 r = Some y \<longrightarrow> (\<exists>x. m2 r = Some x \<and> y \<le> x)) \<Longrightarrow>
      (\<forall>r y. m3 r = Some y \<longrightarrow> (\<exists>x. m1 r = Some x \<and> y \<le> x))"
    by blast
  then show ?thesis
    using assms unfolding t abs_recent.simps by (elim disjE) auto
qed

lemma abs_recent_refl: "abs_recent a a"
  by (cases a) auto

lemma abs_merge_upper: "abs_recent (abs_merge a b) a \<and> abs_recent (abs_merge a b) b"
  by (cases a; cases b)
    (auto simp: join_regions_def refresh_regions_def max_def not_less split: option.splits)

interpretation vst_rec: recency vst_wf vst_is_as_recent_as "\<lambda>a b. fst (vst_merge a b)"
  by unfold_locales
    (auto simp: vst_recent_abs vst_merge_wf vst_merge_refines abs_recent_refl abs_merge_upper
      intro: abs_recent_trans)

lemma stv_merge_wf: "stv_wf a \<Longrightarrow> stv_wf b \<Longrightarrow> stv_wf (fst (stv_merge a b))"
  by (cases a; cases b) (auto simp: case_prod_beta' Let_def vst_merge_wf)

interpretation stv_rec: recency stv_wf stv_is_as_recent_as "\<lambda>a b. fst (stv_merge a b)"
proof unfold_locales
  show "stv_wf a \<Longrightarrow> stv_is_as_recent_as a a" for a
    by (cases a) (auto simp: vst_rec.recent_refl)
  show "stv_wf a \<Longrightarrow> stv_wf b \<Longrightarrow> stv_wf c \<Longrightarrow> stv_is_as_recent_as a b \<Longrightarrow> stv_is_as_recent_as b c \<Longrightarrow>
      stv_is_as_recent_as a c" for a b c
    by (cases a; cases b; cases c) (auto intro: vst_rec.recent_trans)
  show "stv_wf a \<Longrightarrow> stv_wf b \<Longrightarrow> stv_wf (fst (stv_merge a b))" for a b
    by (rule stv_merge_wf)
  show "stv_wf a \<Longrightarrow> stv_wf b \<Longrightarrow> stv_is_as_recent_as (fst (stv_merge a b)) a" for a b
    by (cases a; cases b) (auto simp: case_prod_beta' Let_def vst_rec.join_left vst_rec.recent_refl)
  show "stv_wf a \<Longrightarrow> stv_wf b \<Longrightarrow> stv_is_as_recent_as (fst (stv_merge a b)) b" for a b
    by (cases a; cases b) (auto simp: case_prod_beta' Let_def vst_rec.join_right vst_rec.recent_refl)
qed

section \<open>Printing and parsing\<close>

text \<open>The text of one region, without its leading separator.\<close>

definition region_text :: "u64 \<times> u64 option \<Rightarrow> string" where
  "region_text r = show_u64 (fst r) @ ''='' @ (case snd r of Some v \<Rightarrow> show_u64 v | None \<Rightarrow> ''-1'')"

lemma show_u64_no_sep [str_simps]:
  "CHR ''#'' \<notin> set (show_u64 w)" "CHR ''='' \<notin> set (show_u64 w)" "CHR '':'' \<notin> set (show_u64 w)"
  "CHR '','' \<notin> set (show_u64 w)"
  by (simp_all add: show_u64_def show_nat_no_sep)

lemma show_u64_not_Nil [simp]: "show_u64 w \<noteq> []"
  by (simp add: show_u64_def)

lemma show_u64_no_whitespace: "c \<in> set (show_u64 w) \<Longrightarrow> \<not> is_whitespace c"
  by (simp add: show_u64_def digit_not_whitespace show_nat_digits)

lemma region_text_no_hash: "CHR ''#'' \<notin> set (region_text r)"
  by (auto simp: region_text_def str_simps split: option.splits)

lemma vst_fmt_join:
  "vst_fmt t = join_with ''#'' (show_u64 (vst_version t) # show_u64 (vst_global_lsn t) #
     map region_text (sort_key fst (vst_region_progress t)))"
  by (simp add: vst_fmt_def join_with_concat show_region_def [abs_def] region_text_def [abs_def]
      comp_def)

lemma vst_fmt_split:
  "split_char CHR ''#'' (vst_fmt t) = show_u64 (vst_version t) # show_u64 (vst_global_lsn t) #
     map region_text (sort_key fst (vst_region_progress t))"
  unfolding vst_fmt_join
  by (rule split_join_with) (auto simp: str_simps region_text_no_hash)

lemma parse_i64_minus_one: "parse_i64 ''-1'' = Some (- 1)"
  by (simp add: parse_i64_def parse_signed_def is_ascii_digit_def)

lemma parse_region_text:
  assumes "lsn_ok (snd r)"
  shows "vst_parse_regions (region_text r # parts) acc =
     vst_parse_regions parts (hm_insert (fst r) (snd r) acc)"
proof -
  let ?v = "case snd r of Some v \<Rightarrow> show_u64 v | None \<Rightarrow> ''-1''"
  have "split_once CHR ''='' (region_text r) = Some (show_u64 (fst r), ?v)"
    using split_once_append [of "CHR ''=''" "show_u64 (fst r)" ?v]
    by (simp add: region_text_def str_simps)
  moreover have "region_text r \<noteq> []" by (simp add: region_text_def)
  ultimately show ?thesis
    using assms by (cases "snd r") (simp_all add: lsn_ok_def str_simps parse_i64_minus_one)
qed

lemma parse_region_texts:
  "list_all (lsn_ok \<circ> snd) rs \<Longrightarrow>
   vst_parse_regions (map region_text rs) acc = Inr (fold (\<lambda>(k, v). hm_insert k v) rs acc)"
  by (induction rs arbitrary: acc) (auto simp: parse_region_text simp del: vst_parse_regions.simps(2))

lemma fold_insert_get:
  "hm_wf rs \<Longrightarrow> hm_get (fold (\<lambda>(k, v). hm_insert k v) rs acc) k =
     (case hm_get rs k of None \<Rightarrow> hm_get acc k | Some v \<Rightarrow> Some v)"
proof (induction rs arbitrary: acc)
  case Nil
  then show ?case by simp
next
  case (Cons p rs)
  have "k = fst p \<Longrightarrow> hm_get rs k = None"
    using Cons.prems by (auto simp: hm_wf_def map_of_eq_None_iff)
  with Cons show ?case
    by (cases p) (auto simp: hm_wf_def hm_simps split: option.splits)
qed

lemma fold_insert_wf [simp]: "hm_wf acc \<Longrightarrow> hm_wf (fold (\<lambda>(k, v). hm_insert k v) rs acc)"
  by (induction rs arbitrary: acc) auto

lemma sort_key_hm: 
  "hm_wf m \<Longrightarrow> hm_wf (sort_key f m) \<and> hm_get (sort_key f m) = hm_get m"
  by (simp add: hm_wf_def distinct_map map_of_inject_set)

lemma vst_parse_fmt:
  assumes "vst_wf t"
  shows "\<exists>u. vst_parse (vst_fmt t) = Inr u \<and> vst_wf u \<and> vst_abs u = vst_abs t"
proof -
  let ?rs = "sort_key fst (vst_region_progress t)"
  let ?m = "fold (\<lambda>(k, v). hm_insert k v) ?rs []"
  have wf: "hm_wf ?rs" and get: "hm_get ?rs = hm_get (vst_region_progress t)"
    using assms sort_key_hm by (auto simp: vst_wf_def)
  have "list_all (lsn_ok \<circ> snd) ?rs" using assms by (simp add: vst_wf_def list_all_iff)
  then have "vst_parse (vst_fmt t) = Inr \<lparr>vst_version = vst_version t,
      vst_global_lsn = vst_global_lsn t, vst_region_progress = ?m\<rparr>"
    by (simp add: vst_parse_def vst_fmt_split str_simps parse_region_texts)
  moreover have m: "hm_get ?m = hm_get (vst_region_progress t)"
    by (rule ext) (simp add: fold_insert_get [OF wf] get split: option.splits)
  moreover have "hm_wf ?m" by simp
  ultimately show ?thesis
    using assms by (simp add: vst_wf_iff vst_abs_def)
qed

definition regions_ok :: "(u64, u64 option) hashmap \<Rightarrow> bool" where
  "regions_ok m \<longleftrightarrow> hm_wf m \<and> (\<forall>r l. hm_get m r = Some l \<longrightarrow> lsn_ok l)"

lemma regions_ok_insert: "regions_ok m \<Longrightarrow> lsn_ok l \<Longrightarrow> regions_ok (hm_insert r l m)"
  by (auto simp: regions_ok_def hm_simps)

lemma parse_i64_lsn_ok:
  assumes "parse_i64 s = Some lsn"
  shows "lsn_ok (if lsn < 0 then None else Some (word_of_int lsn))"
proof -
  have "0 \<le> lsn \<Longrightarrow> unat (word_of_int lsn :: u64) < 2 ^ 63"
    using parse_i64_range [OF assms] by (intro unat_word_of_int_less) auto
  then show ?thesis by (simp add: lsn_ok_def)
qed

lemma vst_parse_regions_ok:
  "vst_parse_regions parts acc = Inr m \<Longrightarrow> regions_ok acc \<Longrightarrow> regions_ok m"
proof (induction parts acc rule: vst_parse_regions.induct)
  case (2 segment parts acc)
  show ?case
  proof (cases "segment = []")
    case True
    with 2 show ?thesis by simp
  next
    case False
    with "2.prems" obtain a b r l where eqs: "split_once CHR ''='' segment = Some (a, b)"
        "parse_u64 a = Some r" "parse_i64 b = Some l"
      and rest: "vst_parse_regions parts
        (hm_insert r (if l < 0 then None else Some (word_of_int l)) acc) = Inr m"
      by (auto split: option.splits)
    show ?thesis
      by (rule "2.IH"(2) [OF False eqs(1) refl eqs(2,3) rest])
        (rule regions_ok_insert [OF "2.prems"(2) parse_i64_lsn_ok [OF eqs(3)]])
  qed
qed simp

lemma vst_parse_wf: "vst_parse s = Inr t \<Longrightarrow> vst_wf t"
  by (auto simp: vst_parse_def vst_wf_iff regions_ok_def dest!: vst_parse_regions_ok
      split: list.splits option.splits sum.splits)

lemma stv_parse_wf: "stv_parse s = Inr v \<Longrightarrow> stv_wf v"
  by (auto simp: stv_parse_def vst_parse_wf split: sum.splits option.splits)

text \<open>Two values that no operation of the interface can tell apart.\<close>

fun stv_same :: "session_token_value \<Rightarrow> session_token_value \<Rightarrow> bool" where
  "stv_same (Simple a) (Simple b) \<longleftrightarrow> a = b"
| "stv_same (Vector a) (Vector b) \<longleftrightarrow> vst_abs a = vst_abs b"
| "stv_same _ _ \<longleftrightarrow> False"

lemma stv_same_recent:
  "stv_wf a \<Longrightarrow> stv_wf b \<Longrightarrow> stv_same a b \<Longrightarrow> stv_is_as_recent_as a b \<and> stv_is_as_recent_as b a"
  by (cases a; cases b) (auto simp: vst_recent_abs abs_recent_refl)

lemma vst_parse_show_u64: "\<exists>e. vst_parse (show_u64 w) = Inl e"
  by (simp add: vst_parse_def split_char_no_sep str_simps)

lemma stv_parse_fmt:
  assumes "stv_wf v"
  shows "\<exists>u. stv_parse (stv_fmt v) = Inr u \<and> stv_wf u \<and> stv_same u v"
proof (cases v)
  case (Simple lsn)
  then show ?thesis
    using vst_parse_show_u64 [of lsn] by (auto simp: stv_parse_def str_simps)
next
  case (Vector t)
  with assms obtain u where "vst_parse (vst_fmt t) = Inr u" "vst_wf u" "vst_abs u = vst_abs t"
    using vst_parse_fmt [of t] by auto
  then show ?thesis using Vector by (simp add: stv_parse_def)
qed

section \<open>Compound tokens\<close>

text \<open>The segments of a compound token: the comma-separated pieces that are not blank, each of
  which must parse.\<close>

fun parse_pieces :: "string list \<Rightarrow> token_error + session_token_segment list" where
  "parse_pieces [] = Inr []"
| "parse_pieces (raw # rest) =
     (if trim raw = [] then parse_pieces rest
      else case segment_from_str raw of
        Inl e \<Rightarrow> Inl e
      | Inr seg \<Rightarrow> (case parse_pieces rest of Inl e \<Rightarrow> Inl e | Inr segs \<Rightarrow> Inr (seg # segs)))"

definition token_segments :: "session_token \<Rightarrow> token_error + session_token_segment list" where
  "token_segments s = parse_pieces (split_char CHR '','' s)"

definition seg_join :: "session_token_segment \<Rightarrow> session_token_segment \<Rightarrow> session_token_segment" where
  "seg_join a b = fst (segment_merge_value a b)"

text \<open>The body of the merge loop on a parsed segment.\<close>

fun merge_segment ::
  "session_token_segment \<Rightarrow> string list \<times> (string, session_token_segment) hashmap \<Rightarrow>
   string list \<times> (string, session_token_segment) hashmap" where
  "merge_segment seg (pk_order, pk_map) =
     ((if hm_get pk_map (seg_pk_range_id seg) = None then pk_order @ [seg_pk_range_id seg]
       else pk_order),
      hm_upsert (seg_pk_range_id seg) (\<lambda>old. seg_join old seg) seg pk_map)"

lemma session_token_merge_loop_eq:
  "session_token_merge_loop raws pk_order pk_map =
     (case parse_pieces raws of
        Inl e \<Rightarrow> Inl e
      | Inr segs \<Rightarrow> Inr (fold merge_segment segs (pk_order, pk_map)))"
  by (induction raws arbitrary: pk_order pk_map)
    (auto simp: Let_def segment_from_str_def hm_upsert_def seg_join_def split: sum.splits option.splits)

lemma parse_pieces_append:
  "parse_pieces (xs @ ys) =
     (case parse_pieces xs of
        Inl e \<Rightarrow> Inl e
      | Inr a \<Rightarrow> (case parse_pieces ys of Inl e \<Rightarrow> Inl e | Inr b \<Rightarrow> Inr (a @ b)))"
  by (induction xs) (auto split: sum.splits)

lemma fold_merge_segment_map:
  "snd (fold merge_segment segs s) =
     hm_upsert_all seg_join (map (\<lambda>g. (seg_pk_range_id g, g)) segs) (snd s)"
  by (induction segs arbitrary: s) (auto simp: hm_upsert_all_def)

lemma fold_merge_segment_order:
  assumes "distinct (fst s)" "set (fst s) = dom (hm_get (snd s))"
  shows "distinct (fst (fold merge_segment segs s)) \<and>
    set (fst (fold merge_segment segs s)) = set (fst s) \<union> seg_pk_range_id ` set segs \<and>
    set (fst (fold merge_segment segs s)) = dom (hm_get (snd (fold merge_segment segs s)))"
  using assms
proof (induction segs arbitrary: s)
  case Nil
  then show ?case by simp
next
  case (Cons g segs)
  let ?s = "merge_segment g s"
  have "distinct (fst ?s)" "set (fst ?s) = dom (hm_get (snd ?s))"
    "set (fst ?s) = insert (seg_pk_range_id g) (set (fst s))"
    using Cons.prems by (cases s; auto simp: hm_upsert_def hm_simps dom_def)+
  note step = this
  let ?f = "fold merge_segment segs ?s"
  have "distinct (fst ?f) \<and> set (fst ?f) = set (fst ?s) \<union> seg_pk_range_id ` set segs \<and>
      set (fst ?f) = dom (hm_get (snd ?f))"
    by (rule Cons.IH [OF step(1,2)])
  then show ?case unfolding step(3) by (elim conjE, intro conjI) simp_all
qed

text \<open>Segments as the loop produces them, and what their text parses to.\<close>

definition pk_id_ok :: "string \<Rightarrow> bool" where
  "pk_id_ok i \<longleftrightarrow> CHR '':'' \<notin> set i \<and> CHR '','' \<notin> set i \<and> (i = [] \<or> \<not> is_whitespace (hd i))"

definition seg_ok :: "session_token_segment \<Rightarrow> bool" where
  "seg_ok g \<longleftrightarrow> pk_id_ok (seg_pk_range_id g) \<and> stv_wf (seg_value g)"

definition seg_same :: "session_token_segment \<Rightarrow> session_token_segment \<Rightarrow> bool" where
  "seg_same a b \<longleftrightarrow> seg_pk_range_id a = seg_pk_range_id b \<and> stv_same (seg_value a) (seg_value b)"

lemma segment_from_str_ok:
  assumes "segment_from_str s = Inr g" "CHR '','' \<notin> set s"
  shows "seg_ok g"
proof -
  from assms(1) obtain v where so: "split_once CHR '':'' (trim s) = Some (seg_pk_range_id g, v)"
    and v: "stv_parse v = Inr (seg_value g)"
    by (auto simp: segment_from_str_def split: option.splits sum.splits)
  then have t: "trim s = seg_pk_range_id g @ CHR '':'' # v" and "CHR '':'' \<notin> set (seg_pk_range_id g)"
    by (simp_all add: split_once_Some_iff)
  moreover have "CHR '','' \<notin> set (trim s)" using assms(2) set_trim by blast
  moreover have "seg_pk_range_id g \<noteq> [] \<Longrightarrow> \<not> is_whitespace (hd (seg_pk_range_id g))"
    using trim_ends [of s] by (simp add: t)
  ultimately show ?thesis
    using stv_parse_wf [OF v] by (auto simp: seg_ok_def pk_id_ok_def)
qed

lemma parse_pieces_ok:
  "parse_pieces raws = Inr segs \<Longrightarrow> \<forall>r \<in> set raws. CHR '','' \<notin> set r \<Longrightarrow> \<forall>g \<in> set segs. seg_ok g"
  by (induction raws arbitrary: segs) (auto split: if_splits sum.splits dest: segment_from_str_ok)

lemma token_segments_ok: "token_segments s = Inr segs \<Longrightarrow> \<forall>g \<in> set segs. seg_ok g"
  unfolding token_segments_def by (rule parse_pieces_ok) (auto dest: split_char_pieces)

lemma stv_fmt_chars: "c \<in> set (stv_fmt v) \<Longrightarrow> is_ascii_digit c \<or> c \<in> set ''#=-''"
proof -
  have digits: "c \<in> set (show_u64 w) \<Longrightarrow> is_ascii_digit c" for w
    by (simp add: show_u64_def show_nat_digits)
  have "c \<in> set (show_region r) \<Longrightarrow> is_ascii_digit c \<or> c \<in> set ''#=-''" for r
    using digits by (auto simp: show_region_def is_ascii_digit_def split: option.splits)
  then show "c \<in> set (stv_fmt v) \<Longrightarrow> ?thesis"
    using digits by (cases v) (auto simp: vst_fmt_def)
qed

lemma stv_fmt_no_comma: "CHR '','' \<notin> set (stv_fmt v)"
  using stv_fmt_chars [of "CHR '',''" v] by (auto simp: is_ascii_digit_def)

lemma stv_fmt_no_whitespace: "c \<in> set (stv_fmt v) \<Longrightarrow> \<not> is_whitespace c"
  by (drule stv_fmt_chars) (auto simp: is_ascii_digit_def is_whitespace_def)

lemma stv_fmt_not_Nil [simp]: "stv_fmt v \<noteq> []"
  by (cases v) (simp_all add: vst_fmt_def)

lemma segment_fmt_props:
  assumes "seg_ok g"
  shows "trim (segment_fmt g) = segment_fmt g" "CHR '','' \<notin> set (segment_fmt g)"
    "segment_fmt g \<noteq> []"
proof -
  have "\<not> is_whitespace (last (segment_fmt g))"
    using stv_fmt_no_whitespace [OF last_in_set] by (simp add: segment_fmt_def)
  moreover have "\<not> is_whitespace (hd (segment_fmt g))"
    using assms by (cases "seg_pk_range_id g = []")
      (auto simp: segment_fmt_def seg_ok_def pk_id_ok_def is_whitespace_def)
  ultimately show "trim (segment_fmt g) = segment_fmt g"
    by (intro trim_id) blast
  show "CHR '','' \<notin> set (segment_fmt g)"
    using assms by (auto simp: segment_fmt_def seg_ok_def pk_id_ok_def stv_fmt_no_comma)
  show "segment_fmt g \<noteq> []" by (simp add: segment_fmt_def)
qed

lemma segment_from_str_fmt:
  assumes "seg_ok g"
  shows "\<exists>h. segment_from_str (segment_fmt g) = Inr h \<and> seg_ok h \<and> seg_same h g"
proof -
  have "split_once CHR '':'' (segment_fmt g) = Some (seg_pk_range_id g, stv_fmt (seg_value g))"
    using assms by (simp add: segment_fmt_def seg_ok_def pk_id_ok_def str_simps)
  moreover obtain u where "stv_parse (stv_fmt (seg_value g)) = Inr u" "stv_wf u"
      "stv_same u (seg_value g)"
    using stv_parse_fmt assms by (auto simp: seg_ok_def)
  ultimately show ?thesis
    using assms segment_fmt_props(1) [OF assms]
    by (simp add: segment_from_str_def seg_ok_def seg_same_def)
qed

lemma parse_pieces_fmt:
  "\<forall>g \<in> set segs. seg_ok g \<Longrightarrow>
   \<exists>segs'. parse_pieces (map segment_fmt segs) = Inr segs' \<and>
     list_all2 (\<lambda>h g. seg_ok h \<and> seg_same h g) segs' segs"
proof (induction segs)
  case Nil
  then show ?case by simp
next
  case (Cons g segs)
  then obtain segs' where "parse_pieces (map segment_fmt segs) = Inr segs'"
    "list_all2 (\<lambda>h g. seg_ok h \<and> seg_same h g) segs' segs" by auto
  moreover obtain h where "segment_from_str (segment_fmt g) = Inr h" "seg_ok h" "seg_same h g"
    using segment_from_str_fmt Cons.prems by force
  ultimately show ?case
    using segment_fmt_props [of g] Cons.prems by auto
qed

lemma token_segments_join:
  assumes "\<forall>g \<in> set segs. seg_ok g"
  shows "\<exists>segs'. token_segments (join_with '','' (map segment_fmt segs)) = Inr segs' \<and>
     list_all2 (\<lambda>h g. seg_ok h \<and> seg_same h g) segs' segs"
proof (cases "segs = []")
  case True
  then show ?thesis by (simp add: token_segments_def trim_def trim_start_def)
next
  case False
  then have "split_char CHR '','' (join_with '','' (map segment_fmt segs)) = map segment_fmt segs"
    using assms segment_fmt_props(2) by (intro split_join_with) auto
  then show ?thesis using parse_pieces_fmt [OF assms] by (simp add: token_segments_def)
qed

lemma seg_join_ok: "seg_ok a \<Longrightarrow> seg_ok b \<Longrightarrow> seg_ok (seg_join a b)"
  by (simp add: seg_join_def segment_merge_value_def seg_ok_def case_prod_beta' Let_def stv_merge_wf)

lemma seg_join_id [simp]: "seg_pk_range_id (seg_join a b) = seg_pk_range_id a"
  by (simp add: seg_join_def segment_merge_value_def case_prod_beta' Let_def)

interpretation seg_rec: recency seg_ok segment_is_as_recent_as seg_join
  by unfold_locales
    (auto simp: stv_merge_wf seg_ok_def segment_is_as_recent_as_def seg_join_def
      segment_merge_value_def case_prod_beta' Let_def stv_rec.recent_refl stv_rec.join_left
      stv_rec.join_right intro: stv_rec.recent_trans)

lemma fold_seg_join_id: "seg_pk_range_id (fold (\<lambda>v acc. seg_join acc v) vs x) = seg_pk_range_id x"
  by (induction vs arbitrary: x) simp_all

text \<open>What the merge loop leaves in the map: under each id a segment of that id which is as recent
  as every segment of the input with that id.\<close>

lemma merge_loop_recent:
  assumes ok: "\<forall>g \<in> set segs. seg_ok g" and g: "g \<in> set segs"
  shows "\<exists>z. hm_get (snd (fold merge_segment segs ([], []))) (seg_pk_range_id g) = Some z \<and>
    seg_ok z \<and> segment_is_as_recent_as z g \<and> seg_pk_range_id z = seg_pk_range_id g"
proof -
  let ?i = "seg_pk_range_id g"
  let ?vs = "filter (\<lambda>h. seg_pk_range_id h = ?i) segs"
  have get: "hm_get (snd (fold merge_segment segs ([], []))) ?i = fold_entry seg_join ?vs None"
    by (simp add: fold_merge_segment_map hm_simps filter_map comp_def)
  have "\<exists>z. fold_entry seg_join ?vs None = Some z \<and> seg_ok z \<and> segment_is_as_recent_as z g"
    by (rule seg_rec.fold_entry_recent) (use ok g in auto)
  moreover have "fold_entry seg_join ?vs None = Some z \<Longrightarrow> seg_pk_range_id z = ?i" for z
    using g by (cases ?vs) (auto simp: fold_entry_Some fold_seg_join_id filter_eq_Cons_iff)
  ultimately show ?thesis unfolding get by blast
qed

lemma session_token_merge_eq:
  "session_token_merge a b =
     (case token_segments a of
        Inl e \<Rightarrow> Inl e
      | Inr sa \<Rightarrow>
          (case token_segments b of
             Inl e \<Rightarrow> Inl e
           | Inr sb \<Rightarrow>
               (let (pk_order, pk_map) = fold merge_segment (sa @ sb) ([], [])
                in Inr (join_with '','' (map segment_fmt (List.map_filter (hm_get pk_map) pk_order))))))"
  by (simp add: session_token_merge_def session_token_merge_loop_eq parse_pieces_append
      token_segments_def Let_def case_prod_beta' split: sum.splits)

lemma map_filter_total:
  "\<forall>i \<in> set xs. \<exists>z. f i = Some z \<and> g z = i \<and> P z \<Longrightarrow>
   map g (List.map_filter f xs) = xs \<and> (\<forall>z \<in> set (List.map_filter f xs). P z)"
  by (induction xs) (auto simp: List.map_filter_simps)

lemma mem_map_filter: "i \<in> set xs \<Longrightarrow> f i = Some z \<Longrightarrow> z \<in> set (List.map_filter f xs)"
  by (force simp: List.map_filter_def)

lemma seg_same_map:
  "list_all2 (\<lambda>h g. seg_ok h \<and> seg_same h g) hs gs \<Longrightarrow> map seg_pk_range_id hs = map seg_pk_range_id gs"
  by (induction rule: list_all2_induct) (auto simp: seg_same_def)

lemma seg_same_recent: "seg_ok a \<Longrightarrow> seg_ok b \<Longrightarrow> seg_same a b \<Longrightarrow> segment_is_as_recent_as a b"
  by (simp add: seg_ok_def seg_same_def segment_is_as_recent_as_def stv_same_recent)

lemma session_token_merge_segments:
  assumes sa: "token_segments a = Inr sa" and sb: "token_segments b = Inr sb"
  shows "\<exists>c sc. session_token_merge a b = Inr c \<and> token_segments c = Inr sc \<and>
    distinct (map seg_pk_range_id sc) \<and>
    seg_pk_range_id ` set sc = seg_pk_range_id ` (set sa \<union> set sb) \<and>
    (\<forall>x \<in> set sa \<union> set sb. \<exists>y \<in> set sc.
       seg_pk_range_id y = seg_pk_range_id x \<and> segment_is_as_recent_as y x)"
proof -
  let ?segs = "sa @ sb"
  let ?s = "fold merge_segment ?segs ([], [])"
  let ?zs = "List.map_filter (hm_get (snd ?s)) (fst ?s)"
  have ok: "\<forall>g \<in> set ?segs. seg_ok g"
    using token_segments_ok [OF sa] token_segments_ok [OF sb] by auto
  have ord: "distinct (fst ?s)" "set (fst ?s) = seg_pk_range_id ` set ?segs"
    using fold_merge_segment_order [of "([], [])" ?segs] by auto
  have "\<forall>i \<in> set (fst ?s). \<exists>z. hm_get (snd ?s) i = Some z \<and> seg_pk_range_id z = i \<and> seg_ok z"
    using merge_loop_recent [OF ok] unfolding ord(2) by blast
  then have zs: "map seg_pk_range_id ?zs = fst ?s" "\<forall>z \<in> set ?zs. seg_ok z"
    by (auto dest!: map_filter_total)
  obtain sc where sc: "token_segments (join_with '','' (map segment_fmt ?zs)) = Inr sc"
    and same: "list_all2 (\<lambda>h g. seg_ok h \<and> seg_same h g) sc ?zs"
    using token_segments_join [OF zs(2)] by blast
  have ids: "map seg_pk_range_id sc = fst ?s" using seg_same_map [OF same] zs(1) by simp
  have "\<exists>y \<in> set sc. seg_pk_range_id y = seg_pk_range_id x \<and> segment_is_as_recent_as y x"
    if x: "x \<in> set ?segs" for x
  proof -
    obtain z where z: "hm_get (snd ?s) (seg_pk_range_id x) = Some z" "seg_ok z"
        "segment_is_as_recent_as z x" "seg_pk_range_id z = seg_pk_range_id x"
      using merge_loop_recent [OF ok x] by blast
    have "z \<in> set ?zs" using x z(1) ord(2) by (intro mem_map_filter) auto
    then obtain y where y: "y \<in> set sc" "seg_ok y" "seg_same y z"
      using same by (metis (mono_tags, lifting) in_set_conv_nth list_all2_conv_all_nth)
    have "segment_is_as_recent_as y x"
      using seg_rec.recent_trans [OF y(2) z(2) _ seg_same_recent [OF y(2) z(2) y(3)] z(3)] ok x by simp
    then show ?thesis using y z(4) by (auto simp: seg_same_def)
  qed
  moreover have "session_token_merge a b = Inr (join_with '','' (map segment_fmt ?zs))"
    by (simp add: session_token_merge_eq sa sb Let_def case_prod_beta')
  moreover have "distinct (map seg_pk_range_id sc)" using ids ord(1) by simp
  moreover have "seg_pk_range_id ` set sc = seg_pk_range_id ` (set sa \<union> set sb)"
    using ids ord(2) by (metis list.set_map set_append)
  ultimately show ?thesis using sc by (metis set_append)
qed

section \<open>Properties\<close>

lemmas token_eval =
  parse_u64_def parse_i64_def parse_unsigned_def parse_signed_def is_ascii_digit_def
  is_whitespace_def trim_def trim_start_def stv_parse_def vst_parse_def segment_from_str_def
  token_segments_def

text \<open>C7. Merging session-token values never loses progress: the result of
  \<^verbatim>\<open>SessionTokenValue::merge\<close> is at least as recent (\<^verbatim>\<open>is_as_recent_as\<close>) as the token that was merged
  into and as the token that was merged in, for V1 and V2 tokens in every combination, equal or
  different topology versions included.\<close>

theorem stv_merge_upper_bound:
  assumes "stv_wf a" and "stv_wf b"
  shows "stv_is_as_recent_as (fst (stv_merge a b)) a \<and> stv_is_as_recent_as (fst (stv_merge a b)) b"
  using assms by (simp add: stv_rec.join_left stv_rec.join_right)

theorem stv_merge_upper_bound_witness:
  "let a = Vector \<lparr>vst_version = 1, vst_global_lsn = 100, vst_region_progress = [(1, Some 20), (2, None)]\<rparr>;
       b = Vector \<lparr>vst_version = 2, vst_global_lsn = 50, vst_region_progress = [(1, Some 7)]\<rparr>
   in stv_is_as_recent_as (fst (stv_merge a b)) a \<and> stv_is_as_recent_as (fst (stv_merge a b)) b \<and>
      fst (stv_merge a b) =
        Vector \<lparr>vst_version = 2, vst_global_lsn = 50, vst_region_progress = [(1, Some 20)]\<rparr>"
  using stv_merge_upper_bound
    [of "Vector \<lparr>vst_version = 1, vst_global_lsn = 100, vst_region_progress = [(1, Some 20), (2, None)]\<rparr>"
      "Vector \<lparr>vst_version = 2, vst_global_lsn = 50, vst_region_progress = [(1, Some 7)]\<rparr>"]
  by (simp add: vst_wf_def hm_wf_def lsn_ok_def vst_merge_def vst_merged_regions_def Let_def)

text \<open>C9. \<^verbatim>\<open>VectorSessionToken::merge\<close> implements its contract: with equal versions the LSN and every
  region take the maximum and no region is lost; with different versions the higher version keeps
  its own global LSN (no false progress) and its own set of regions, each at the maximum of the two
  sides; and the returned flag is true exactly when the stored token changed.\<close>

theorem vst_merge_contract:
  assumes "vst_wf a" and "vst_wf b"
  shows "vst_abs (fst (vst_merge a b)) = abs_merge (vst_abs a) (vst_abs b) \<and>
    (snd (vst_merge a b) \<longleftrightarrow> vst_abs (fst (vst_merge a b)) \<noteq> vst_abs a) \<and>
    vst_wf (fst (vst_merge a b))"
  using assms by (simp add: vst_merge_refines vst_merge_wf vst_merge_changed)

theorem vst_merge_contract_witness:
  "let a = \<lparr>vst_version = 3, vst_global_lsn = 10, vst_region_progress = [(1, Some 4), (2, Some 9)]\<rparr>;
       b = \<lparr>vst_version = 3, vst_global_lsn = 8, vst_region_progress = [(2, Some 5), (7, None)]\<rparr>
   in vst_abs (fst (vst_merge a b)) = abs_merge (vst_abs a) (vst_abs b) \<and> snd (vst_merge a b)"
  using vst_merge_contract
    [of "\<lparr>vst_version = 3, vst_global_lsn = 10, vst_region_progress = [(1, Some 4), (2, Some 9)]\<rparr>"
      "\<lparr>vst_version = 3, vst_global_lsn = 8, vst_region_progress = [(2, Some 5), (7, None)]\<rparr>"]
  by (simp add: vst_wf_def hm_wf_def lsn_ok_def vst_merge_def)

text \<open>C32. Printing undoes parsing: every token text that \<^verbatim>\<open>SessionTokenValue::parse\<close> accepts gives a
  value whose \<^verbatim>\<open>Display\<close> text is accepted again, with the same version, LSN and region progress.\<close>

theorem stv_parse_display_parse:
  assumes "stv_parse s = Inr v"
  shows "\<exists>u. stv_parse (stv_fmt v) = Inr u \<and> stv_same u v"
  using stv_parse_fmt [OF stv_parse_wf [OF assms]] by blast

theorem stv_parse_display_parse_witness:
  "\<exists>v u. stv_parse ''1#100#2=-1##1=20'' = Inr v \<and> stv_fmt v = ''1#100#1=20#2=-1'' \<and>
     stv_parse (stv_fmt v) = Inr u \<and> stv_same u v"
proof -
  let ?v = "Vector \<lparr>vst_version = 1, vst_global_lsn = 100, vst_region_progress = [(2, None), (1, Some 20)]\<rparr>"
  have p: "stv_parse ''1#100#2=-1##1=20'' = Inr ?v"
    by (simp add: stv_parse_def vst_parse_def token_eval)
  have "stv_fmt ?v = ''1#100#1=20#2=-1''"
    by (simp add: vst_fmt_def show_region_def show_u64_def show_nat.simps digit_char_eval word_le_nat_alt token_eval)
  with p show ?thesis using stv_parse_display_parse [OF p] by blast
qed

text \<open>\<^verbatim>\<open>SessionToken::merge\<close> on compound tokens fails exactly when a segment of either token does
  not parse, with that segment's error; otherwise the result is again a compound token, it has one
  segment per partition key range id that occurs in either token, and that segment is at least as
  recent as every segment of the inputs with the same id.\<close>

theorem session_token_merge_covers:
  "case (token_segments a, token_segments b) of
     (Inl e, _) \<Rightarrow> session_token_merge a b = Inl e
   | (Inr _, Inl e) \<Rightarrow> session_token_merge a b = Inl e
   | (Inr sa, Inr sb) \<Rightarrow>
       (\<exists>c sc. session_token_merge a b = Inr c \<and> token_segments c = Inr sc \<and>
          distinct (map seg_pk_range_id sc) \<and>
          seg_pk_range_id ` set sc = seg_pk_range_id ` (set sa \<union> set sb) \<and>
          (\<forall>x \<in> set sa \<union> set sb. \<exists>y \<in> set sc.
             seg_pk_range_id y = seg_pk_range_id x \<and> segment_is_as_recent_as y x))"
  using session_token_merge_segments [of a _ b]
  by (auto simp: session_token_merge_eq split: sum.splits)

theorem session_token_merge_covers_witness:
  "(case (token_segments ''0:1#5#1=2, 1:7'', token_segments ''0:1#6'') of
     (Inr sa, Inr sb) \<Rightarrow>
       (\<exists>c sc. session_token_merge ''0:1#5#1=2, 1:7'' ''0:1#6'' = Inr c \<and> token_segments c = Inr sc \<and>
          (\<forall>x \<in> set sa \<union> set sb. \<exists>y \<in> set sc.
             seg_pk_range_id y = seg_pk_range_id x \<and> segment_is_as_recent_as y x))
   | _ \<Rightarrow> False) \<and>
   session_token_merge ''0:1#5#1=2, 1:7'' ''0:1#6'' = Inr ''0:1#6#1=2,1:7''"
proof -
  let ?s0 = "\<lparr>seg_pk_range_id = ''0'', seg_value = Vector \<lparr>vst_version = 1, vst_global_lsn = 5,
      vst_region_progress = [(1, Some 2)]\<rparr>\<rparr>"
  let ?s1 = "\<lparr>seg_pk_range_id = ''1'', seg_value = Simple 7\<rparr>"
  let ?s2 = "\<lparr>seg_pk_range_id = ''0'', seg_value = Vector \<lparr>vst_version = 1, vst_global_lsn = 6,
      vst_region_progress = []\<rparr>\<rparr>"
  have a: "token_segments ''0:1#5#1=2, 1:7'' = Inr [?s0, ?s1]" by (simp add: token_eval)
  have b: "token_segments ''0:1#6'' = Inr [?s2]" by (simp add: token_eval)
  have "session_token_merge ''0:1#5#1=2, 1:7'' ''0:1#6'' = Inr ''0:1#6#1=2,1:7''"
    by (simp add: session_token_merge_eq a b hm_upsert_def seg_join_def segment_merge_value_def
        vst_merge_def List.map_filter_simps segment_fmt_def vst_fmt_def show_region_def
        show_u64_def show_nat.simps digit_char_eval word_le_nat_alt token_eval)
  then show ?thesis
    using session_token_merge_covers [of "''0:1#5#1=2, 1:7''" "''0:1#6''"] unfolding a b sum.case prod.case
    by blast
qed

end
