(* ===== verification/Session_Container.thy ===== *)
theory Session_Container
  imports Session_Token Operation_Types
begin

text \<open>
  The session-token cache and its manager, \<^verbatim>\<open>driver/routing/session_container.rs\<close> and
  \<^verbatim>\<open>driver/routing/session_manager.rs\<close>. The read-write lock protects each operation as a whole, so an
  execution is a sequence of the operations below on one state. The lemmas say what the cache holds
  after a write, that a recreated container never sees its predecessor's tokens, and that along any
  run the cached progress of a partition is at least what was captured for it.
\<close>

section \<open>Containers and the cache\<close>

text \<open>The part of a \<^verbatim>\<open>ContainerReference\<close> the cache reads: names and the resource id.\<close>

record container_reference =
  cref_db_name :: string
  cref_container_name :: string
  cref_container_rid :: string

definition name_based_path :: "container_reference \<Rightarrow> string" where
  "name_based_path c = ''/dbs/'' @ cref_db_name c @ ''/colls/'' @ cref_container_name c"

definition name_path :: "container_reference \<Rightarrow> string" where
  "name_path container = drop 1 (name_based_path container)"

record session_container =
  sc_tokens :: "(string, (string, session_token_value) hashmap) hashmap"
  sc_name_to_rid :: "(string, string) hashmap"

definition session_container_new :: session_container where
  "session_container_new = \<lparr>sc_tokens = [], sc_name_to_rid = []\<rparr>"

definition range_token :: "string \<Rightarrow> session_token_value \<Rightarrow> session_token" where
  "range_token pk_range_id v = pk_range_id @ '':'' @ stv_fmt v"

definition build_composite_token :: "session_container \<Rightarrow> string \<Rightarrow> session_token option" where
  "build_composite_token inner collection_rid =
     (case hm_get (sc_tokens inner) collection_rid of
        None \<Rightarrow> None
      | Some pk_map \<Rightarrow>
          if pk_map = [] then None
          else Some (join_with '',''
                 (map (\<lambda>(pk_range_id, v). range_token pk_range_id v) (sort_key fst pk_map))))"

definition resolve_session_token :: "session_container \<Rightarrow> container_reference \<Rightarrow> session_token option" where
  "resolve_session_token guard container =
     (case build_composite_token guard (cref_container_rid container) of
        Some token \<Rightarrow> Some token
      | None \<Rightarrow>
          (case hm_get (sc_name_to_rid guard) (name_path container) of
             Some resolved_rid \<Rightarrow> build_composite_token guard resolved_rid
           | None \<Rightarrow> None))"

definition lookup_range_token :: "session_container \<Rightarrow> string \<Rightarrow> string \<Rightarrow> session_token option" where
  "lookup_range_token guard pk_range_id rid =
     (case hm_get (sc_tokens guard) rid of
        None \<Rightarrow> None
      | Some pk_map \<Rightarrow> map_option (range_token pk_range_id) (hm_get pk_map pk_range_id))"

definition resolve_session_token_for_range ::
  "session_container \<Rightarrow> container_reference \<Rightarrow> string \<Rightarrow> session_token option" where
  "resolve_session_token_for_range guard container pk_range_id =
     (case lookup_range_token guard pk_range_id (cref_container_rid container) of
        Some token \<Rightarrow> Some token
      | None \<Rightarrow>
          (case hm_get (sc_name_to_rid guard) (name_path container) of
             None \<Rightarrow> None
           | Some resolved_rid \<Rightarrow> lookup_range_token guard pk_range_id resolved_rid))"

fun merge_parents ::
  "(string, session_token_value) hashmap \<Rightarrow> string list \<Rightarrow> session_token_value option \<Rightarrow>
   session_token_value option" where
  "merge_parents pk_map [] merged = merged"
| "merge_parents pk_map (parent # parents) merged =
     (case hm_get pk_map parent of
        None \<Rightarrow> merge_parents pk_map parents merged
      | Some parent_token \<Rightarrow>
          (case merged of
             Some current \<Rightarrow> merge_parents pk_map parents (Some (fst (stv_merge current parent_token)))
           | None \<Rightarrow> merge_parents pk_map parents (Some parent_token)))"

definition resolve_session_token_for_partition_key_range ::
  "session_container \<Rightarrow> container_reference \<Rightarrow> string \<Rightarrow> string list \<Rightarrow> session_token option" where
  "resolve_session_token_for_partition_key_range guard container partition_key_range_id parents =
     (case (case hm_get (sc_tokens guard) (cref_container_rid container) of
              Some pk_map \<Rightarrow> Some pk_map
            | None \<Rightarrow>
                (case hm_get (sc_name_to_rid guard) (name_path container) of
                   None \<Rightarrow> None
                 | Some resolved_rid \<Rightarrow> hm_get (sc_tokens guard) resolved_rid)) of
        None \<Rightarrow> None
      | Some pk_map \<Rightarrow>
          (case hm_get pk_map partition_key_range_id of
             Some token \<Rightarrow> Some (range_token partition_key_range_id token)
           | None \<Rightarrow>
               map_option (range_token partition_key_range_id) (merge_parents pk_map parents None)))"

section \<open>Storing tokens\<close>

fun parse_session_segments ::
  "bool \<Rightarrow> string list \<Rightarrow> token_error + (string \<times> session_token_value) list" where
  "parse_session_segments strict [] = Inr []"
| "parse_session_segments strict (raw # rest) =
     (let segment = trim raw in
      if segment = [] then parse_session_segments strict rest
      else case split_once CHR '':'' segment of
        Some (pk_range_id, token_str) \<Rightarrow>
          (case stv_parse token_str of
             Inr token \<Rightarrow>
               (case parse_session_segments strict rest of
                  Inl e \<Rightarrow> Inl e
                | Inr parsed \<Rightarrow> Inr ((pk_range_id, token) # parsed))
           | Inl e \<Rightarrow> if strict then Inl e else parse_session_segments strict rest)
      | None \<Rightarrow> if strict then Inl MissingColon else parse_session_segments strict rest)"

definition store_parsed_tokens ::
  "container_reference \<Rightarrow> (string \<times> session_token_value) list \<Rightarrow> session_container \<Rightarrow> session_container" where
  "store_parsed_tokens container parsed guard =
     (let collection_rid = cref_container_rid container;
          np = name_path container;
          tokens = (case hm_get (sc_name_to_rid guard) np of
                      Some old_rid \<Rightarrow>
                        if old_rid \<noteq> collection_rid then hm_remove old_rid (sc_tokens guard)
                        else sc_tokens guard
                    | None \<Rightarrow> sc_tokens guard);
          name_to_rid = hm_insert np collection_rid (sc_name_to_rid guard);
          pk_map = (case hm_get tokens collection_rid of Some m \<Rightarrow> m | None \<Rightarrow> []);
          pk_map' = hm_upsert_all (\<lambda>existing new. fst (stv_merge existing new)) parsed pk_map
      in \<lparr>sc_tokens = hm_insert collection_rid pk_map' tokens, sc_name_to_rid = name_to_rid\<rparr>)"

definition set_session_token_inner ::
  "session_container \<Rightarrow> container_reference \<Rightarrow> string \<Rightarrow> bool \<Rightarrow> session_container \<times> (token_error + unit)" where
  "set_session_token_inner guard container session_token_value strict =
     (case parse_session_segments strict (split_char CHR '','' session_token_value) of
        Inl e \<Rightarrow> (guard, Inl e)
      | Inr parsed \<Rightarrow> (store_parsed_tokens container parsed guard, Inr ()))"

definition set_session_token :: "session_container \<Rightarrow> container_reference \<Rightarrow> string \<Rightarrow> session_container" where
  "set_session_token self container session_token_value =
     fst (set_session_token_inner self container session_token_value False)"

definition set_session_token_checked ::
  "session_container \<Rightarrow> container_reference \<Rightarrow> string \<Rightarrow> session_container \<times> (token_error + unit)" where
  "set_session_token_checked self container session_token_value =
     set_session_token_inner self container session_token_value True"

section \<open>The session manager\<close>

text \<open>What the manager reads of an operation and of the response headers.\<close>

record cosmos_operation =
  op_resource_type :: resource_type
  op_operation_type :: operation_type
  op_container :: "container_reference option"

fun is_reading_from_master :: "resource_type \<Rightarrow> operation_type \<Rightarrow> bool" where
  "is_reading_from_master DatabaseAccount operation_type = True"
| "is_reading_from_master Database operation_type = True"
| "is_reading_from_master Offer operation_type = True"
| "is_reading_from_master PartitionKeyRange operation_type = True"
| "is_reading_from_master DocumentCollection operation_type =
     (operation_type = ReadFeed \<or> operation_type = Query \<or> operation_type = SqlQuery)"
| "is_reading_from_master _ operation_type = False"

definition manager_resolve_session_token ::
  "session_container \<Rightarrow> cosmos_operation \<Rightarrow> session_token option \<Rightarrow> string option \<Rightarrow> session_token option" where
  "manager_resolve_session_token self operation user_token pk_range_id =
     (case user_token of
        Some token \<Rightarrow> Some token
      | None \<Rightarrow>
          (case op_container operation of
             None \<Rightarrow> None
           | Some container \<Rightarrow>
               (case pk_range_id of
                  Some i \<Rightarrow> resolve_session_token_for_range self container i
                | None \<Rightarrow> resolve_session_token self container)))"

definition capture_session_token ::
  "session_container \<Rightarrow> cosmos_operation \<Rightarrow> session_token option \<Rightarrow> session_container" where
  "capture_session_token self operation header_token =
     (if is_reading_from_master (op_resource_type operation) (op_operation_type operation) then self
      else case header_token of
        None \<Rightarrow> self
      | Some token \<Rightarrow>
          (case op_container operation of
             None \<Rightarrow> self
           | Some container \<Rightarrow> set_session_token self container token))"

record dtx_operation_result =
  dtxr_index :: nat
  dtxr_status_code :: status_code
  dtxr_session_token :: "session_token option"

text \<open>The error of the distributed-transaction merge carries the operation index and the reason.\<close>

datatype dtx_token_error = DtxTokenRejected nat token_error

fun merge_distributed_transaction_session_tokens ::
  "session_container \<Rightarrow> bool \<Rightarrow> container_reference list \<Rightarrow> dtx_operation_result list \<Rightarrow>
   session_container \<times> (dtx_token_error + unit)" where
  "merge_distributed_transaction_session_tokens self throw_on_malformed operations [] = (self, Inr ())"
| "merge_distributed_transaction_session_tokens self throw_on_malformed operations (result # results) =
     (if dtxr_index result \<ge> length operations then
        merge_distributed_transaction_session_tokens self throw_on_malformed operations results
      else if \<not> status_is_success (dtxr_status_code result) then
        merge_distributed_transaction_session_tokens self throw_on_malformed operations results
      else case dtxr_session_token result of
        None \<Rightarrow> merge_distributed_transaction_session_tokens self throw_on_malformed operations results
      | Some token \<Rightarrow>
          if trim token = [] then
            merge_distributed_transaction_session_tokens self throw_on_malformed operations results
          else
            (case set_session_token_checked self (operations ! dtxr_index result) (trim token) of
               (self', Inl e) \<Rightarrow>
                 if throw_on_malformed then (self', Inl (DtxTokenRejected (dtxr_index result) e))
                 else merge_distributed_transaction_session_tokens self' throw_on_malformed operations results
             | (self', Inr _) \<Rightarrow>
                 merge_distributed_transaction_session_tokens self' throw_on_malformed operations results))"

definition manager_merge_dtx_tokens ::
  "session_container \<Rightarrow> status_code \<Rightarrow> dtx_operation_result list \<Rightarrow> container_reference list \<Rightarrow> bool \<Rightarrow>
   session_container \<times> (dtx_token_error + unit)" where
  "manager_merge_dtx_tokens self response_status operation_results operations is_session_consistency =
     merge_distributed_transaction_session_tokens self
       (status_is_success response_status \<and> is_session_consistency) operations operation_results"

definition resolve_distributed_transaction_session_token ::
  "session_container \<Rightarrow> container_reference \<Rightarrow> (string \<times> string list option) option \<Rightarrow> session_token option" where
  "resolve_distributed_transaction_session_token self container partition_key_range =
     (case (case partition_key_range of
              None \<Rightarrow> None
            | Some (range_id, parents) \<Rightarrow>
                resolve_session_token_for_partition_key_range self container range_id
                  (case parents of None \<Rightarrow> [] | Some ps \<Rightarrow> ps)) of
        Some token \<Rightarrow> Some token
      | None \<Rightarrow> resolve_session_token self container)"

section \<open>The cache invariant\<close>

definition cached :: "session_container \<Rightarrow> string \<Rightarrow> string \<Rightarrow> session_token_value option" where
  "cached sc rid pk = (case hm_get (sc_tokens sc) rid of None \<Rightarrow> None | Some m \<Rightarrow> hm_get m pk)"

definition pk_map_ok :: "(string, session_token_value) hashmap \<Rightarrow> bool" where
  "pk_map_ok m \<longleftrightarrow> hm_wf m \<and> (\<forall>pk v. hm_get m pk = Some v \<longrightarrow> pk_id_ok pk \<and> stv_wf v)"

definition sc_wf :: "session_container \<Rightarrow> bool" where
  "sc_wf sc \<longleftrightarrow> hm_wf (sc_tokens sc) \<and> hm_wf (sc_name_to_rid sc) \<and>
     (\<forall>rid m. hm_get (sc_tokens sc) rid = Some m \<longrightarrow> pk_map_ok m)"

abbreviation stv_join :: "session_token_value \<Rightarrow> session_token_value \<Rightarrow> session_token_value" where
  "stv_join a b \<equiv> fst (stv_merge a b)"

definition values_of :: "string \<Rightarrow> (string \<times> session_token_value) list \<Rightarrow> session_token_value list" where
  "values_of pk parsed = map snd (filter (\<lambda>p. fst p = pk) parsed)"

text \<open>The segments of a header value that a lenient write accepts.\<close>

definition accepted_segments :: "string \<Rightarrow> (string \<times> session_token_value) list" where
  "accepted_segments s =
     (case parse_session_segments False (split_char CHR '','' s) of Inl _ \<Rightarrow> [] | Inr ps \<Rightarrow> ps)"

lemma sc_wf_new: "sc_wf session_container_new"
  by (simp add: sc_wf_def session_container_new_def)

lemma parse_segments_ok:
  "parse_session_segments strict raws = Inr ps \<Longrightarrow> \<forall>r \<in> set raws. CHR '','' \<notin> set r \<Longrightarrow>
   \<forall>(i, v) \<in> set ps. pk_id_ok i \<and> stv_wf v"
proof (induction raws arbitrary: ps)
  case Nil
  then show ?case by simp
next
  case (Cons raw rest)
  have seg: "pk_id_ok i \<and> stv_wf v"
    if "split_once CHR '':'' (trim raw) = Some (i, t)" "stv_parse t = Inr v" for i t v
    using segment_from_str_ok [of raw "\<lparr>seg_pk_range_id = i, seg_value = v\<rparr>"] that Cons.prems(2)
    by (simp add: segment_from_str_def seg_ok_def)
  show ?case
    using Cons.prems Cons.IH seg
    by (fastforce simp: Let_def split: if_splits option.splits sum.splits prod.splits)
qed

lemma parse_segments_strict_lenient:
  "parse_session_segments True raws = Inr ps \<Longrightarrow> parse_session_segments False raws = Inr ps"
  by (induction raws arbitrary: ps) (auto simp: Let_def split: if_splits option.splits sum.splits)

lemma parse_segments_lenient: "\<exists>ps. parse_session_segments False raws = Inr ps"
  by (induction raws) (auto simp: Let_def split: option.splits sum.splits)

lemma accepted_segments_eq:
  "parse_session_segments False (split_char CHR '','' s) = Inr (accepted_segments s)"
  using parse_segments_lenient [of "split_char CHR '','' s"] by (auto simp: accepted_segments_def)

lemma accepted_segments_ok: "\<forall>(i, v) \<in> set (accepted_segments s). pk_id_ok i \<and> stv_wf v"
  by (rule parse_segments_ok [OF accepted_segments_eq]) (auto dest: split_char_pieces)

lemma set_session_token_eq:
  "set_session_token sc c s = store_parsed_tokens c (accepted_segments s) sc"
  by (simp add: set_session_token_def set_session_token_inner_def accepted_segments_eq)

section \<open>What a write stores\<close>

lemma store_names:
  "hm_get (sc_name_to_rid (store_parsed_tokens c ps sc)) =
     (hm_get (sc_name_to_rid sc))(name_path c \<mapsto> cref_container_rid c)"
  by (simp add: store_parsed_tokens_def Let_def hm_simps)

lemma store_tokens_other:
  assumes "rid \<noteq> cref_container_rid c"
  shows "hm_get (sc_tokens (store_parsed_tokens c ps sc)) rid =
    (if hm_get (sc_name_to_rid sc) (name_path c) = Some rid then None else hm_get (sc_tokens sc) rid)"
  using assms by (simp add: store_parsed_tokens_def Let_def hm_simps split: option.splits)

lemma store_tokens_same:
  "hm_get (sc_tokens (store_parsed_tokens c ps sc)) (cref_container_rid c) =
    Some (hm_upsert_all stv_join ps
      (case hm_get (sc_tokens sc) (cref_container_rid c) of Some m \<Rightarrow> m | None \<Rightarrow> []))"
  by (simp add: store_parsed_tokens_def Let_def hm_simps split: option.splits)

lemma store_cached:
  assumes "sc_wf sc"
  shows "cached (store_parsed_tokens c ps sc) rid pk =
    (if rid = cref_container_rid c then fold_entry stv_join (values_of pk ps) (cached sc rid pk)
     else if hm_get (sc_name_to_rid sc) (name_path c) = Some rid then None
     else cached sc rid pk)"
proof -
  have "hm_wf (case hm_get (sc_tokens sc) (cref_container_rid c) of Some m \<Rightarrow> m | None \<Rightarrow> [])"
    using assms by (auto simp: sc_wf_def pk_map_ok_def split: option.splits)
  then show ?thesis
    by (auto simp: cached_def store_tokens_same store_tokens_other hm_simps values_of_def
        split: option.splits)
qed

lemma fold_entry_stv_wf:
  assumes "\<And>x. old = Some x \<Longrightarrow> stv_wf x" "\<forall>x \<in> set vs. stv_wf x" "fold_entry stv_join vs old = Some z"
  shows "stv_wf z"
proof (cases "vs = [] \<and> old = None")
  case True
  then show ?thesis using assms(3) by simp
next
  case False
  then obtain y where "y \<in> set vs \<or> old = Some y"
    by (metis list.set_intros(1) neq_Nil_conv option.exhaust)
  then show ?thesis
    using stv_rec.fold_entry_recent [of old vs y] assms by auto
qed

lemma pk_map_ok_upsert:
  assumes m: "pk_map_ok m" and ps: "\<forall>(i, v) \<in> set ps. pk_id_ok i \<and> stv_wf v"
  shows "pk_map_ok (hm_upsert_all stv_join ps m)"
proof -
  have wf: "hm_wf m" using m by (simp add: pk_map_ok_def)
  have "pk_id_ok pk \<and> stv_wf v" if "hm_get (hm_upsert_all stv_join ps m) pk = Some v" for pk v
  proof
    have get: "fold_entry stv_join (values_of pk ps) (hm_get m pk) = Some v"
      using that wf by (simp add: hm_simps values_of_def)
    show "stv_wf v"
      by (rule fold_entry_stv_wf [OF _ _ get]) (use m ps in \<open>auto simp: pk_map_ok_def values_of_def\<close>)
    show "pk_id_ok pk"
    proof (cases "pk \<in> fst ` set ps")
      case True
      then show ?thesis using ps by auto
    next
      case False
      then have "hm_get m pk = Some v" using that wf by (simp add: hm_get_upsert_all_frame)
      then show ?thesis using m by (simp add: pk_map_ok_def)
    qed
  qed
  then show ?thesis using wf by (simp add: pk_map_ok_def)
qed

lemma store_wf:
  assumes sc: "sc_wf sc" and ps: "\<forall>(i, v) \<in> set ps. pk_id_ok i \<and> stv_wf v"
  shows "sc_wf (store_parsed_tokens c ps sc)"
proof -
  have "pk_map_ok m" if "hm_get (sc_tokens (store_parsed_tokens c ps sc)) rid = Some m" for rid m
  proof (cases "rid = cref_container_rid c")
    case True
    have "pk_map_ok (case hm_get (sc_tokens sc) (cref_container_rid c) of Some m \<Rightarrow> m | None \<Rightarrow> [])"
      using sc by (auto simp: sc_wf_def pk_map_ok_def split: option.splits)
    from pk_map_ok_upsert [OF this ps] that True show ?thesis by (simp add: store_tokens_same)
  next
    case False
    then show ?thesis
      using sc that by (simp add: store_tokens_other sc_wf_def split: if_splits)
  qed
  moreover have "hm_wf (sc_tokens (store_parsed_tokens c ps sc))"
    "hm_wf (sc_name_to_rid (store_parsed_tokens c ps sc))"
    using sc by (auto simp: store_parsed_tokens_def Let_def sc_wf_def split: option.splits)
  ultimately show ?thesis by (simp add: sc_wf_def)
qed

lemma set_session_token_wf: "sc_wf sc \<Longrightarrow> sc_wf (set_session_token sc c s)"
  unfolding set_session_token_eq by (rule store_wf [OF _ accepted_segments_ok])

lemma set_session_token_recent:
  assumes sc: "sc_wf sc"
    and v: "(pk, v) \<in> set (accepted_segments s) \<or> cached sc (cref_container_rid c) pk = Some v"
  shows "\<exists>z. cached (set_session_token sc c s) (cref_container_rid c) pk = Some z \<and>
    stv_wf z \<and> stv_is_as_recent_as z v"
proof -
  have eq: "cached (set_session_token sc c s) (cref_container_rid c) pk =
      fold_entry stv_join (values_of pk (accepted_segments s)) (cached sc (cref_container_rid c) pk)"
    using sc by (simp add: set_session_token_eq store_cached)
  show ?thesis unfolding eq
  proof (rule stv_rec.fold_entry_recent)
    show "stv_wf x" if "cached sc (cref_container_rid c) pk = Some x" for x
      using sc that by (auto simp: cached_def sc_wf_def pk_map_ok_def split: option.splits)
    show "\<forall>x \<in> set (values_of pk (accepted_segments s)). stv_wf x"
      using accepted_segments_ok [of s] by (auto simp: values_of_def)
    show "v \<in> set (values_of pk (accepted_segments s)) \<or> cached sc (cref_container_rid c) pk = Some v"
      using v by (force simp: values_of_def)
  qed
qed

section \<open>What a read resolves\<close>

lemma lookup_range_token_cached:
  "lookup_range_token sc pk rid = map_option (range_token pk) (cached sc rid pk)"
  by (simp add: lookup_range_token_def cached_def split: option.splits)

lemma resolve_for_range_cached:
  "cached sc (cref_container_rid c) pk = Some z \<Longrightarrow>
   resolve_session_token_for_range sc c pk = Some (range_token pk z)"
  by (simp add: resolve_session_token_for_range_def lookup_range_token_cached)

lemma merge_parents_fold_entry:
  "merge_parents m parents acc = fold_entry stv_join (List.map_filter (hm_get m) parents) acc"
  by (induction m parents acc rule: merge_parents.induct)
    (auto simp: List.map_filter_simps split: option.splits)

lemma merge_parents_recent:
  assumes m: "pk_map_ok m" and p: "p \<in> set parents" "hm_get m p = Some v"
  shows "\<exists>z. merge_parents m parents None = Some z \<and> stv_wf z \<and> stv_is_as_recent_as z v"
  unfolding merge_parents_fold_entry
proof (rule stv_rec.fold_entry_recent)
  show "\<forall>x \<in> set (List.map_filter (hm_get m) parents). stv_wf x"
    using m by (auto simp: List.map_filter_def pk_map_ok_def)
  show "v \<in> set (List.map_filter (hm_get m) parents) \<or> None = Some v"
    using mem_map_filter [of p parents "hm_get m" v] p by simp
qed simp

lemma composite_token_segments:
  assumes sc: "sc_wf sc" and m: "hm_get (sc_tokens sc) rid = Some m" and ne: "m \<noteq> []"
  shows "\<exists>tok segs. build_composite_token sc rid = Some tok \<and> token_segments tok = Inr segs \<and>
    map seg_pk_range_id segs = map fst (sort_key fst m) \<and>
    (\<forall>g \<in> set segs. \<exists>v. cached sc rid (seg_pk_range_id g) = Some v \<and> stv_same (seg_value g) v)"
proof -
  have ok: "pk_map_ok m" using sc m by (simp add: sc_wf_def)
  let ?seg = "\<lambda>(i, v). \<lparr>seg_pk_range_id = i, seg_value = v\<rparr>"
  let ?gs = "map ?seg (sort_key fst m)"
  have mem: "(i, v) \<in> set m \<Longrightarrow> hm_get m i = Some v \<and> pk_id_ok i \<and> stv_wf v" for i v
    using ok hm_get_iff_mem [of m i v] by (auto simp: pk_map_ok_def)
  then have "\<forall>g \<in> set ?gs. seg_ok g" by (auto simp: seg_ok_def)
  from token_segments_join [OF this] obtain segs
    where segs: "token_segments (join_with '','' (map segment_fmt ?gs)) = Inr segs"
      and same: "list_all2 (\<lambda>h g. seg_ok h \<and> seg_same h g) segs ?gs" by blast
  have "map segment_fmt ?gs = map (\<lambda>(i, v). range_token i v) (sort_key fst m)"
    by (auto simp: segment_fmt_def range_token_def)
  then have tok: "build_composite_token sc rid = Some (join_with '','' (map segment_fmt ?gs))"
    using m ne by (simp only: build_composite_token_def option.case if_False)
  have ids: "map seg_pk_range_id segs = map fst (sort_key fst m)"
    using seg_same_map [OF same] by (simp add: comp_def case_prod_beta')
  have "\<exists>v. cached sc rid (seg_pk_range_id g) = Some v \<and> stv_same (seg_value g) v"
    if "g \<in> set segs" for g
  proof -
    from that same obtain h where h: "h \<in> set ?gs" "seg_same g h"
      by (metis (mono_tags, lifting) in_set_conv_nth list_all2_conv_all_nth)
    then show ?thesis
      using m mem by (auto simp: cached_def seg_same_def)
  qed
  with segs tok ids show ?thesis by blast
qed

section \<open>Runs\<close>

text \<open>A run of the cache: the containers and header values captured, oldest first.\<close>

definition session_run :: "(container_reference \<times> string) list \<Rightarrow> session_container" where
  "session_run h = fold (\<lambda>(c, s) sc. set_session_token sc c s) h session_container_new"

text \<open>No container of the run was recreated: a name path always comes with the same resource id.\<close>

definition no_recreation :: "(container_reference \<times> string) list \<Rightarrow> bool" where
  "no_recreation h \<longleftrightarrow>
     (\<forall>(c, s) \<in> set h. \<forall>(c', s') \<in> set h.
        name_path c = name_path c' \<longrightarrow> cref_container_rid c = cref_container_rid c')"

lemma session_run_snoc: "session_run (h @ [(c, s)]) = set_session_token (session_run h) c s"
  by (simp add: session_run_def)

lemma session_run_wf: "sc_wf (session_run h)"
  by (induction h rule: rev_induct)
    (auto simp: session_run_snoc set_session_token_wf simp: session_run_def sc_wf_new)

lemma session_run_names:
  "hm_get (sc_name_to_rid (session_run h)) np = Some rid \<Longrightarrow>
   \<exists>(c, s) \<in> set h. name_path c = np \<and> cref_container_rid c = rid"
proof (induction h rule: rev_induct)
  case Nil
  then show ?case by (simp add: session_run_def session_container_new_def)
next
  case (snoc x h)
  obtain c s where x: "x = (c, s)" by (cases x)
  from snoc show ?case
    by (auto simp: x session_run_snoc set_session_token_eq store_names split: if_splits)
qed

lemma session_run_recent:
  assumes "no_recreation h" "(c, s) \<in> set h" "(pk, v) \<in> set (accepted_segments s)"
  shows "\<exists>z. cached (session_run h) (cref_container_rid c) pk = Some z \<and>
    stv_wf z \<and> stv_is_as_recent_as z v"
  using assms
proof (induction h rule: rev_induct)
  case Nil
  then show ?case by simp
next
  case (snoc x h)
  obtain d t where x: "x = (d, t)" by (cases x)
  have nr: "no_recreation h" using snoc.prems(1) by (auto simp: no_recreation_def)
  have wf: "sc_wf (session_run h)" by (rule session_run_wf)
  show ?case
  proof (cases "(c, s) = x")
    case True
    then show ?thesis
      using set_session_token_recent [OF wf] snoc.prems(3) by (auto simp: x session_run_snoc)
  next
    case False
    then obtain z where z: "cached (session_run h) (cref_container_rid c) pk = Some z" "stv_wf z"
        "stv_is_as_recent_as z v"
      using snoc.IH [OF nr] snoc.prems by auto
    show ?thesis
    proof (cases "cref_container_rid c = cref_container_rid d")
      case True
      obtain y where y: "cached (set_session_token (session_run h) d t) (cref_container_rid d) pk = Some y"
          "stv_wf y" "stv_is_as_recent_as y z"
        using set_session_token_recent [OF wf, of pk z t d] z(1) True by auto
      have "stv_wf v" using snoc.prems(3) accepted_segments_ok by auto
      with y z True show ?thesis
        by (metis session_run_snoc stv_rec.recent_trans x)
    next
      case False
      have "hm_get (sc_name_to_rid (session_run h)) (name_path d) \<noteq> Some (cref_container_rid c)"
      proof
        assume "hm_get (sc_name_to_rid (session_run h)) (name_path d) = Some (cref_container_rid c)"
        from session_run_names [OF this] obtain c' s' where
          c': "(c', s') \<in> set h" "name_path c' = name_path d" "cref_container_rid c' = cref_container_rid c"
          by auto
        have "(c', s') \<in> set (h @ [x])" "(d, t) \<in> set (h @ [x])" using c'(1) x by auto
        with snoc.prems(1) c'(2) have "cref_container_rid c' = cref_container_rid d"
          unfolding no_recreation_def by fastforce
        with c'(3) False show False by simp
      qed
      with z False wf show ?thesis
        by (simp add: x session_run_snoc set_session_token_eq store_cached)
    qed
  qed
qed

section \<open>Properties\<close>

text \<open>C10. Read your writes. When an operation on a container that does not read from the master
  partition returns a header token, then the next request to any partition key range of that token
  is sent with a single-range token for that range, built from a value which is at least as recent
  as the segment in the header and as what the cache held before.\<close>

theorem session_read_your_writes:
  assumes "sc_wf sc"
    and "\<not> is_reading_from_master (op_resource_type opn) (op_operation_type opn)"
    and "op_container opn = Some c" and "(pk, v) \<in> set (accepted_segments tok)"
  shows "\<exists>z. manager_resolve_session_token (capture_session_token sc opn (Some tok)) opn None (Some pk) =
      Some (range_token pk z) \<and> stv_is_as_recent_as z v \<and>
    (\<forall>old. cached sc (cref_container_rid c) pk = Some old \<longrightarrow> stv_is_as_recent_as z old)"
proof -
  obtain z where z: "cached (set_session_token sc c tok) (cref_container_rid c) pk = Some z"
      "stv_is_as_recent_as z v"
    using set_session_token_recent [OF assms(1), of pk v tok c] assms(4) by auto
  moreover have "stv_is_as_recent_as z old" if "cached sc (cref_container_rid c) pk = Some old" for old
    using set_session_token_recent [OF assms(1), of pk old tok c] that z(1) by auto
  ultimately show ?thesis
    using assms(2,3)
    by (auto simp: capture_session_token_def manager_resolve_session_token_def resolve_for_range_cached)
qed

theorem session_read_your_writes_witness:
  "\<exists>z. manager_resolve_session_token
        (capture_session_token session_container_new
          \<lparr>op_resource_type = Document, op_operation_type = Create,
           op_container = Some \<lparr>cref_db_name = ''db'', cref_container_name = ''c'', cref_container_rid = ''rid''\<rparr>\<rparr>
          (Some ''0:1#5''))
        \<lparr>op_resource_type = Document, op_operation_type = Create,
           op_container = Some \<lparr>cref_db_name = ''db'', cref_container_name = ''c'', cref_container_rid = ''rid''\<rparr>\<rparr>
        None (Some ''0'') = Some (range_token ''0'' z) \<and>
      stv_is_as_recent_as z (Vector \<lparr>vst_version = 1, vst_global_lsn = 5, vst_region_progress = []\<rparr>)"
proof -
  have "accepted_segments ''0:1#5'' =
      [(''0'', Vector \<lparr>vst_version = 1, vst_global_lsn = 5, vst_region_progress = []\<rparr>)]"
    by (simp add: accepted_segments_def token_eval)
  then show ?thesis
    using session_read_your_writes [OF sc_wf_new, of
        "\<lparr>op_resource_type = Document, op_operation_type = Create,
          op_container = Some \<lparr>cref_db_name = ''db'', cref_container_name = ''c'', cref_container_rid = ''rid''\<rparr>\<rparr>"
        "\<lparr>cref_db_name = ''db'', cref_container_name = ''c'', cref_container_rid = ''rid''\<rparr>"
        "''0''" "Vector \<lparr>vst_version = 1, vst_global_lsn = 5, vst_region_progress = []\<rparr>" "''0:1#5''"]
    by auto
qed

text \<open>C11. Session progress is monotone along a run. Starting from the empty cache, after any sequence
  of captured header tokens in which no container was recreated, the token sent for a partition key
  range of a container is at least as recent as every segment ever captured for it, whatever was
  captured in between for this or for other containers.\<close>

theorem session_run_monotone:
  assumes "no_recreation h" and "(c, s) \<in> set h" and "(pk, v) \<in> set (accepted_segments s)"
  shows "\<exists>z. resolve_session_token_for_range (session_run h) c pk = Some (range_token pk z) \<and>
    stv_is_as_recent_as z v"
  using session_run_recent [OF assms] by (auto intro: resolve_for_range_cached)

theorem session_run_monotone_witness:
  "let c = \<lparr>cref_db_name = ''db'', cref_container_name = ''c'', cref_container_rid = ''rid''\<rparr> in
   \<exists>z. resolve_session_token_for_range (session_run [(c, ''0:7''), (c, ''1:3''), (c, ''0:5'')]) c ''0'' =
        Some (range_token ''0'' z) \<and> stv_is_as_recent_as z (Simple 7)"
proof -
  have "accepted_segments ''0:7'' = [(''0'', Simple 7)]"
    by (simp add: accepted_segments_def token_eval)
  then show ?thesis
    using session_run_monotone
      [of "[(\<lparr>cref_db_name = ''db'', cref_container_name = ''c'', cref_container_rid = ''rid''\<rparr>, ''0:7''),
            (\<lparr>cref_db_name = ''db'', cref_container_name = ''c'', cref_container_rid = ''rid''\<rparr>, ''1:3''),
            (\<lparr>cref_db_name = ''db'', cref_container_name = ''c'', cref_container_rid = ''rid''\<rparr>, ''0:5'')]"
        "\<lparr>cref_db_name = ''db'', cref_container_name = ''c'', cref_container_rid = ''rid''\<rparr>" "''0:7''"
        "''0''" "Simple 7"]
    by (simp add: no_recreation_def Let_def)
qed

text \<open>C19. A recreated container starts afresh: when a write names a container whose name path was bound
  to another resource id, that id's tokens are gone, the name resolves to the new id, a request that
  still carries the old id is answered from the new container's tokens only, and the tokens of every
  other container are untouched.\<close>

theorem recreated_container_isolated:
  assumes "hm_get (sc_name_to_rid sc) (name_path c) = Some old" and "old \<noteq> cref_container_rid c"
    and "name_path c_old = name_path c" and "cref_container_rid c_old = old"
  shows "hm_get (sc_tokens (set_session_token sc c s)) old = None \<and>
    hm_get (sc_name_to_rid (set_session_token sc c s)) (name_path c) = Some (cref_container_rid c) \<and>
    resolve_session_token (set_session_token sc c s) c_old =
      build_composite_token (set_session_token sc c s) (cref_container_rid c) \<and>
    (\<forall>rid. rid \<noteq> old \<and> rid \<noteq> cref_container_rid c \<longrightarrow>
       hm_get (sc_tokens (set_session_token sc c s)) rid = hm_get (sc_tokens sc) rid)"
  using assms
  by (auto simp: set_session_token_eq store_tokens_other store_names resolve_session_token_def
      build_composite_token_def)

theorem recreated_container_isolated_witness:
  "let c_old = \<lparr>cref_db_name = ''db'', cref_container_name = ''c'', cref_container_rid = ''r1''\<rparr>;
       c = \<lparr>cref_db_name = ''db'', cref_container_name = ''c'', cref_container_rid = ''r2''\<rparr>;
       sc = set_session_token session_container_new c_old ''0:9''
   in hm_get (sc_tokens (set_session_token sc c ''0:1'')) ''r1'' = None \<and>
      hm_get (sc_tokens sc) ''r1'' \<noteq> None"
proof -
  let ?c1 = "\<lparr>cref_db_name = ''db'', cref_container_name = ''c'', cref_container_rid = ''r1''\<rparr>"
  let ?c = "\<lparr>cref_db_name = ''db'', cref_container_name = ''c'', cref_container_rid = ''r2''\<rparr>"
  let ?sc = "set_session_token session_container_new ?c1 ''0:9''"
  have np: "name_path ?c1 = name_path ?c" by (simp add: name_path_def name_based_path_def)
  have name: "hm_get (sc_name_to_rid ?sc) (name_path ?c) = Some ''r1''"
    unfolding set_session_token_eq store_names by (simp add: np)
  have "hm_get (sc_tokens ?sc) (cref_container_rid ?c1) \<noteq> None"
    unfolding set_session_token_eq store_tokens_same by simp
  moreover have "hm_get (sc_tokens (set_session_token ?sc ?c ''0:1'')) ''r1'' = None"
    by (rule recreated_container_isolated [OF name _ np, THEN conjunct1]) simp_all
  ultimately show ?thesis by (simp add: Let_def)
qed

text \<open>The composite token sent for a whole container is a faithful copy of the cache: it parses, its
  segments are the cached partition key ranges in increasing order of id, and each segment carries
  the cached version, LSN and region progress.\<close>

theorem composite_token_faithful:
  assumes "sc_wf sc" and "hm_get (sc_tokens sc) (cref_container_rid c) = Some m" and "m \<noteq> []"
  shows "\<exists>tok segs. resolve_session_token sc c = Some tok \<and> token_segments tok = Inr segs \<and>
    map seg_pk_range_id segs = map fst (sort_key fst m) \<and>
    (\<forall>g \<in> set segs. \<exists>v. cached sc (cref_container_rid c) (seg_pk_range_id g) = Some v \<and>
       stv_same (seg_value g) v)"
  using composite_token_segments [OF assms] by (auto simp: resolve_session_token_def)

theorem composite_token_faithful_witness:
  "let c = \<lparr>cref_db_name = ''db'', cref_container_name = ''c'', cref_container_rid = ''rid''\<rparr>;
       sc = \<lparr>sc_tokens = [(''rid'', [(''1'', Simple 3), (''0'', Simple 7)])], sc_name_to_rid = []\<rparr>
   in \<exists>tok segs. resolve_session_token sc c = Some tok \<and> token_segments tok = Inr segs \<and>
        map seg_pk_range_id segs = [''0'', ''1'']"
proof -
  let ?m = "[(''1'', Simple 3), (''0'', Simple 7)]"
  let ?sc = "\<lparr>sc_tokens = [(''rid'', ?m)], sc_name_to_rid = []\<rparr>"
  have wf: "sc_wf ?sc"
    by (auto simp: sc_wf_def pk_map_ok_def hm_wf_def pk_id_ok_def is_whitespace_def split: if_splits)
  have "map fst (sort_key fst ?m) = [''0'', ''1'']" by code_simp
  with composite_token_faithful [OF wf, of
      "\<lparr>cref_db_name = ''db'', cref_container_name = ''c'', cref_container_rid = ''rid''\<rparr>" ?m]
  show ?thesis by (auto simp: Let_def)
qed

text \<open>A freshly split child inherits its parents' progress: when the cache has no token for a range
  but has one for a parent, the resolved token is printed under the child's id and is built from a
  value at least as recent as every parent that has a token.\<close>

theorem split_child_inherits:
  assumes "sc_wf sc" and "hm_get (sc_tokens sc) (cref_container_rid c) = Some m"
    and "hm_get m pk = None" and "p \<in> set parents" and "hm_get m p = Some v"
  shows "\<exists>z. resolve_session_token_for_partition_key_range sc c pk parents = Some (range_token pk z) \<and>
    (\<forall>q \<in> set parents. \<forall>w. hm_get m q = Some w \<longrightarrow> stv_is_as_recent_as z w)"
proof -
  have ok: "pk_map_ok m" using assms(1,2) by (simp add: sc_wf_def)
  obtain z where z: "merge_parents m parents None = Some z"
    using merge_parents_recent [OF ok assms(4,5)] by blast
  moreover have "stv_is_as_recent_as z w" if "q \<in> set parents" "hm_get m q = Some w" for q w
    using merge_parents_recent [OF ok that] z by auto
  ultimately show ?thesis
    using assms(2,3) by (auto simp: resolve_session_token_for_partition_key_range_def)
qed

theorem split_child_inherits_witness:
  "let c = \<lparr>cref_db_name = ''db'', cref_container_name = ''c'', cref_container_rid = ''rid''\<rparr>;
       sc = \<lparr>sc_tokens = [(''rid'', [(''1'', Simple 3), (''0'', Simple 7)])], sc_name_to_rid = []\<rparr>
   in \<exists>z. resolve_session_token_for_partition_key_range sc c ''2'' [''0'', ''1''] =
        Some (range_token ''2'' z) \<and> stv_is_as_recent_as z (Simple 7)"
proof -
  let ?m = "[(''1'', Simple 3), (''0'', Simple 7)]"
  let ?sc = "\<lparr>sc_tokens = [(''rid'', ?m)], sc_name_to_rid = []\<rparr>"
  have wf: "sc_wf ?sc"
    by (auto simp: sc_wf_def pk_map_ok_def hm_wf_def pk_id_ok_def is_whitespace_def split: if_splits)
  show ?thesis
    using split_child_inherits [OF wf, of
      "\<lparr>cref_db_name = ''db'', cref_container_name = ''c'', cref_container_rid = ''rid''\<rparr>" ?m
      "''2''" "''0''" "[''0'', ''1'']" "Simple 7"]
    by (auto simp: Let_def)
qed

text \<open>The strict write is all or nothing: it reports an error exactly when the token has a malformed
  segment, in which case the cache is unchanged, and otherwise it does what the lenient write does.\<close>

theorem checked_write_atomic:
  "(case parse_session_segments True (split_char CHR '','' s) of
      Inl e \<Rightarrow> set_session_token_checked sc c s = (sc, Inl e)
    | Inr ps \<Rightarrow> set_session_token_checked sc c s = (set_session_token sc c s, Inr ()))"
  using parse_segments_strict_lenient [of "split_char CHR '','' s"]
  by (auto simp: set_session_token_checked_def set_session_token_inner_def set_session_token_eq
      accepted_segments_def split: sum.splits)

end
