(* ===== verification/Cosmos_Status.thy ===== *)
theory Cosmos_Status
  imports Session_Container Partition_Failover
begin

text \<open>
  The status of a response and the error type of the driver: \<^verbatim>\<open>CosmosStatus\<close> of
  \<^verbatim>\<open>error/cosmos_status.rs\<close> with its predicates, \<^verbatim>\<open>CosmosError\<close> of \<^verbatim>\<open>error/mod.rs\<close> as far as the
  pipelines read it, \<^verbatim>\<open>RequestSentStatus\<close>, and the outcome of one transport attempt with its
  classification in \<^verbatim>\<open>driver/pipeline/components.rs\<close> and \<^verbatim>\<open>driver/transport/tracked_transport.rs\<close>.

  Status and sub-status codes are numbers; they are compared and never computed with. An error keeps
  its status, the context that tells a service response from a synthetic error, and the Cosmos error
  it wraps; messages, backtraces and diagnostics are left out. Of the response headers the
  fields that the pipelines consult are kept.
\<close>

section \<open>Status codes\<close>

type_synonym sub_status_code = nat

record cosmos_status =
  cs_status_code :: status_code
  cs_sub_status :: "sub_status_code option"

abbreviation (input) SUB_UNKNOWN :: sub_status_code where "SUB_UNKNOWN \<equiv> 0"
abbreviation (input) SUB_WRITE_FORBIDDEN :: sub_status_code where "SUB_WRITE_FORBIDDEN \<equiv> 3"
abbreviation (input) SUB_READ_SESSION_NOT_AVAILABLE :: sub_status_code where "SUB_READ_SESSION_NOT_AVAILABLE \<equiv> 1002"
abbreviation (input) SUB_PARTITION_KEY_RANGE_GONE :: sub_status_code where "SUB_PARTITION_KEY_RANGE_GONE \<equiv> 1002"
abbreviation (input) SUB_CROSS_PARTITION_QUERY :: sub_status_code where "SUB_CROSS_PARTITION_QUERY \<equiv> 1004"
abbreviation (input) SUB_COMPLETING_SPLIT :: sub_status_code where "SUB_COMPLETING_SPLIT \<equiv> 1007"
abbreviation (input) SUB_DATABASE_ACCOUNT_NOT_FOUND :: sub_status_code where "SUB_DATABASE_ACCOUNT_NOT_FOUND \<equiv> 1008"
abbreviation (input) SUB_COMPLETING_PARTITION_MIGRATION :: sub_status_code where
  "SUB_COMPLETING_PARTITION_MIGRATION \<equiv> 1008"
abbreviation (input) SUB_SYSTEM_RESOURCE_UNAVAILABLE :: sub_status_code where "SUB_SYSTEM_RESOURCE_UNAVAILABLE \<equiv> 3092"
abbreviation (input) SUB_DTC_COORDINATOR_RACE_CONFLICT :: sub_status_code where
  "SUB_DTC_COORDINATOR_RACE_CONFLICT \<equiv> 5352"
abbreviation (input) SUB_DTC_LEDGER_FAILURE :: sub_status_code where "SUB_DTC_LEDGER_FAILURE \<equiv> 5411"
abbreviation (input) SUB_DTC_ACCOUNT_CONFIG_FAILURE :: sub_status_code where "SUB_DTC_ACCOUNT_CONFIG_FAILURE \<equiv> 5412"
abbreviation (input) SUB_DTC_DISPATCH_FAILURE :: sub_status_code where "SUB_DTC_DISPATCH_FAILURE \<equiv> 5413"
abbreviation (input) SUB_TRANSPORT_GENERATED_503 :: sub_status_code where "SUB_TRANSPORT_GENERATED_503 \<equiv> 20003"
abbreviation (input) SUB_CLIENT_OPERATION_TIMEOUT :: sub_status_code where "SUB_CLIENT_OPERATION_TIMEOUT \<equiv> 20008"
abbreviation (input) SUB_TRANSPORT_CONNECTION_FAILED :: sub_status_code where "SUB_TRANSPORT_CONNECTION_FAILED \<equiv> 20010"
abbreviation (input) SUB_TRANSPORT_IO_FAILED :: sub_status_code where "SUB_TRANSPORT_IO_FAILED \<equiv> 20011"
abbreviation (input) SUB_TRANSPORT_DNS_FAILED :: sub_status_code where "SUB_TRANSPORT_DNS_FAILED \<equiv> 20012"
abbreviation (input) SUB_TRANSPORT_BODY_READ_FAILED :: sub_status_code where "SUB_TRANSPORT_BODY_READ_FAILED \<equiv> 20014"
abbreviation (input) SUB_TRANSPORT_HTTP2_INCOMPATIBLE :: sub_status_code where "SUB_TRANSPORT_HTTP2_INCOMPATIBLE \<equiv> 20015"
abbreviation (input) SUB_CLIENT_GENERATED_401 :: sub_status_code where "SUB_CLIENT_GENERATED_401 \<equiv> 20401"
abbreviation (input) SUB_AUTHENTICATION_TOKEN_ACQUISITION_FAILED :: sub_status_code where
  "SUB_AUTHENTICATION_TOKEN_ACQUISITION_FAILED \<equiv> 20402"

definition cosmos_status_new :: "status_code \<Rightarrow> cosmos_status" where
  "cosmos_status_new c = \<lparr>cs_status_code = c, cs_sub_status = None\<rparr>"

definition with_sub_status :: "cosmos_status \<Rightarrow> sub_status_code \<Rightarrow> cosmos_status" where
  "with_sub_status self s = self\<lparr>cs_sub_status := Some s\<rparr>"

definition from_parts :: "status_code \<Rightarrow> sub_status_code option \<Rightarrow> cosmos_status" where
  "from_parts c s = \<lparr>cs_status_code = c, cs_sub_status = s\<rparr>"

definition status_is_server_error :: "status_code \<Rightarrow> bool" where
  "status_is_server_error c \<longleftrightarrow> 500 \<le> c \<and> c < 600"

section \<open>Predicates on a status\<close>

definition cosmos_is_success :: "cosmos_status \<Rightarrow> bool" where
  "cosmos_is_success self \<longleftrightarrow> status_is_success (cs_status_code self) \<or> cs_status_code self = 304"

definition is_throttled :: "cosmos_status \<Rightarrow> bool" where
  "is_throttled self \<longleftrightarrow> cs_status_code self = 429"

definition is_retry_with :: "cosmos_status \<Rightarrow> bool" where
  "is_retry_with self \<longleftrightarrow> cs_status_code self = 449"

definition status_is_gone :: "cosmos_status \<Rightarrow> bool" where
  "status_is_gone self \<longleftrightarrow> cs_status_code self = 410"

definition is_not_found :: "cosmos_status \<Rightarrow> bool" where
  "is_not_found self \<longleftrightarrow> cs_status_code self = 404 \<and>
     (case cs_sub_status self of None \<Rightarrow> True | Some s \<Rightarrow> s = SUB_UNKNOWN)"

definition is_conflict :: "cosmos_status \<Rightarrow> bool" where
  "is_conflict self \<longleftrightarrow> cs_status_code self = 409"

definition is_precondition_failed :: "cosmos_status \<Rightarrow> bool" where
  "is_precondition_failed self \<longleftrightarrow> cs_status_code self = 412"

definition is_timeout :: "cosmos_status \<Rightarrow> bool" where
  "is_timeout self \<longleftrightarrow> cs_status_code self = 408"

definition is_bad_request :: "cosmos_status \<Rightarrow> bool" where
  "is_bad_request self \<longleftrightarrow> cs_status_code self = 400"

definition is_unauthorized :: "cosmos_status \<Rightarrow> bool" where
  "is_unauthorized self \<longleftrightarrow> cs_status_code self = 401"

definition is_forbidden :: "cosmos_status \<Rightarrow> bool" where
  "is_forbidden self \<longleftrightarrow> cs_status_code self = 403"

definition is_service_unavailable :: "cosmos_status \<Rightarrow> bool" where
  "is_service_unavailable self \<longleftrightarrow> cs_status_code self = 503"

definition is_transient :: "cosmos_status \<Rightarrow> bool" where
  "is_transient self \<longleftrightarrow> cs_status_code self \<in> {408, 429, 449, 503}"

definition is_write_forbidden :: "cosmos_status \<Rightarrow> bool" where
  "is_write_forbidden self \<longleftrightarrow> cs_status_code self = 403 \<and> cs_sub_status self = Some SUB_WRITE_FORBIDDEN"

definition is_database_account_not_found :: "cosmos_status \<Rightarrow> bool" where
  "is_database_account_not_found self \<longleftrightarrow>
     cs_status_code self = 403 \<and> cs_sub_status self = Some SUB_DATABASE_ACCOUNT_NOT_FOUND"

definition is_read_session_not_available :: "cosmos_status \<Rightarrow> bool" where
  "is_read_session_not_available self \<longleftrightarrow>
     cs_status_code self = 404 \<and> cs_sub_status self = Some SUB_READ_SESSION_NOT_AVAILABLE"

definition is_partition_key_range_gone :: "cosmos_status \<Rightarrow> bool" where
  "is_partition_key_range_gone self \<longleftrightarrow>
     cs_status_code self = 410 \<and> cs_sub_status self = Some SUB_PARTITION_KEY_RANGE_GONE"

definition is_partition_topology_change :: "cosmos_status \<Rightarrow> bool" where
  "is_partition_topology_change self \<longleftrightarrow>
     cs_status_code self = 410 \<and>
     cs_sub_status self \<in> {Some SUB_PARTITION_KEY_RANGE_GONE, Some SUB_COMPLETING_SPLIT,
       Some SUB_COMPLETING_PARTITION_MIGRATION}"

definition is_transport_generated_503 :: "cosmos_status \<Rightarrow> bool" where
  "is_transport_generated_503 self \<longleftrightarrow>
     cs_status_code self = 503 \<and> cs_sub_status self = Some SUB_TRANSPORT_GENERATED_503"

definition is_final_result :: "cosmos_status \<Rightarrow> bool" where
  "is_final_result self =
     (let code = cs_status_code self in
      if code < 400 then True
      else
        let sub = unwrap_or (cs_sub_status self) 0 in
        if code = 403 \<and> sub = 1008 then False
        else code \<in> {400, 401, 403, 405, 409, 412, 413, 422, 451, 501, 505} \<or>
             (code = 404 \<and> sub = 0) \<or>
             (code = 429 \<and> sub \<in> {3200, 3210, 3214}))"

lemmas status_defs =
  cosmos_is_success_def is_throttled_def is_retry_with_def status_is_gone_def is_write_forbidden_def
  is_database_account_not_found_def is_read_session_not_available_def is_partition_topology_change_def
  status_is_success_def status_is_server_error_def

section \<open>Errors and outcomes\<close>

text \<open>A byte of a response body is an eight-bit character.\<close>

type_synonym bytes = "char list"

record response_headers =
  rh_substatus :: "sub_status_code option"
  rh_session_token :: "session_token option"
  rh_partition_key_range_id :: "string option"
  rh_retry_after_ms :: "u64 option"
  rh_continuation :: "string option"
  rh_etag :: "string option"

definition response_headers_default :: response_headers where
  "response_headers_default =
     \<lparr>rh_substatus = None, rh_session_token = None, rh_partition_key_range_id = None, rh_retry_after_ms = None,
      rh_continuation = None, rh_etag = None\<rparr>"

record cosmos_response =
  cr_status :: cosmos_status
  cr_headers :: response_headers
  cr_body :: bytes

datatype error_context =
    Synthetic
  | WirePending bytes response_headers
  | Wire bytes response_headers

datatype cosmos_error =
  CosmosError (err_status: cosmos_status) (err_context: error_context) (err_source: "cosmos_error option")

definition is_from_wire :: "cosmos_error \<Rightarrow> bool" where
  "is_from_wire e \<longleftrightarrow> (case err_context e of Wire _ _ \<Rightarrow> True | _ \<Rightarrow> False)"

definition wire_payload :: "cosmos_error \<Rightarrow> (bytes \<times> response_headers) option" where
  "wire_payload e =
     (case err_context e of
        WirePending body headers \<Rightarrow> Some (body, headers)
      | Wire body headers \<Rightarrow> Some (body, headers)
      | Synthetic \<Rightarrow> None)"

text \<open>Attaching the diagnostics turns a staged response into a wire response.\<close>

definition graft_diagnostics :: "cosmos_error \<Rightarrow> cosmos_error" where
  "graft_diagnostics e =
     (case err_context e of
        WirePending body headers \<Rightarrow> CosmosError (err_status e) (Wire body headers) (err_source e)
      | _ \<Rightarrow> e)"

datatype request_sent_status = Sent | NotSent | SentUnknown

definition may_have_been_sent :: "request_sent_status \<Rightarrow> bool" where
  "may_have_been_sent s \<longleftrightarrow> s \<noteq> NotSent"

definition definitely_sent :: "request_sent_status \<Rightarrow> bool" where
  "definitely_sent s \<longleftrightarrow> s = Sent"

definition definitely_not_sent :: "request_sent_status \<Rightarrow> bool" where
  "definitely_not_sent s \<longleftrightarrow> s = NotSent"

definition infer_request_sent_status :: "cosmos_error \<Rightarrow> request_sent_status" where
  "infer_request_sent_status e =
     (if is_from_wire e then Sent
      else if cs_sub_status (err_status e) \<in>
          {Some SUB_AUTHENTICATION_TOKEN_ACQUISITION_FAILED, Some SUB_CLIENT_GENERATED_401,
           Some SUB_TRANSPORT_CONNECTION_FAILED, Some SUB_TRANSPORT_DNS_FAILED,
           Some SUB_TRANSPORT_HTTP2_INCOMPATIBLE}
      then NotSent
      else SentUnknown)"

datatype transport_outcome =
    TSuccess cosmos_status response_headers bytes
  | HttpError cosmos_status response_headers bytes request_sent_status
  | TransportFailed cosmos_status cosmos_error request_sent_status
  | DeadlineExceeded request_sent_status

definition from_http_response :: "cosmos_status \<Rightarrow> response_headers \<Rightarrow> bytes \<Rightarrow> transport_outcome" where
  "from_http_response status headers body =
     (if cosmos_is_success status then TSuccess status headers body else HttpError status headers body Sent)"

fun result_cosmos_headers :: "transport_outcome \<Rightarrow> response_headers option" where
  "result_cosmos_headers (TSuccess _ headers _) = Some headers"
| "result_cosmos_headers (HttpError _ headers _ _) = Some headers"
| "result_cosmos_headers (TransportFailed _ _ _) = None"
| "result_cosmos_headers (DeadlineExceeded _) = None"

definition map_http_response_payload :: "status_code \<Rightarrow> response_headers \<Rightarrow> bytes \<Rightarrow> transport_outcome" where
  "map_http_response_payload c headers body =
     from_http_response (from_parts c (rh_substatus headers)) headers body"

definition TRANSPORT_GENERATED_503 :: cosmos_status where
  "TRANSPORT_GENERATED_503 = from_parts 503 (Some SUB_TRANSPORT_GENERATED_503)"

definition CLIENT_OPERATION_TIMEOUT :: cosmos_status where
  "CLIENT_OPERATION_TIMEOUT = from_parts 408 (Some SUB_CLIENT_OPERATION_TIMEOUT)"

definition transport_error_result :: "cosmos_error \<Rightarrow> bool \<Rightarrow> transport_outcome" where
  "transport_error_result e headers_received =
     TransportFailed TRANSPORT_GENERATED_503 e
       (if headers_received then Sent else infer_request_sent_status e)"

section \<open>Facts\<close>

lemma graft_status [simp]: "err_status (graft_diagnostics e) = err_status e"
  by (cases "err_context e") (simp_all add: graft_diagnostics_def)

lemma graft_payload [simp]: "wire_payload (graft_diagnostics e) = wire_payload e"
  by (cases "err_context e") (simp_all add: graft_diagnostics_def wire_payload_def)

lemma graft_from_wire: "is_from_wire (graft_diagnostics e) \<longleftrightarrow> wire_payload e \<noteq> None"
  by (cases "err_context e") (simp_all add: graft_diagnostics_def wire_payload_def is_from_wire_def)

text \<open>A status that the retry handlers act on is never a success.\<close>

lemma handled_not_success:
  "is_write_forbidden s \<or> is_database_account_not_found s \<or> is_read_session_not_available s \<or>
   is_retry_with s \<or> is_throttled s \<or> status_is_gone s \<or> status_is_server_error (cs_status_code s) \<Longrightarrow>
   \<not> cosmos_is_success s"
  by (auto simp: status_defs)

end
