(* ===== verification/Retry_State.thy ===== *)
theory Retry_State
  imports Cosmos_Status
begin

text \<open>
  The retry state of an operation, of a 449 sequence and of the throttling loop:
  \<^verbatim>\<open>driver/pipeline/components.rs\<close> and \<^verbatim>\<open>driver/jitter.rs\<close>.

  The counters are 32-bit words. The backoff factors of the sources are the double 2.0 raised to the
  attempt count; here they are natural numbers, so the delays are the exact products, which the
  rounding of the doubles approximates to a nanosecond in the range the caps allow. \<^verbatim>\<open>Duration::mul_f64\<close> and
  \<^verbatim>\<open>Duration::from_secs_f64\<close> panic when the product is not a \<^verbatim>\<open>Duration\<close>: the throttling fallback, whose
  attempt count has no fixed bound, returns \<open>None\<close> there. For the 449 backoff the lemma
  \<open>retry_with_product_fits\<close> shows that no such panic can happen. The random salt and the jitter seed are
  arguments. The shared latch of a hedge race is the value of its cell.
\<close>

section \<open>Durations\<close>

text \<open>The first duration that does not fit: the seconds of a \<^verbatim>\<open>Duration\<close> are a \<^verbatim>\<open>u64\<close>.\<close>

definition DURATION_LIMIT :: nat where
  "DURATION_LIMIT = 2 ^ 64 * 1000000000"

definition checked_duration :: "nat \<Rightarrow> duration option" where
  "checked_duration d = (if d < DURATION_LIMIT then Some d else None)"

section \<open>Jitter\<close>

text \<open>\<^verbatim>\<open>splitmix64_unit\<close> as the numerator over \<^verbatim>\<open>u64::MAX\<close>; the ratio in percent.\<close>

definition splitmix64_unit :: "u64 \<Rightarrow> nat" where
  "splitmix64_unit x = unat (splitmix_finalize (x + 0x9E3779B97F4A7C15))"

definition with_jitter :: "u64 \<Rightarrow> duration \<Rightarrow> nat \<Rightarrow> duration" where
  "with_jitter seed delay ratio =
     (let jitter_ratio = min ratio 100 in
      if jitter_ratio = 0 \<or> delay = 0 then delay
      else delay * ((100 - jitter_ratio) * (2 ^ 64 - 1) + 2 * jitter_ratio * splitmix64_unit seed)
           div (100 * (2 ^ 64 - 1)))"

section \<open>Retries of a 449\<close>

record retry_with_state =
  rws_attempt_count :: u32
  rws_cumulative_delay :: duration
  rws_initial_delay :: duration
  rws_max_per_retry_delay :: duration
  rws_max_total_wait :: duration
  rws_backoff_factor :: nat
  rws_salt_max_millis :: u64

definition retry_with_new :: retry_with_state where
  "retry_with_new =
     \<lparr>rws_attempt_count = 0, rws_cumulative_delay = 0, rws_initial_delay = from_millis 10,
      rws_max_per_retry_delay = from_secs 1, rws_max_total_wait = from_secs 30,
      rws_backoff_factor = 2, rws_salt_max_millis = 5\<rparr>"

definition base_delay :: "retry_with_state \<Rightarrow> duration" where
  "base_delay self =
     min (rws_initial_delay self * rws_backoff_factor self ^ unat (rws_attempt_count self))
       (rws_max_per_retry_delay self)"

definition next_delay :: "u64 \<Rightarrow> retry_with_state \<Rightarrow> duration" where
  "next_delay random self =
     (if rws_salt_max_millis self = 0 then base_delay self
      else min (base_delay self + from_millis (unat (random mod rws_salt_max_millis self)))
             (rws_max_per_retry_delay self))"

definition retry_with_can_retry :: "retry_with_state \<Rightarrow> duration \<Rightarrow> bool" where
  "retry_with_can_retry self delay \<longleftrightarrow> rws_cumulative_delay self + delay \<le> rws_max_total_wait self"

definition advance_with_delay :: "retry_with_state \<Rightarrow> duration \<Rightarrow> retry_with_state" where
  "advance_with_delay self delay =
     self\<lparr>rws_attempt_count := rws_attempt_count self + 1,
          rws_cumulative_delay := rws_cumulative_delay self + delay\<rparr>"

section \<open>The retry state of an operation\<close>

datatype session_retry_routing = PreferredEndpoints | PreferredWriteEndpoints

record operation_retry_state =
  ors_location :: location_index
  ors_failover_retry_count :: u32
  ors_session_token_retry_count :: u32
  ors_retry_with_state :: "retry_with_state option"
  ors_backend_failover_retry_count :: u32
  ors_dtx_coordinator_retry_count :: u32
  ors_dtx_infra_retry_count :: u32
  ors_max_failover_retries :: u32
  ors_max_backend_failover_retries :: u32
  ors_max_session_retries :: u32
  ors_can_use_multiple_write_locations :: bool
  ors_is_dataplane :: bool
  ors_hub_region_processing_only :: bool
  ors_shared_hub_region_latch :: "bool option"
  ors_excluded_regions :: "region list"
  ors_session_retry_routing :: session_retry_routing
  ors_partition_key_range_id :: "pk_range_id option"
  ors_ppaf_write_retry_allowed :: bool
  ors_ppcb_active :: bool
  ors_pending_write_effects :: "location_effect list"
  ors_hedge_already_fired :: bool

definition MAX_BACKEND_FAILOVER_RETRIES :: u32 where "MAX_BACKEND_FAILOVER_RETRIES = 120"
definition BACKEND_FAILOVER_RETRY_INTERVAL :: duration where "BACKEND_FAILOVER_RETRY_INTERVAL = from_millis 1000"
definition MAX_DTX_COORDINATOR_RETRIES :: u32 where "MAX_DTX_COORDINATOR_RETRIES = 10"
definition MAX_DTX_INFRA_RETRIES :: u32 where "MAX_DTX_INFRA_RETRIES = 9"
definition DTX_COORDINATOR_RETRY_INTERVAL :: duration where "DTX_COORDINATOR_RETRY_INTERVAL = from_secs 1"
definition DTX_INFRA_BASE_BACKOFF :: duration where "DTX_INFRA_BASE_BACKOFF = from_millis 100"
definition DTX_INFRA_MAX_BACKOFF :: duration where "DTX_INFRA_MAX_BACKOFF = from_secs 5"
definition DTX_INFRA_MAX_EXPONENT :: u32 where "DTX_INFRA_MAX_EXPONENT = 6"

definition retry_state_initial :: "u64 \<Rightarrow> bool \<Rightarrow> region list \<Rightarrow> u32 \<Rightarrow> u32 \<Rightarrow> operation_retry_state" where
  "retry_state_initial generation can_use_multiple_write_locations excluded_regions max_failover_retries
       max_session_retries =
     \<lparr>ors_location = location_index_initial generation,
      ors_failover_retry_count = 0,
      ors_session_token_retry_count = 0,
      ors_retry_with_state = None,
      ors_backend_failover_retry_count = 0,
      ors_dtx_coordinator_retry_count = 0,
      ors_dtx_infra_retry_count = 0,
      ors_max_failover_retries = max_failover_retries,
      ors_max_backend_failover_retries = MAX_BACKEND_FAILOVER_RETRIES,
      ors_max_session_retries = max_session_retries,
      ors_can_use_multiple_write_locations = can_use_multiple_write_locations,
      ors_is_dataplane = False,
      ors_hub_region_processing_only = False,
      ors_shared_hub_region_latch = None,
      ors_excluded_regions = excluded_regions,
      ors_session_retry_routing = PreferredEndpoints,
      ors_partition_key_range_id = None,
      ors_ppaf_write_retry_allowed = False,
      ors_ppcb_active = False,
      ors_pending_write_effects = [],
      ors_hedge_already_fired = False\<rparr>"

definition can_retry_failover :: "operation_retry_state \<Rightarrow> bool" where
  "can_retry_failover self \<longleftrightarrow> ors_failover_retry_count self < ors_max_failover_retries self"

definition can_retry_backend_failover :: "operation_retry_state \<Rightarrow> bool" where
  "can_retry_backend_failover self \<longleftrightarrow>
     ors_backend_failover_retry_count self < ors_max_backend_failover_retries self"

definition can_retry_dtx_coordinator :: "operation_retry_state \<Rightarrow> bool" where
  "can_retry_dtx_coordinator self \<longleftrightarrow> ors_dtx_coordinator_retry_count self < MAX_DTX_COORDINATOR_RETRIES"

definition can_retry_dtx_infra :: "operation_retry_state \<Rightarrow> bool" where
  "can_retry_dtx_infra self \<longleftrightarrow> ors_dtx_infra_retry_count self < MAX_DTX_INFRA_RETRIES"

definition with_shared_hub_region_latch :: "operation_retry_state \<Rightarrow> bool \<Rightarrow> operation_retry_state" where
  "with_shared_hub_region_latch self latch = self\<lparr>ors_shared_hub_region_latch := Some latch\<rparr>"

definition can_retry_session :: "operation_retry_state \<Rightarrow> bool" where
  "can_retry_session self \<longleftrightarrow> ors_session_token_retry_count self < ors_max_session_retries self"

definition advance_failover :: "operation_retry_state \<Rightarrow> operation_retry_state" where
  "advance_failover self =
     self\<lparr>ors_failover_retry_count := ors_failover_retry_count self + 1,
          ors_session_retry_routing := PreferredEndpoints\<rparr>"

definition advance_backend_failover :: "operation_retry_state \<Rightarrow> operation_retry_state" where
  "advance_backend_failover self =
     self\<lparr>ors_backend_failover_retry_count := ors_backend_failover_retry_count self + 1,
          ors_session_retry_routing := PreferredEndpoints\<rparr>"

definition advance_dtx_coordinator_retry :: "operation_retry_state \<Rightarrow> operation_retry_state" where
  "advance_dtx_coordinator_retry self =
     self\<lparr>ors_dtx_coordinator_retry_count := ors_dtx_coordinator_retry_count self + 1\<rparr>"

definition advance_dtx_infra_retry :: "operation_retry_state \<Rightarrow> operation_retry_state" where
  "advance_dtx_infra_retry self =
     self\<lparr>ors_dtx_infra_retry_count := ors_dtx_infra_retry_count self + 1\<rparr>"

definition advance_session_retry :: "operation_retry_state \<Rightarrow> operation_retry_state" where
  "advance_session_retry self =
     self\<lparr>ors_session_token_retry_count := ors_session_token_retry_count self + 1,
          ors_session_retry_routing :=
            (if ors_can_use_multiple_write_locations self then PreferredEndpoints else PreferredWriteEndpoints)\<rparr>"

definition advance_location :: "operation_retry_state \<Rightarrow> nat \<Rightarrow> u64 \<Rightarrow> operation_retry_state" where
  "advance_location self list_len generation =
     self\<lparr>ors_location := next_for_generation (ors_location self) list_len generation\<rparr>"

definition route_reads_to_write_endpoints :: "operation_retry_state \<Rightarrow> bool" where
  "route_reads_to_write_endpoints self \<longleftrightarrow> ors_session_retry_routing self = PreferredWriteEndpoints"

definition advance_retry_with_delay :: "operation_retry_state \<Rightarrow> duration \<Rightarrow> operation_retry_state" where
  "advance_retry_with_delay self delay =
     self\<lparr>ors_retry_with_state :=
       Some (advance_with_delay (unwrap_or (ors_retry_with_state self) retry_with_new) delay)\<rparr>"

section \<open>The throttling loop\<close>

record throttle_retry_state =
  trs_attempt_count :: u32
  trs_max_attempts :: u32
  trs_cumulative_delay :: duration
  trs_max_wait_time :: duration
  trs_max_per_retry_delay :: duration
  trs_fallback_base_delay :: duration
  trs_backoff_factor :: nat
  trs_backoff_jitter_ratio :: nat
  trs_forced_final_retry_used :: bool

definition METADATA_MAX_THROTTLE_ATTEMPTS :: u32 where "METADATA_MAX_THROTTLE_ATTEMPTS = 9"
definition METADATA_MAX_THROTTLE_WAIT :: duration where "METADATA_MAX_THROTTLE_WAIT = from_secs 30"
definition METADATA_MAX_PER_RETRY_DELAY :: duration where "METADATA_MAX_PER_RETRY_DELAY = from_secs 5"
definition DATA_PLANE_MAX_THROTTLE_ATTEMPTS :: u32 where "DATA_PLANE_MAX_THROTTLE_ATTEMPTS = 18"
definition DATA_PLANE_MAX_PER_RETRY_DELAY :: duration where "DATA_PLANE_MAX_PER_RETRY_DELAY = from_secs 15"
definition DATA_PLANE_MAX_THROTTLE_WAIT :: duration where
  "DATA_PLANE_MAX_THROTTLE_WAIT = DATA_PLANE_MAX_PER_RETRY_DELAY * unat DATA_PLANE_MAX_THROTTLE_ATTEMPTS"

definition with_limits :: "u32 \<Rightarrow> duration \<Rightarrow> duration \<Rightarrow> throttle_retry_state" where
  "with_limits max_attempts max_wait_time max_per_retry_delay =
     \<lparr>trs_attempt_count = 0, trs_max_attempts = max_attempts, trs_cumulative_delay = 0,
      trs_max_wait_time = max_wait_time, trs_max_per_retry_delay = max_per_retry_delay,
      trs_fallback_base_delay = from_millis 5, trs_backoff_factor = 2, trs_backoff_jitter_ratio = 25,
      trs_forced_final_retry_used = False\<rparr>"

definition can_use_forced_final_retry :: "throttle_retry_state \<Rightarrow> bool" where
  "can_use_forced_final_retry self \<longleftrightarrow> \<not> trs_forced_final_retry_used self"

definition mark_forced_final_retry_used :: "throttle_retry_state \<Rightarrow> throttle_retry_state" where
  "mark_forced_final_retry_used self = self\<lparr>trs_forced_final_retry_used := True\<rparr>"

definition fallback_exponential_delay :: "throttle_retry_state \<Rightarrow> duration option" where
  "fallback_exponential_delay self =
     checked_duration (trs_fallback_base_delay self * trs_backoff_factor self ^ unat (trs_attempt_count self))"

definition fallback_delay :: "u64 \<Rightarrow> throttle_retry_state \<Rightarrow> duration option" where
  "fallback_delay seed self =
     (case fallback_exponential_delay self of
        None \<Rightarrow> None
      | Some base \<Rightarrow>
          let ratio = min (trs_backoff_jitter_ratio self) 100 in
          if ratio = 0 \<or> base = 0 then Some base
          else checked_duration (with_jitter seed base ratio))"

text \<open>The outer \<open>None\<close> is a panic of the fallback, the inner one an exhausted budget.\<close>

definition next_throttle_retry ::
  "u64 \<Rightarrow> throttle_retry_state \<Rightarrow> u64 option \<Rightarrow> (duration \<times> throttle_retry_state) option option" where
  "next_throttle_retry seed self retry_after_ms =
     (if trs_max_attempts self \<le> trs_attempt_count self then Some None
      else
        case (case retry_after_ms of
                Some ms \<Rightarrow> Some (from_millis (unat ms))
              | None \<Rightarrow> fallback_delay seed self) of
          None \<Rightarrow> None
        | Some requested \<Rightarrow>
            let delay = min requested (trs_max_per_retry_delay self);
                new_cumulative = trs_cumulative_delay self + delay
            in if trs_max_wait_time self < new_cumulative then Some None
               else Some (Some (delay,
                 self\<lparr>trs_attempt_count := trs_attempt_count self + 1,
                      trs_cumulative_delay := new_cumulative\<rparr>)))"

section \<open>Counters\<close>

lemma unat_inc_below:
  fixes n :: "'a::len word"
  assumes "n < m"
  shows "unat (n + 1) = Suc (unat n)"
proof -
  have "Suc (unat n) < 2 ^ LENGTH('a)"
    using assms unsigned_less[of m, where 'a = nat] by (simp only: word_less_nat_alt)
  then show ?thesis by (simp add: unat_plus_if')
qed

lemma inc_below_le:
  fixes n :: "'a::len word"
  assumes "n < m"
  shows "n + 1 \<le> m"
  using assms by (simp add: inc_le)

section \<open>A sequence of 449 responses\<close>

text \<open>The delays slept when the service answers 449 once per random number, until the budget is
  exhausted.\<close>

fun retry_with_run :: "u64 list \<Rightarrow> retry_with_state \<Rightarrow> duration list" where
  "retry_with_run [] self = []"
| "retry_with_run (random # randoms) self =
     (let delay = next_delay random self in
      if retry_with_can_retry self delay
      then delay # retry_with_run randoms (advance_with_delay self delay)
      else [])"

text \<open>The bare backoff of the \<open>n\<close>-th retry, and the least and greatest sum of the first \<open>n\<close> delays.\<close>

definition backoff :: "nat \<Rightarrow> duration" where
  "backoff n = min (from_millis 10 * 2 ^ n) (from_secs 1)"

definition salted :: "nat \<Rightarrow> duration" where
  "salted n = min (backoff n + from_millis 4) (from_secs 1)"

primrec least_wait :: "nat \<Rightarrow> duration" where
  "least_wait 0 = 0"
| "least_wait (Suc n) = least_wait n + backoff n"

primrec greatest_wait :: "nat \<Rightarrow> duration" where
  "greatest_wait 0 = 0"
| "greatest_wait (Suc n) = greatest_wait n + salted n"

definition retry_with_at :: "nat \<Rightarrow> duration \<Rightarrow> retry_with_state" where
  "retry_with_at n c = retry_with_new\<lparr>rws_attempt_count := of_nat n, rws_cumulative_delay := c\<rparr>"

lemma greatest_wait_mono: "m \<le> n \<Longrightarrow> greatest_wait m \<le> greatest_wait n"
  by (induction n) (auto simp: le_Suc_eq)

text \<open>From the eighth retry on every delay is one second.\<close>

lemma waits_after_seven:
  "least_wait (7 + k) = from_millis 1270 + k * from_secs 1"
  "greatest_wait (7 + k) = from_millis 1298 + k * from_secs 1"
proof -
  have seven: "7 = Suc (Suc (Suc (Suc (Suc (Suc (Suc 0))))))" by simp
  have sec: "backoff (7 + k) = from_secs 1" "salted (7 + k) = from_secs 1" for k
  proof -
    have "128 * 1 \<le> (2 :: nat) ^ 7 * 2 ^ k" by (rule mult_mono) simp_all
    then have "1000000000 \<le> from_millis 10 * 2 ^ (7 + k)"
      unfolding power_add from_millis_def by linarith
    then show "backoff (7 + k) = from_secs 1" "salted (7 + k) = from_secs 1"
      by (simp_all add: backoff_def salted_def from_secs_def min_def)
  qed
  have base: "least_wait 7 = from_millis 1270" "greatest_wait 7 = from_millis 1298"
    unfolding seven by (simp_all add: backoff_def salted_def from_millis_def from_secs_def)
  show "least_wait (7 + k) = from_millis 1270 + k * from_secs 1"
    "greatest_wait (7 + k) = from_millis 1298 + k * from_secs 1"
    by (induction k)
       (simp_all only: base sec add_Suc_right add_0_right least_wait.simps greatest_wait.simps, simp_all)
qed

lemma greatest_wait_35: "greatest_wait 35 = from_millis 29298"
  using waits_after_seven(2)[of 28] by (simp add: from_millis_def from_secs_def)

lemma least_wait_36: "least_wait 36 = from_millis 30270"
  using waits_after_seven(1)[of 29] by (simp add: from_millis_def from_secs_def)

lemma retry_with_at_0: "retry_with_at 0 0 = retry_with_new"
  by (simp add: retry_with_at_def retry_with_new_def)

lemma advance_retry_with_at:
  "advance_with_delay (retry_with_at n c) d = retry_with_at (Suc n) (c + d)"
  by (simp add: advance_with_delay_def retry_with_at_def retry_with_new_def)

lemma next_delay_at:
  assumes "n < 2 ^ 32"
  shows "backoff n \<le> next_delay random (retry_with_at n c)"
    and "next_delay random (retry_with_at n c) \<le> salted n"
proof -
  have "unat (random mod 5) < unat (5 :: u64)"
    by (rule unat_mono) (simp add: word_mod_less_divisor)
  then have "unat (random mod 5) \<le> 4" by simp
  moreover have "unat (of_nat n :: u32) = n"
    using assms by (simp add: unat_of_nat)
  ultimately show "backoff n \<le> next_delay random (retry_with_at n c)"
    and "next_delay random (retry_with_at n c) \<le> salted n"
    by (auto simp: next_delay_def retry_with_at_def retry_with_new_def base_delay_def backoff_def
        salted_def from_millis_def from_secs_def min_def)
qed

lemma can_retry_at:
  assumes "n \<le> 35" and "least_wait n \<le> c" and "c \<le> greatest_wait n"
  shows "retry_with_can_retry (retry_with_at n c) (next_delay random (retry_with_at n c)) \<longleftrightarrow> n < 35"
proof (cases "n < 35")
  case True
  have "c + next_delay random (retry_with_at n c) \<le> greatest_wait (Suc n)"
    using next_delay_at(2)[of n random c] assms by simp
  also have "\<dots> \<le> greatest_wait 35"
    using True by (intro greatest_wait_mono) simp
  also have "\<dots> \<le> from_secs 30"
    by (simp add: greatest_wait_35 from_millis_def from_secs_def)
  finally have "c + next_delay random (retry_with_at n c) \<le> from_secs 30" .
  then show ?thesis
    using True by (simp add: retry_with_can_retry_def retry_with_at_def retry_with_new_def)
next
  case False
  then have n: "n = 35" using assms(1) by simp
  have "least_wait 36 \<le> c + next_delay random (retry_with_at 35 c)"
    using next_delay_at(1)[of 35 random c] assms(2) n least_wait.simps(2)[of 35] by simp
  then have "\<not> c + next_delay random (retry_with_at 35 c) \<le> from_secs 30"
    by (simp add: least_wait_36 from_millis_def from_secs_def)
  then show ?thesis
    using n by (simp add: retry_with_can_retry_def retry_with_at_def retry_with_new_def)
qed

lemma retry_with_run_at:
  assumes "n \<le> 35" and "least_wait n \<le> c" and "c \<le> greatest_wait n"
  shows "length (retry_with_run randoms (retry_with_at n c)) = min (length randoms) (35 - n) \<and>
    c + sum_list (retry_with_run randoms (retry_with_at n c)) \<le> greatest_wait 35 \<and>
    (\<forall>i < length (retry_with_run randoms (retry_with_at n c)).
       backoff (n + i) \<le> retry_with_run randoms (retry_with_at n c) ! i \<and>
       retry_with_run randoms (retry_with_at n c) ! i \<le> salted (n + i))"
  using assms
proof (induction randoms arbitrary: n c)
  case Nil
  then show ?case using greatest_wait_mono[of n 35] by simp
next
  case (Cons random randoms)
  let ?d = "next_delay random (retry_with_at n c)"
  show ?case
  proof (cases "n < 35")
    case True
    have d: "backoff n \<le> ?d" "?d \<le> salted n"
      using next_delay_at[of n random c] Cons.prems(1) by simp_all
    have run: "retry_with_run (random # randoms) (retry_with_at n c) =
        ?d # retry_with_run randoms (retry_with_at (Suc n) (c + ?d))"
      using True can_retry_at[OF Cons.prems] by (simp add: Let_def advance_retry_with_at)
    have "Suc n \<le> 35" "least_wait (Suc n) \<le> c + ?d" "c + ?d \<le> greatest_wait (Suc n)"
      using True d Cons.prems by simp_all
    note IH = Cons.IH[OF this]
    show ?thesis
      unfolding run using IH d True by (auto simp: nth_Cons' gr0_conv_Suc)
  next
    case False
    then show ?thesis
      using can_retry_at[OF Cons.prems, of random] Cons.prems greatest_wait_mono[of n 35]
      by (simp add: Let_def)
  qed
qed

text \<open>C20. However the random salts fall, an operation answers exactly the first 35 of the 449 responses
  it meets with a retry and propagates the next one: the delays follow the backoff 10 ms, 20 ms, and so
  on, capped at one second, each with a salt of at most 4 ms, and together they stay within the budget
  of 30 seconds.\<close>

theorem retry_with_schedule:
  "length (retry_with_run randoms retry_with_new) = min (length randoms) 35 \<and>
   sum_list (retry_with_run randoms retry_with_new) \<le> from_secs 30 \<and>
   (\<forall>i < length (retry_with_run randoms retry_with_new).
      min (from_millis 10 * 2 ^ i) (from_secs 1) \<le> retry_with_run randoms retry_with_new ! i \<and>
      retry_with_run randoms retry_with_new ! i \<le> min (from_millis 10 * 2 ^ i + from_millis 4) (from_secs 1))"
proof -
  let ?ds = "retry_with_run randoms retry_with_new"
  have run: "length ?ds = min (length randoms) 35" "sum_list ?ds \<le> from_millis 29298"
    "\<forall>i < length ?ds. backoff i \<le> ?ds ! i \<and> ?ds ! i \<le> salted i"
    using retry_with_run_at[of 0 0 randoms] by (simp_all add: retry_with_at_0 greatest_wait_35)
  have salted: "salted i = min (from_millis 10 * 2 ^ i + from_millis 4) (from_secs 1)" for i
    by (auto simp: salted_def backoff_def min_def)
  have "sum_list ?ds \<le> from_secs 30"
    using run(2) by (simp add: from_millis_def from_secs_def)
  then show ?thesis
    using run(1) run(3)[unfolded backoff_def salted] by (intro conjI)
qed

theorem retry_with_schedule_witness:
  "length (retry_with_run [7, 3] retry_with_new) = 2 \<and>
   from_millis 20 \<le> retry_with_run [7, 3] retry_with_new ! 1 \<and>
   retry_with_run [7, 3] retry_with_new ! 1 \<le> from_millis 24"
  using retry_with_schedule[of "[7, 3]"]
  by (auto simp del: retry_with_run.simps dest!: spec[of _ 1] simp: from_millis_def from_secs_def)

text \<open>The product of the backoff stays far below the limit of a \<^verbatim>\<open>Duration\<close> in every state a 449
  sequence reaches.\<close>

lemma retry_with_product_fits: "n \<le> 35 \<Longrightarrow> from_millis 10 * 2 ^ n < DURATION_LIMIT"
proof -
  assume "n \<le> 35"
  then have "(2 :: nat) ^ n \<le> 2 ^ 35" by (rule power_increasing) simp
  then have "from_millis 10 * 2 ^ n \<le> from_millis 10 * 2 ^ 35" by (rule mult_le_mono2)
  also have "\<dots> < DURATION_LIMIT" by (simp add: from_millis_def DURATION_LIMIT_def)
  finally show ?thesis .
qed

section \<open>A sequence of 429 responses\<close>

text \<open>The delays slept for a sequence of throttled responses, each with its jitter seed and
  \<^verbatim>\<open>x-ms-retry-after-ms\<close>; \<open>None\<close> when computing a delay panics.\<close>

fun throttle_run :: "(u64 \<times> u64 option) list \<Rightarrow> throttle_retry_state \<Rightarrow> duration list option" where
  "throttle_run [] self = Some []"
| "throttle_run ((seed, retry_after_ms) # responses) self =
     (case next_throttle_retry seed self retry_after_ms of
        None \<Rightarrow> None
      | Some None \<Rightarrow> Some []
      | Some (Some (delay, new_state)) \<Rightarrow> map_option ((#) delay) (throttle_run responses new_state))"

lemma splitmix64_unit_le: "splitmix64_unit seed \<le> 2 ^ 64 - 1"
proof -
  have "unat w \<le> 2 ^ 64 - 1" for w :: u64
    using unsigned_less[of w, where 'a = nat] by simp
  then show ?thesis unfolding splitmix64_unit_def .
qed

lemma with_jitter_bounds:
  assumes "ratio \<le> 100"
  shows "100 * with_jitter seed delay ratio \<le> delay * (100 + ratio)"
    and "delay * (100 - ratio) < 100 * (with_jitter seed delay ratio + 1)"
proof -
  let ?M = "2 ^ 64 - 1 :: nat"
  define x where "x = splitmix64_unit seed"
  have x: "x \<le> ?M" unfolding x_def by (rule splitmix64_unit_le)
  define f where "f = (100 - ratio) * ?M + 2 * ratio * x"
  have "f \<le> (100 - ratio) * ?M + 2 * ratio * ?M"
    unfolding f_def using x by (intro add_left_mono mult_left_mono) auto
  also have "\<dots> = ((100 - ratio) + 2 * ratio) * ?M" by (simp only: distrib_right)
  also have "(100 - ratio) + 2 * ratio = 100 + ratio" using assms by simp
  finally have up: "f \<le> (100 + ratio) * ?M" .
  have low: "(100 - ratio) * ?M \<le> f" by (simp add: f_def)
  let ?q = "delay * f div (100 * ?M)"
  have q: "?q * (100 * ?M) \<le> delay * f" "delay * f < (?q + 1) * (100 * ?M)"
    using div_times_less_eq_dividend[of "delay * f" "100 * ?M"]
      dividend_less_div_times[of "100 * ?M" "delay * f"] by (simp_all only: distrib_right) simp_all
  have "100 * ?q * ?M \<le> delay * (100 + ratio) * ?M"
    using order_trans[OF q(1) mult_left_mono[OF up, of delay]] by (simp only: mult_ac)
  then have 1: "100 * ?q \<le> delay * (100 + ratio)" by (simp del: mult_le_cancel2 add: mult_le_cancel2)
  have "delay * (100 - ratio) * ?M < 100 * (?q + 1) * ?M"
    using le_less_trans[OF mult_left_mono[OF low, of delay] q(2)] by (simp only: mult_ac)
  then have 2: "delay * (100 - ratio) < 100 * (?q + 1)" by (simp add: mult_less_cancel2)
  show "100 * with_jitter seed delay ratio \<le> delay * (100 + ratio)"
    "delay * (100 - ratio) < 100 * (with_jitter seed delay ratio + 1)"
    using 1 2 assms by (auto simp: with_jitter_def Let_def f_def x_def min_def)
qed

lemma next_throttle_retry_SomeE:
  assumes "next_throttle_retry seed self retry_after_ms = Some (Some (delay, new_state))"
  obtains "trs_attempt_count self < trs_max_attempts self"
    and "delay \<le> trs_max_per_retry_delay self"
    and "trs_cumulative_delay self + delay \<le> trs_max_wait_time self"
    and "new_state = self\<lparr>trs_attempt_count := trs_attempt_count self + 1,
      trs_cumulative_delay := trs_cumulative_delay self + delay\<rparr>"
  using assms by (auto simp: next_throttle_retry_def Let_def split: if_splits option.splits)

lemma throttle_run_ConsE:
  assumes "throttle_run (response # responses) self = Some delays"
  obtains "delays = []"
  | seed retry_after_ms delay new_state rest where
      "next_throttle_retry seed self retry_after_ms = Some (Some (delay, new_state))"
      "throttle_run responses new_state = Some rest" "delays = delay # rest"
  using assms by (cases response) (auto split: option.splits)

lemma throttle_run_bounds:
  assumes "throttle_run responses self = Some delays"
    and "trs_attempt_count self \<le> trs_max_attempts self"
    and "trs_cumulative_delay self \<le> trs_max_wait_time self"
  shows "unat (trs_attempt_count self) + length delays \<le> unat (trs_max_attempts self) \<and>
    trs_cumulative_delay self + sum_list delays \<le> trs_max_wait_time self \<and>
    (\<forall>d \<in> set delays. d \<le> trs_max_per_retry_delay self)"
  using assms
proof (induction responses arbitrary: self delays)
  case Nil
  then show ?case by (simp add: word_le_nat_alt)
next
  case (Cons response responses)
  show ?case
    using Cons.prems(1)
  proof (cases rule: throttle_run_ConsE)
    case 1
    then show ?thesis using Cons.prems by (simp add: word_le_nat_alt)
  next
    case (2 seed retry_after_ms delay new_state rest)
    from 2(1) show ?thesis
    proof (rule next_throttle_retry_SomeE)
      assume *: "trs_attempt_count self < trs_max_attempts self"
        "delay \<le> trs_max_per_retry_delay self"
        "trs_cumulative_delay self + delay \<le> trs_max_wait_time self"
        and new: "new_state = self\<lparr>trs_attempt_count := trs_attempt_count self + 1,
          trs_cumulative_delay := trs_cumulative_delay self + delay\<rparr>"
      show ?thesis
        using Cons.IH[OF 2(2)] * new 2(3) by (simp add: inc_below_le unat_inc_below add.assoc)
    qed
  qed
qed

text \<open>The throttling loop keeps its budgets: however the service answers, it never sleeps more often
  than the configured number of attempts, never longer in total than the configured wait, and never
  longer at once than the cap of the request class.\<close>

theorem throttle_within_limits:
  assumes "throttle_run responses (with_limits max_attempts max_wait_time max_per_retry_delay) = Some delays"
  shows "length delays \<le> unat max_attempts \<and> sum_list delays \<le> max_wait_time \<and>
    (\<forall>d \<in> set delays. d \<le> max_per_retry_delay)"
  using throttle_run_bounds[OF assms] by (simp add: with_limits_def)

theorem throttle_within_limits_witness:
  "length [from_millis 40, from_secs 5] \<le> unat METADATA_MAX_THROTTLE_ATTEMPTS \<and>
   sum_list [from_millis 40, from_secs 5] \<le> METADATA_MAX_THROTTLE_WAIT \<and>
   from_secs 5 \<le> METADATA_MAX_PER_RETRY_DELAY"
proof -
  have "throttle_run [(0, Some 40), (0, Some 60000)]
      (with_limits METADATA_MAX_THROTTLE_ATTEMPTS METADATA_MAX_THROTTLE_WAIT METADATA_MAX_PER_RETRY_DELAY) =
    Some [from_millis 40, from_secs 5]"
    by (simp add: next_throttle_retry_def word_le_nat_alt with_limits_def METADATA_MAX_THROTTLE_ATTEMPTS_def
        METADATA_MAX_THROTTLE_WAIT_def METADATA_MAX_PER_RETRY_DELAY_def from_millis_def from_secs_def)
  from throttle_within_limits[OF this] show ?thesis by simp
qed

subsection \<open>When the fallback panics\<close>

definition default_fallback :: "throttle_retry_state \<Rightarrow> bool" where
  "default_fallback self \<longleftrightarrow> trs_fallback_base_delay self = from_millis 5 \<and>
     trs_backoff_factor self = 2 \<and> trs_backoff_jitter_ratio self = 25"

lemma fallback_delay_fits:
  assumes "default_fallback self" and "unat (trs_attempt_count self) < 72"
  shows "fallback_delay seed self \<noteq> None"
proof -
  let ?base = "from_millis 5 * 2 ^ unat (trs_attempt_count self)"
  have "(2 :: nat) ^ unat (trs_attempt_count self) \<le> 2 ^ 71"
    using assms(2) by (intro power_increasing) simp_all
  then have base: "?base \<le> from_millis 5 * 2 ^ 71" by (rule mult_le_mono2)
  have "100 * with_jitter seed ?base 25 \<le> ?base * 125"
    using with_jitter_bounds(1)[of 25 seed ?base] by simp
  also have "\<dots> \<le> from_millis 5 * 2 ^ 71 * 125" using base by (rule mult_le_mono1)
  also have "\<dots> < 100 * DURATION_LIMIT" by (simp add: from_millis_def DURATION_LIMIT_def)
  finally have "with_jitter seed ?base 25 < DURATION_LIMIT" by simp
  moreover have "?base < DURATION_LIMIT"
    using base by (rule le_less_trans) (simp add: from_millis_def DURATION_LIMIT_def)
  ultimately show ?thesis
    using assms(1)
    by (simp add: fallback_delay_def fallback_exponential_delay_def default_fallback_def checked_duration_def)
qed

lemma next_throttle_retry_no_panic:
  assumes "default_fallback self" and "unat (trs_max_attempts self) \<le> 72"
  shows "next_throttle_retry seed self ra \<noteq> None"
  using fallback_delay_fits[OF assms(1), of seed] assms(2)
  by (auto simp: next_throttle_retry_def Let_def word_less_nat_alt word_le_nat_alt not_le split: option.splits)

lemma throttle_run_no_panic:
  assumes "default_fallback self" and "unat (trs_max_attempts self) \<le> 72"
    and "trs_attempt_count self \<le> trs_max_attempts self"
  shows "throttle_run responses self \<noteq> None"
  using assms
proof (induction responses arbitrary: self)
  case Nil
  show ?case by simp
next
  case (Cons response responses)
  obtain seed ra where r: "response = (seed, ra)" by (cases response)
  have "next_throttle_retry seed self ra \<noteq> None" by (rule next_throttle_retry_no_panic[OF Cons.prems(1,2)])
  moreover have "throttle_run responses new_state \<noteq> None"
    if "next_throttle_retry seed self ra = Some (Some (delay, new_state))" for delay new_state
    using that
  proof (rule next_throttle_retry_SomeE)
    assume "trs_attempt_count self < trs_max_attempts self"
      and "new_state = self\<lparr>trs_attempt_count := trs_attempt_count self + 1,
        trs_cumulative_delay := trs_cumulative_delay self + delay\<rparr>"
    then show ?thesis
      using Cons.prems by (intro Cons.IH) (simp_all add: default_fallback_def inc_below_le)
  qed
  ultimately show ?case using r by (auto split: option.splits)
qed

lemma throttle_run_immediate:
  assumes "unat (trs_attempt_count self) + k \<le> unat (trs_max_attempts self)"
    and "trs_cumulative_delay self \<le> trs_max_wait_time self"
  shows "throttle_run (replicate k (0, Some 0) @ responses) self =
    map_option ((@) (replicate k 0)) (throttle_run responses
      (self\<lparr>trs_attempt_count := trs_attempt_count self + of_nat k\<rparr>))"
  using assms
proof (induction k arbitrary: self)
  case 0
  show ?case by (simp add: option.map_ident)
next
  case (Suc k)
  let ?next = "self\<lparr>trs_attempt_count := trs_attempt_count self + 1\<rparr>"
  have less: "trs_attempt_count self < trs_max_attempts self"
    using Suc.prems(1) by (simp add: word_less_nat_alt)
  have step: "next_throttle_retry 0 self (Some 0) = Some (Some (0, ?next))"
    using less Suc.prems(2) by (simp add: next_throttle_retry_def Let_def from_millis_def)
  have "throttle_run (replicate k (0, Some 0) @ responses) ?next =
      map_option ((@) (replicate k 0)) (throttle_run responses
        (?next\<lparr>trs_attempt_count := trs_attempt_count ?next + of_nat k\<rparr>))"
    using Suc.prems less by (intro Suc.IH) (simp_all add: unat_inc_below)
  then show ?case
    using step by (simp add: add.assoc option.map_comp comp_def)
qed

text \<open>C38. The fallback of the throttling loop panics for some sequence of responses exactly when more than
  72 attempts are configured: 72 responses that ask for an immediate retry and one more
  without the header make the fallback multiply 5 ms by the 72nd power of two, which is no
  \<^verbatim>\<open>Duration\<close>. The cap on a single delay is applied only afterwards.\<close>

theorem throttle_fallback_panics_iff:
  "(\<exists>responses. throttle_run responses (with_limits max_attempts max_wait_time max_per_retry_delay) = None) \<longleftrightarrow>
   72 < unat max_attempts"
proof
  assume panic: "\<exists>responses. throttle_run responses (with_limits max_attempts max_wait_time max_per_retry_delay) = None"
  show "72 < unat max_attempts"
  proof (rule ccontr)
    assume "\<not> 72 < unat max_attempts"
    then have "throttle_run responses (with_limits max_attempts max_wait_time max_per_retry_delay) \<noteq> None" for responses
      by (intro throttle_run_no_panic) (simp_all add: with_limits_def default_fallback_def)
    then show False using panic by blast
  qed
next
  assume *: "72 < unat max_attempts"
  let ?s = "with_limits max_attempts max_wait_time max_per_retry_delay"
  let ?t = "?s\<lparr>trs_attempt_count := trs_attempt_count ?s + of_nat 72\<rparr>"
  have "fallback_delay 0 ?t = None"
    by (simp add: fallback_delay_def fallback_exponential_delay_def checked_duration_def with_limits_def
        from_millis_def DURATION_LIMIT_def)
  moreover have "72 < max_attempts" using * by (simp add: word_less_nat_alt)
  ultimately have "throttle_run [(0, None)] ?t = None"
    by (simp add: next_throttle_retry_def with_limits_def not_le[symmetric])
  then have "throttle_run (replicate 72 (0, Some 0) @ [(0, None)]) ?s = None"
    using * by (subst throttle_run_immediate) (simp_all add: with_limits_def)
  then show "\<exists>responses. throttle_run responses ?s = None" ..
qed

section \<open>Bounded retries\<close>

text \<open>A retry loop whose every round uses up part of a budget. The rounds are the steps of a relation,
  the budget is a number that an invariant keeps meaningful.\<close>

locale bounded_retries =
  fixes step :: "'s \<Rightarrow> 's \<Rightarrow> bool"
    and inv :: "'s \<Rightarrow> bool"
    and budget :: "'s \<Rightarrow> nat"
  assumes step_inv: "inv s \<Longrightarrow> step s t \<Longrightarrow> inv t"
    and step_budget: "inv s \<Longrightarrow> step s t \<Longrightarrow> budget t < budget s"
begin

lemma rounds_inv: "(step ^^ n) s t \<Longrightarrow> inv s \<Longrightarrow> inv t"
  by (induction n arbitrary: t) (auto intro: step_inv)

lemma rounds_bounded: "(step ^^ n) s t \<Longrightarrow> inv s \<Longrightarrow> n + budget t \<le> budget s"
proof (induction n arbitrary: t)
  case (Suc n)
  then obtain u where u: "(step ^^ n) s u" "step u t" by auto
  then show ?case
    using Suc.IH[OF u(1)] step_budget[OF rounds_inv[OF u(1)] u(2)] Suc.prems(2) by simp
qed simp

lemma terminates: "inv s \<Longrightarrow> \<not> (\<exists>f. f 0 = s \<and> (\<forall>i. step (f i) (f (Suc i))))"
proof
  assume "inv s" and "\<exists>f. f 0 = s \<and> (\<forall>i. step (f i) (f (Suc i)))"
  then obtain f where f: "f 0 = s" "\<And>i. step (f i) (f (Suc i))" by blast
  have "(step ^^ n) s (f n)" for n
    by (induction n) (auto simp: f)
  from rounds_bounded[OF this[of "Suc (budget s)"] \<open>inv s\<close>] show False by simp
qed

end

section \<open>The budget of an operation\<close>

text \<open>The 449 state of an operation is one that a run of 449 responses reaches.\<close>

definition retry_with_ok :: "retry_with_state option \<Rightarrow> bool" where
  "retry_with_ok r \<longleftrightarrow>
     (\<exists>n c. unwrap_or r retry_with_new = retry_with_at n c \<and> n \<le> 35 \<and> least_wait n \<le> c \<and> c \<le> greatest_wait n)"

definition retry_with_left :: "retry_with_state option \<Rightarrow> nat" where
  "retry_with_left r = 35 - unat (rws_attempt_count (unwrap_or r retry_with_new))"

definition retries_left :: "u32 \<Rightarrow> u32 \<Rightarrow> nat" where
  "retries_left limit used = unat limit - unat used"

definition retry_budget :: "operation_retry_state \<Rightarrow> nat" where
  "retry_budget s =
     retries_left (ors_max_failover_retries s) (ors_failover_retry_count s) +
     retries_left (ors_max_backend_failover_retries s) (ors_backend_failover_retry_count s) +
     retries_left (ors_max_session_retries s) (ors_session_token_retry_count s) +
     retries_left MAX_DTX_COORDINATOR_RETRIES (ors_dtx_coordinator_retry_count s) +
     retries_left MAX_DTX_INFRA_RETRIES (ors_dtx_infra_retry_count s) +
     retry_with_left (ors_retry_with_state s)"

lemma retry_with_ok_None [simp]: "retry_with_ok None"
  unfolding retry_with_ok_def unwrap_or_def by (intro exI[of _ 0]) (simp add: retry_with_at_0)

lemma retry_with_step:
  assumes "retry_with_ok r" and "d = next_delay random (unwrap_or r retry_with_new)"
    and "retry_with_can_retry (unwrap_or r retry_with_new) d"
  shows "retry_with_ok (Some (advance_with_delay (unwrap_or r retry_with_new) d))"
    and "retry_with_left (Some (advance_with_delay (unwrap_or r retry_with_new) d)) < retry_with_left r"
proof -
  obtain n c where at: "unwrap_or r retry_with_new = retry_with_at n c" and n: "n \<le> 35"
    and c: "least_wait n \<le> c" "c \<le> greatest_wait n"
    using assms(1) unfolding retry_with_ok_def by blast
  have lt: "n < 35"
    using can_retry_at[OF n c, of random] assms(2,3) by (simp add: at)
  have "least_wait (Suc n) \<le> c + d" "c + d \<le> greatest_wait (Suc n)"
    using next_delay_at[of n random c] lt c assms(2) by (simp_all add: at)
  then show "retry_with_ok (Some (advance_with_delay (unwrap_or r retry_with_new) d))"
    unfolding retry_with_ok_def at advance_retry_with_at
    using lt by (intro exI[of _ "Suc n"] exI[of _ "c + d"]) (simp add: unwrap_or_def)
  have "unat (of_nat k :: u32) = k" if "k \<le> 35" for k
    using that by (simp add: unat_of_nat)
  from this[of n] this[of "Suc n"]
  show "retry_with_left (Some (advance_with_delay (unwrap_or r retry_with_new) d)) < retry_with_left r"
    unfolding retry_with_left_def at advance_retry_with_at
    using lt by (simp add: unwrap_or_def retry_with_at_def)
qed

text \<open>The ways in which a handler advances the retry state, each under its own budget.\<close>

inductive advances :: "operation_retry_state \<Rightarrow> operation_retry_state \<Rightarrow> bool" where
  failover: "can_retry_failover s \<Longrightarrow> advances s (advance_failover s)"
| backend: "can_retry_backend_failover s \<Longrightarrow> advances s (advance_backend_failover s)"
| dtx_coordinator: "can_retry_dtx_coordinator s \<Longrightarrow> advances s (advance_dtx_coordinator_retry s)"
| dtx_infra: "can_retry_dtx_infra s \<Longrightarrow> advances s (advance_dtx_infra_retry s)"
| session: "can_retry_session s \<Longrightarrow>
    advances s ((advance_session_retry s)\<lparr>ors_hub_region_processing_only := hub, ors_shared_hub_region_latch := latch\<rparr>)"
| retry_with: "d = next_delay random (unwrap_or (ors_retry_with_state s) retry_with_new) \<Longrightarrow>
    retry_with_can_retry (unwrap_or (ors_retry_with_state s) retry_with_new) d \<Longrightarrow>
    advances s (advance_retry_with_delay s d)"

lemma left_inc: "n < m \<Longrightarrow> retries_left m (n + 1) < retries_left m n"
  by (simp add: retries_left_def unat_inc_below word_less_nat_alt)

lemma advances_budget:
  assumes "advances s t" and "retry_with_ok (ors_retry_with_state s)"
  shows "retry_budget t < retry_budget s" and "retry_with_ok (ors_retry_with_state t)"
proof -
  have "retry_budget t < retry_budget s \<and> retry_with_ok (ors_retry_with_state t)"
    using assms
  proof cases
    case failover
    then show ?thesis using left_inc[of "ors_failover_retry_count s" "ors_max_failover_retries s"] assms(2)
      by (simp add: retry_budget_def can_retry_failover_def advance_failover_def)
  next
    case backend
    then show ?thesis
      using left_inc[of "ors_backend_failover_retry_count s" "ors_max_backend_failover_retries s"] assms(2)
      by (simp add: retry_budget_def can_retry_backend_failover_def advance_backend_failover_def)
  next
    case dtx_coordinator
    then show ?thesis
      using left_inc[of "ors_dtx_coordinator_retry_count s" MAX_DTX_COORDINATOR_RETRIES] assms(2)
      by (simp add: retry_budget_def can_retry_dtx_coordinator_def advance_dtx_coordinator_retry_def)
  next
    case dtx_infra
    then show ?thesis using left_inc[of "ors_dtx_infra_retry_count s" MAX_DTX_INFRA_RETRIES] assms(2)
      by (simp add: retry_budget_def can_retry_dtx_infra_def advance_dtx_infra_retry_def)
  next
    case (session hub latch)
    then show ?thesis using left_inc[of "ors_session_token_retry_count s" "ors_max_session_retries s"] assms(2)
      by (simp add: retry_budget_def can_retry_session_def advance_session_retry_def)
  next
    case (retry_with d random)
    then show ?thesis using retry_with_step[OF assms(2) retry_with(2,3)]
      by (simp add: retry_budget_def advance_retry_with_delay_def)
  qed
  then show "retry_budget t < retry_budget s" and "retry_with_ok (ors_retry_with_state t)" by simp_all
qed

end
