(* ===== verification/Retry_Evaluation.thy ===== *)
theory Retry_Evaluation
  imports Retry_State
begin

text \<open>
  The decision after a transport attempt: \<^verbatim>\<open>driver/pipeline/retry_evaluation.rs\<close>. The sources are pure
  but for the random salt of a 449 delay, which is the argument \<open>random\<close>, and for logging, which is left
  out. A handler that does not recognise the response returns \<open>None\<close>, as in the sources. The
  messages of the errors are left out.
\<close>

section \<open>Actions\<close>

datatype transport_mode = Gateway | GatewayV2

record routing_decision =
  rd_endpoint :: cosmos_endpoint
  rd_selected_url :: url
  rd_transport_mode :: transport_mode

text \<open>The configuration that a hedge carries for its diagnostics is left out.\<close>

datatype operation_action =
    Complete transport_outcome
  | FailoverRetry operation_retry_state "duration option"
  | InRegionRetry operation_retry_state duration
  | SessionRetry operation_retry_state
  | DtxRetry operation_retry_state duration
  | Hedge routing_decision duration operation_retry_state
  | Abort cosmos_error

type_synonym evaluation = "operation_action \<times> location_effect list"

definition operation_is_read_only :: "cosmos_operation \<Rightarrow> bool" where
  "operation_is_read_only operation \<longleftrightarrow> is_read_only (op_operation_type operation)"

definition operation_is_partitioned :: "cosmos_operation \<Rightarrow> bool" where
  "operation_is_partitioned operation \<longleftrightarrow>
     is_partitioned (op_resource_type operation) (op_operation_type operation)"

section \<open>Location effects\<close>

definition is_ppcb_managed :: "cosmos_operation \<Rightarrow> operation_retry_state \<Rightarrow> bool" where
  "is_ppcb_managed operation retry_state \<longleftrightarrow>
     ors_ppcb_active retry_state \<and> operation_is_partitioned operation \<and>
     (operation_is_read_only operation \<or> ors_can_use_multiple_write_locations retry_state)"

definition make_partition_unavailable ::
  "cosmos_operation \<Rightarrow> cosmos_endpoint \<Rightarrow> operation_retry_state \<Rightarrow> bool \<Rightarrow> unavailable_partition" where
  "make_partition_unavailable operation endpoint retry_state is_read =
     \<lparr>up_partition_key_range_id = ors_partition_key_range_id retry_state,
      up_region = ep_region endpoint,
      up_is_read = is_read,
      up_is_partitioned_resource = operation_is_partitioned operation\<rparr>"

definition is_region_confirming_status :: "cosmos_status \<Rightarrow> bool" where
  "is_region_confirming_status status =
     (if status_is_success (cs_status_code status) then True
      else if cs_status_code status = 503 \<or> cs_status_code status = 408 \<or> cs_status_code status = 410 then False
      else if is_retry_with status then False
      else if is_throttled status \<and> cs_sub_status status = Some SUB_SYSTEM_RESOURCE_UNAVAILABLE then False
      else if is_write_forbidden status \<or> is_database_account_not_found status then False
      else if cs_sub_status status = Some SUB_CLIENT_OPERATION_TIMEOUT then False
      else True)"

text \<open>The loop of \<^verbatim>\<open>partition_effects_for_deferral\<close>.\<close>

fun defer_loop :: "bool \<Rightarrow> location_effect list \<Rightarrow> location_effect list \<times> location_effect list" where
  "defer_loop ppaf [] = ([], [])"
| "defer_loop ppaf (effect # effects) =
     (case defer_loop ppaf effects of
        (immediate, deferred) \<Rightarrow>
          (case effect of
             MarkPartitionUnavailable _ \<Rightarrow> (immediate, effect # deferred)
           | MarkEndpointUnavailable _ _ \<Rightarrow>
               if ppaf then (immediate, effect # deferred) else (effect # immediate, deferred)
           | _ \<Rightarrow> (effect # immediate, deferred)))"

definition partition_effects_for_deferral ::
  "bool \<Rightarrow> bool \<Rightarrow> bool \<Rightarrow> location_effect list \<Rightarrow> location_effect list \<times> location_effect list" where
  "partition_effects_for_deferral read_only can_use_multiple_write_locations ppaf_write_retry_allowed effects =
     (if read_only \<or> can_use_multiple_write_locations then (effects, [])
      else defer_loop ppaf_write_retry_allowed effects)"

section \<open>Errors\<close>

definition is_continuation_byte :: "nat \<Rightarrow> bool" where
  "is_continuation_byte b \<longleftrightarrow> 0x80 \<le> b \<and> b \<le> 0xBF"

text \<open>\<^verbatim>\<open>str::from_utf8\<close> succeeds on the well-formed byte sequences of Unicode.\<close>

fun utf8_valid :: "nat list \<Rightarrow> bool" where
  "utf8_valid [] = True"
| "utf8_valid (b # bs) =
     (if b < 0x80 then utf8_valid bs
      else if 0xC2 \<le> b \<and> b \<le> 0xDF then
        (case bs of c # r \<Rightarrow> is_continuation_byte c \<and> utf8_valid r | _ \<Rightarrow> False)
      else if 0xE0 \<le> b \<and> b \<le> 0xEF then
        (case bs of c # d # r \<Rightarrow>
             is_continuation_byte c \<and> (b = 0xE0 \<longrightarrow> 0xA0 \<le> c) \<and> (b = 0xED \<longrightarrow> c \<le> 0x9F) \<and>
             is_continuation_byte d \<and> utf8_valid r
         | _ \<Rightarrow> False)
      else if 0xF0 \<le> b \<and> b \<le> 0xF4 then
        (case bs of c # d # e # r \<Rightarrow>
             is_continuation_byte c \<and> (b = 0xF0 \<longrightarrow> 0x90 \<le> c) \<and> (b = 0xF4 \<longrightarrow> c \<le> 0x8F) \<and>
             is_continuation_byte d \<and> is_continuation_byte e \<and> utf8_valid r
         | _ \<Rightarrow> False)
      else False)"

fun str_starts_with :: "string \<Rightarrow> string \<Rightarrow> bool" where
  "str_starts_with text [] = True"
| "str_starts_with [] (p # pattern) = False"
| "str_starts_with (c # text) (p # pattern) = (c = p \<and> str_starts_with text pattern)"

fun str_contains :: "string \<Rightarrow> string \<Rightarrow> bool" where
  "str_contains [] pattern = (pattern = [])"
| "str_contains (c # text) pattern = (str_starts_with (c # text) pattern \<or> str_contains text pattern)"

definition CROSS_PARTITION_QUERY_NOT_SERVABLE :: cosmos_status where
  "CROSS_PARTITION_QUERY_NOT_SERVABLE = from_parts 400 (Some SUB_CROSS_PARTITION_QUERY)"

definition synthesize_cross_partition_query_status :: "cosmos_status \<Rightarrow> bytes \<Rightarrow> cosmos_status" where
  "synthesize_cross_partition_query_status status body =
     (if cs_status_code status \<noteq> 400 \<or> cs_sub_status status \<noteq> None then status
      else if \<not> utf8_valid (map of_char body) then status
      else if str_contains body ''unsupported features'' \<and> str_contains body ''Upgrade your SDK''
      then CROSS_PARTITION_QUERY_NOT_SERVABLE
      else status)"

definition build_service_error :: "cosmos_status \<Rightarrow> response_headers \<Rightarrow> bytes \<Rightarrow> cosmos_error" where
  "build_service_error status headers body =
     CosmosError (synthesize_cross_partition_query_status status body) (WirePending body headers) None"

definition build_transport_error :: "cosmos_status \<Rightarrow> cosmos_error \<Rightarrow> cosmos_error" where
  "build_transport_error status e = CosmosError status Synthetic (Some e)"

section \<open>Handlers\<close>

definition try_handle_write_forbidden ::
  "cosmos_operation \<Rightarrow> cosmos_endpoint \<Rightarrow> operation_retry_state \<Rightarrow> cosmos_status \<Rightarrow> evaluation option" where
  "try_handle_write_forbidden operation endpoint retry_state status =
     (if \<not> is_write_forbidden status then None
      else if ors_hub_region_processing_only retry_state \<and> operation_is_read_only operation \<and>
          \<not> ors_can_use_multiple_write_locations retry_state then
        (if \<not> can_retry_failover retry_state then None
         else Some (FailoverRetry (advance_failover retry_state) None,
           (case ors_partition_key_range_id retry_state of
              Some pk_range_id \<Rightarrow> [AdvanceHubRegionDiscovery pk_range_id endpoint]
            | None \<Rightarrow> [])))
      else
        case (if ors_can_use_multiple_write_locations retry_state then
                (if \<not> can_retry_backend_failover retry_state then None
                 else Some (advance_backend_failover retry_state, Some BACKEND_FAILOVER_RETRY_INTERVAL))
              else if \<not> can_retry_failover retry_state then None
              else Some (advance_failover retry_state, None)) of
          None \<Rightarrow> None
        | Some (new_state, delay) \<Rightarrow>
            Some (FailoverRetry new_state delay,
              [RefreshAccountProperties,
               MarkPartitionUnavailable (make_partition_unavailable operation endpoint retry_state False)] @
              (if \<not> is_ppcb_managed operation retry_state
               then [MarkEndpointUnavailable endpoint WriteForbidden] else [])))"

definition try_handle_database_account_not_found ::
  "cosmos_operation \<Rightarrow> cosmos_endpoint \<Rightarrow> operation_retry_state \<Rightarrow> cosmos_status \<Rightarrow> evaluation option" where
  "try_handle_database_account_not_found operation endpoint retry_state status =
     (if \<not> is_database_account_not_found status then None
      else if \<not> can_retry_backend_failover retry_state then None
      else Some (FailoverRetry (advance_backend_failover retry_state) (Some BACKEND_FAILOVER_RETRY_INTERVAL),
        [RefreshAccountProperties,
         MarkPartitionUnavailable
           (make_partition_unavailable operation endpoint retry_state (operation_is_read_only operation))] @
        (if \<not> is_ppcb_managed operation retry_state
         then [MarkEndpointUnavailable endpoint DatabaseAccountNotFound] else [])))"

definition build_session_retry_state :: "operation_retry_state \<Rightarrow> operation_retry_state" where
  "build_session_retry_state retry_state =
     (let new_state = advance_session_retry retry_state in
      if ors_is_dataplane retry_state \<and> \<not> ors_can_use_multiple_write_locations retry_state \<and>
         ors_session_token_retry_count retry_state = 0 \<and> \<not> ors_hub_region_processing_only retry_state
      then new_state\<lparr>ors_hub_region_processing_only := True,
        ors_shared_hub_region_latch := map_option (\<lambda>_. True) (ors_shared_hub_region_latch new_state)\<rparr>
      else new_state)"

definition try_handle_read_session_not_available ::
  "operation_retry_state \<Rightarrow> cosmos_status \<Rightarrow> response_headers \<Rightarrow> bytes \<Rightarrow> evaluation option" where
  "try_handle_read_session_not_available retry_state status headers body =
     (if \<not> (is_read_session_not_available status \<and> can_retry_session retry_state) then None
      else if \<not> ors_can_use_multiple_write_locations retry_state \<and>
          2 \<le> ors_session_token_retry_count retry_state
      then Some (Abort (build_service_error status headers body), [])
      else Some (SessionRetry (build_session_retry_state retry_state), []))"

definition in_trigger_group :: "cosmos_status \<Rightarrow> bool" where
  "in_trigger_group status \<longleftrightarrow>
     (is_throttled status \<and> cs_sub_status status = Some SUB_SYSTEM_RESOURCE_UNAVAILABLE) \<or>
     cs_status_code status = 503 \<or>
     (status_is_gone status \<and> \<not> is_partition_topology_change status) \<or>
     cs_status_code status = 408"

definition try_handle_retry_trigger_group ::
  "cosmos_operation \<Rightarrow> cosmos_endpoint \<Rightarrow> operation_retry_state \<Rightarrow> cosmos_status \<Rightarrow> request_sent_status \<Rightarrow>
   evaluation option" where
  "try_handle_retry_trigger_group operation endpoint retry_state status request_sent =
     (if \<not> (in_trigger_group status \<and> can_retry_failover retry_state) then None
      else if definitely_not_sent request_sent then
        Some (FailoverRetry (advance_failover retry_state) None, [])
      else
        let unavailable_reason =
              (if cs_status_code status = 408 then RequestTimeout else ServiceUnavailable)
        in Some (FailoverRetry (advance_failover retry_state) None,
          [MarkPartitionUnavailable
             (make_partition_unavailable operation endpoint retry_state (operation_is_read_only operation))] @
          (if \<not> is_ppcb_managed operation retry_state
           then [MarkEndpointUnavailable endpoint unavailable_reason] else [])))"

definition try_handle_retry_with ::
  "u64 \<Rightarrow> operation_retry_state \<Rightarrow> cosmos_status \<Rightarrow> evaluation option" where
  "try_handle_retry_with random retry_state status =
     (if \<not> is_retry_with status then None
      else
        let current_state = unwrap_or (ors_retry_with_state retry_state) retry_with_new;
            delay = next_delay random current_state
        in if \<not> retry_with_can_retry current_state delay then None
           else Some (InRegionRetry (advance_retry_with_delay retry_state delay) delay, []))"

definition try_handle_server_error ::
  "cosmos_operation \<Rightarrow> cosmos_endpoint \<Rightarrow> operation_retry_state \<Rightarrow> cosmos_status \<Rightarrow> evaluation option" where
  "try_handle_server_error operation endpoint retry_state status =
     (if \<not> ((status_is_server_error (cs_status_code status) \<or> cs_status_code status = 408) \<and>
            can_retry_failover retry_state) then None
      else Some (FailoverRetry (advance_failover retry_state) None,
        [MarkPartitionUnavailable
           (make_partition_unavailable operation endpoint retry_state (operation_is_read_only operation))] @
        (if \<not> is_ppcb_managed operation retry_state
         then [MarkEndpointUnavailable endpoint InternalServerError] else [])))"

section \<open>Distributed transactions\<close>

definition is_dtx_bodyless_coordinator_retriable :: "cosmos_status \<Rightarrow> bool" where
  "is_dtx_bodyless_coordinator_retriable status \<longleftrightarrow>
     cs_status_code status = 408 \<or>
     (cs_status_code status = 449 \<and> cs_sub_status status = Some SUB_DTC_COORDINATOR_RACE_CONFLICT)"

definition is_dtx_bodyless_infra_retriable :: "cosmos_status \<Rightarrow> bool" where
  "is_dtx_bodyless_infra_retriable status \<longleftrightarrow>
     cs_status_code status = 500 \<and>
     cs_sub_status status \<in> {Some SUB_DTC_LEDGER_FAILURE, Some SUB_DTC_ACCOUNT_CONFIG_FAILURE,
       Some SUB_DTC_DISPATCH_FAILURE}"

definition dtx_infra_retry_delay :: "u32 \<Rightarrow> duration" where
  "dtx_infra_retry_delay attempt =
     (let exponent = min attempt DTX_INFRA_MAX_EXPONENT
      in min (DTX_INFRA_BASE_BACKOFF * 2 ^ unat exponent) DTX_INFRA_MAX_BACKOFF)"

definition try_dtx_bodyless_retry ::
  "cosmos_status \<Rightarrow> response_headers \<Rightarrow> operation_retry_state \<Rightarrow> (operation_retry_state \<times> duration) option" where
  "try_dtx_bodyless_retry status headers retry_state =
     (if is_dtx_bodyless_coordinator_retriable status then
        (if \<not> can_retry_dtx_coordinator retry_state then None
         else Some (advance_dtx_coordinator_retry retry_state,
           unwrap_or (map_option (\<lambda>ms. from_millis (unat ms)) (rh_retry_after_ms headers))
             DTX_COORDINATOR_RETRY_INTERVAL))
      else if is_dtx_bodyless_infra_retriable status then
        (if \<not> can_retry_dtx_infra retry_state then None
         else Some (advance_dtx_infra_retry retry_state,
           dtx_infra_retry_delay (ors_dtx_infra_retry_count retry_state)))
      else None)"

definition evaluate_dtx_http_outcome ::
  "cosmos_status \<Rightarrow> response_headers \<Rightarrow> bytes \<Rightarrow> operation_retry_state \<Rightarrow> evaluation" where
  "evaluate_dtx_http_outcome status headers body retry_state =
     (case (if body = [] then try_dtx_bodyless_retry status headers retry_state else None) of
        Some (new_state, delay) \<Rightarrow> (DtxRetry new_state delay, [])
      | None \<Rightarrow> (Complete (TSuccess status headers body), []))"

section \<open>Evaluation\<close>

definition evaluate_http_outcome ::
  "u64 \<Rightarrow> cosmos_operation \<Rightarrow> cosmos_endpoint \<Rightarrow> operation_retry_state \<Rightarrow> cosmos_status \<Rightarrow> response_headers \<Rightarrow>
   bytes \<Rightarrow> request_sent_status \<Rightarrow> evaluation" where
  "evaluate_http_outcome random operation endpoint retry_state status headers body request_sent =
     (case try_handle_write_forbidden operation endpoint retry_state status of
        Some r \<Rightarrow> r
      | None \<Rightarrow>
     (case try_handle_database_account_not_found operation endpoint retry_state status of
        Some r \<Rightarrow> r
      | None \<Rightarrow>
     (if op_resource_type operation = DistributedTransactionBatch
      then evaluate_dtx_http_outcome status headers body retry_state
      else
     (case try_handle_read_session_not_available retry_state status headers body of
        Some r \<Rightarrow> r
      | None \<Rightarrow>
     (case try_handle_retry_trigger_group operation endpoint retry_state status request_sent of
        Some r \<Rightarrow> r
      | None \<Rightarrow>
     (case try_handle_retry_with random retry_state status of
        Some r \<Rightarrow> r
      | None \<Rightarrow>
     (case try_handle_server_error operation endpoint retry_state status of
        Some r \<Rightarrow> r
      | None \<Rightarrow> (Abort (build_service_error status headers body), []))))))))"

definition evaluate_transport_layer_outcome ::
  "cosmos_operation \<Rightarrow> cosmos_endpoint \<Rightarrow> operation_retry_state \<Rightarrow> cosmos_status \<Rightarrow> cosmos_error \<Rightarrow>
   request_sent_status \<Rightarrow> evaluation" where
  "evaluate_transport_layer_outcome operation endpoint retry_state status e request_sent =
     (if definitely_not_sent request_sent then
        let effects = [MarkEndpointUnavailable endpoint TransportError] in
        if can_retry_failover retry_state then (FailoverRetry (advance_failover retry_state) None, effects)
        else (Abort (build_transport_error status e), effects)
      else
        let effects = [MarkPartitionUnavailable
              (make_partition_unavailable operation endpoint retry_state (operation_is_read_only operation))] in
        if can_retry_failover retry_state then (FailoverRetry (advance_failover retry_state) None, effects)
        else (Abort (build_transport_error status e), effects))"

definition evaluate_deadline_exceeded_outcome :: "request_sent_status \<Rightarrow> evaluation" where
  "evaluate_deadline_exceeded_outcome request_sent = (Abort (CosmosError CLIENT_OPERATION_TIMEOUT Synthetic None), [])"

fun evaluate_transport_result ::
  "u64 \<Rightarrow> cosmos_operation \<Rightarrow> cosmos_endpoint \<Rightarrow> transport_outcome \<Rightarrow> operation_retry_state \<Rightarrow> evaluation" where
  "evaluate_transport_result random operation endpoint (TSuccess status headers body) retry_state =
     (Complete (TSuccess status headers body), [])"
| "evaluate_transport_result random operation endpoint (HttpError status headers body request_sent) retry_state =
     evaluate_http_outcome random operation endpoint retry_state status headers body request_sent"
| "evaluate_transport_result random operation endpoint (TransportFailed status e request_sent) retry_state =
     evaluate_transport_layer_outcome operation endpoint retry_state status e request_sent"
| "evaluate_transport_result random operation endpoint (DeadlineExceeded request_sent) retry_state =
     evaluate_deadline_exceeded_outcome request_sent"

section \<open>The legs of a hedge race\<close>

record hedge_leg_evaluation =
  hle_effects :: "location_effect list"
  hle_observed_session_unavailable :: bool

definition hedge_http_effects ::
  "cosmos_operation \<Rightarrow> cosmos_endpoint \<Rightarrow> operation_retry_state \<Rightarrow> cosmos_status \<Rightarrow> request_sent_status \<Rightarrow>
   location_effect list" where
  "hedge_http_effects operation endpoint retry_state status request_sent =
     (case try_handle_write_forbidden operation endpoint retry_state status of
        Some (_, effects) \<Rightarrow> effects
      | None \<Rightarrow>
     (case try_handle_database_account_not_found operation endpoint retry_state status of
        Some (_, effects) \<Rightarrow> effects
      | None \<Rightarrow>
     (case try_handle_retry_trigger_group operation endpoint retry_state status request_sent of
        Some (_, effects) \<Rightarrow> effects
      | None \<Rightarrow>
     (case try_handle_server_error operation endpoint retry_state status of
        Some (_, effects) \<Rightarrow> effects
      | None \<Rightarrow> []))))"

fun evaluate_hedge_leg_effects ::
  "cosmos_operation \<Rightarrow> cosmos_endpoint \<Rightarrow> operation_retry_state \<Rightarrow> transport_outcome \<Rightarrow> hedge_leg_evaluation" where
  "evaluate_hedge_leg_effects operation endpoint retry_state (TSuccess _ _ _) =
     \<lparr>hle_effects = [], hle_observed_session_unavailable = False\<rparr>"
| "evaluate_hedge_leg_effects operation endpoint retry_state (HttpError status _ _ request_sent) =
     \<lparr>hle_effects = hedge_http_effects operation endpoint retry_state status request_sent,
      hle_observed_session_unavailable =
        (is_read_session_not_available status \<and> can_retry_session retry_state \<and>
         ors_is_dataplane retry_state \<and> \<not> ors_can_use_multiple_write_locations retry_state \<and>
         ors_session_token_retry_count retry_state = 0 \<and> \<not> ors_hub_region_processing_only retry_state)\<rparr>"
| "evaluate_hedge_leg_effects operation endpoint retry_state (TransportFailed _ _ request_sent) =
     \<lparr>hle_effects =
        (if definitely_not_sent request_sent then [MarkEndpointUnavailable endpoint TransportError]
         else [MarkPartitionUnavailable
           (make_partition_unavailable operation endpoint retry_state (operation_is_read_only operation))]),
      hle_observed_session_unavailable = False\<rparr>"
| "evaluate_hedge_leg_effects operation endpoint retry_state (DeadlineExceeded _) =
     \<lparr>hle_effects = [], hle_observed_session_unavailable = False\<rparr>"

section \<open>Every retry is paid for\<close>

fun next_state :: "operation_action \<Rightarrow> operation_retry_state option" where
  "next_state (Complete _) = None"
| "next_state (FailoverRetry s _) = Some s"
| "next_state (InRegionRetry s _) = Some s"
| "next_state (SessionRetry s) = Some s"
| "next_state (DtxRetry s _) = Some s"
| "next_state (Hedge _ _ s) = Some s"
| "next_state (Abort _) = None"

named_theorems handler_defs \<open>definitions of the handlers\<close>

declare try_handle_write_forbidden_def [handler_defs] try_handle_database_account_not_found_def [handler_defs]
  try_handle_read_session_not_available_def [handler_defs] try_handle_retry_trigger_group_def [handler_defs]
  try_handle_retry_with_def [handler_defs] try_handle_server_error_def [handler_defs]

lemma build_session_retry_state_advances:
  "can_retry_session s \<Longrightarrow> advances s (build_session_retry_state s)"
proof -
  assume "can_retry_session s"
  from advances.session[OF this, of "ors_shared_hub_region_latch (build_session_retry_state s)"
      "ors_hub_region_processing_only (build_session_retry_state s)"]
  show ?thesis by (auto simp: build_session_retry_state_def Let_def split: if_splits)
qed

lemma handler_advances:
  "try_handle_write_forbidden operation endpoint s status = Some (a, effects) \<Longrightarrow> next_state a = Some t \<Longrightarrow> advances s t"
  "try_handle_database_account_not_found operation endpoint s status = Some (a, effects) \<Longrightarrow> next_state a = Some t \<Longrightarrow> advances s t"
  "try_handle_read_session_not_available s status headers body = Some (a, effects) \<Longrightarrow> next_state a = Some t \<Longrightarrow> advances s t"
  "try_handle_retry_trigger_group operation endpoint s status request_sent = Some (a, effects) \<Longrightarrow> next_state a = Some t \<Longrightarrow> advances s t"
  "try_handle_retry_with random s status = Some (a, effects) \<Longrightarrow> next_state a = Some t \<Longrightarrow> advances s t"
  "try_handle_server_error operation endpoint s status = Some (a, effects) \<Longrightarrow> next_state a = Some t \<Longrightarrow> advances s t"
  by (auto simp: handler_defs Let_def split: if_splits option.splits
      intro: advances.intros build_session_retry_state_advances)

lemma dtx_advances:
  "evaluate_dtx_http_outcome status headers body s = (a, effects) \<Longrightarrow> next_state a = Some t \<Longrightarrow> advances s t"
  by (auto simp: evaluate_dtx_http_outcome_def try_dtx_bodyless_retry_def split: if_splits option.splits
      intro: advances.intros)

lemma evaluate_advances:
  assumes "next_state (fst (evaluate_transport_result random operation endpoint outcome s)) = Some t"
  shows "advances s t"
proof (cases outcome)
  case (HttpError status headers body request_sent)
  then show ?thesis
    using assms by (auto simp: evaluate_http_outcome_def split: option.splits if_splits prod.splits
        dest: handler_advances dtx_advances[OF prod.collapse[symmetric]])
next
  case (TransportFailed status e request_sent)
  then show ?thesis
    using assms by (auto simp: evaluate_transport_layer_outcome_def Let_def split: if_splits intro: advances.intros)
qed (use assms in \<open>auto simp: evaluate_deadline_exceeded_outcome_def\<close>)

section \<open>Deferral\<close>

fun deferrable :: "bool \<Rightarrow> location_effect \<Rightarrow> bool" where
  "deferrable ppaf (MarkPartitionUnavailable _) = True"
| "deferrable ppaf (MarkEndpointUnavailable _ _) = ppaf"
| "deferrable ppaf _ = False"

definition waits :: "bool \<Rightarrow> bool \<Rightarrow> bool \<Rightarrow> location_effect \<Rightarrow> bool" where
  "waits read_only multi_write ppaf e \<longleftrightarrow> \<not> read_only \<and> \<not> multi_write \<and> deferrable ppaf e"

lemma defer_loop_filter:
  "defer_loop ppaf effects = (filter (\<lambda>e. \<not> deferrable ppaf e) effects, filter (deferrable ppaf) effects)"
proof (induction effects)
  case (Cons effect effects)
  then show ?case by (cases effect) simp_all
qed simp

text \<open>Deferral loses nothing and keeps the order: the effects of a read and of a write to an account with
  several write regions are all applied at once, and those of a single-master write are split
  into the marks on partitions (with failover per partition also the marks on endpoints), which wait,
  and the rest, which is applied.\<close>

theorem deferral_splits_effects:
  "partition_effects_for_deferral read_only multi_write ppaf effects =
     (filter (\<lambda>e. \<not> waits read_only multi_write ppaf e) effects,
      filter (waits read_only multi_write ppaf) effects)"
  by (simp add: partition_effects_for_deferral_def defer_loop_filter waits_def[abs_def])

section \<open>Hedge legs\<close>

lemma handler_keeps_hub:
  "try_handle_write_forbidden operation endpoint s status = Some (a, effects) \<Longrightarrow> next_state a = Some t \<Longrightarrow>
     ors_hub_region_processing_only t = ors_hub_region_processing_only s"
  "try_handle_database_account_not_found operation endpoint s status = Some (a, effects) \<Longrightarrow> next_state a = Some t \<Longrightarrow>
     ors_hub_region_processing_only t = ors_hub_region_processing_only s"
  "try_handle_retry_trigger_group operation endpoint s status request_sent = Some (a, effects) \<Longrightarrow> next_state a = Some t \<Longrightarrow>
     ors_hub_region_processing_only t = ors_hub_region_processing_only s"
  "try_handle_retry_with random s status = Some (a, effects) \<Longrightarrow> next_state a = Some t \<Longrightarrow>
     ors_hub_region_processing_only t = ors_hub_region_processing_only s"
  "try_handle_server_error operation endpoint s status = Some (a, effects) \<Longrightarrow> next_state a = Some t \<Longrightarrow>
     ors_hub_region_processing_only t = ors_hub_region_processing_only s"
  by (auto simp: handler_defs Let_def advance_failover_def advance_backend_failover_def
      advance_retry_with_delay_def split: if_splits option.splits)

lemma session_handler_hub:
  assumes "try_handle_read_session_not_available s status headers body = Some (a, effects)"
  shows "(\<exists>t. next_state a = Some t \<and> ors_hub_region_processing_only t \<and> \<not> ors_hub_region_processing_only s) \<longleftrightarrow>
    ors_is_dataplane s \<and> \<not> ors_can_use_multiple_write_locations s \<and> ors_session_token_retry_count s = 0 \<and>
    \<not> ors_hub_region_processing_only s"
  using assms
  by (auto simp: try_handle_read_session_not_available_def build_session_retry_state_def Let_def
      advance_session_retry_def split: if_splits)

lemma session_status_handled_first:
  assumes "is_read_session_not_available status"
  shows "try_handle_write_forbidden operation endpoint s status = None"
    and "try_handle_database_account_not_found operation endpoint s status = None"
  using assms by (simp_all add: handler_defs status_defs)

lemma hub_latch_evaluated:
  assumes "op_resource_type operation \<noteq> DistributedTransactionBatch"
    and ev: "evaluate_transport_result random operation endpoint (HttpError status headers body request_sent) s = (a, effects)"
  shows "(\<exists>t. next_state a = Some t \<and> ors_hub_region_processing_only t \<and> \<not> ors_hub_region_processing_only s) \<longleftrightarrow>
    is_read_session_not_available status \<and> can_retry_session s \<and> ors_is_dataplane s \<and>
    \<not> ors_can_use_multiple_write_locations s \<and> ors_session_token_retry_count s = 0 \<and>
    \<not> ors_hub_region_processing_only s"
proof (cases "is_read_session_not_available status \<and> can_retry_session s")
  case True
  then have "try_handle_read_session_not_available s status headers body = Some (a, effects)"
    using assms session_status_handled_first[of status operation endpoint s]
    by (auto simp: evaluate_http_outcome_def try_handle_read_session_not_available_def split: if_splits)
  from session_handler_hub[OF this] show ?thesis using True by blast
next
  case False
  then have "try_handle_read_session_not_available s status headers body = None"
    by (auto simp: try_handle_read_session_not_available_def)
  then have "next_state a = Some t \<Longrightarrow> ors_hub_region_processing_only t = ors_hub_region_processing_only s" for t
    using assms by (auto simp: evaluate_http_outcome_def split: option.splits dest: handler_keeps_hub)
  then show ?thesis using False by blast
qed

text \<open>C22. A leg of a hedge race is judged as the sequential pipeline judges the same response: outside
  distributed transactions the effects are those of the evaluation that decides a retry, and the leg
  reports an unavailable session exactly when that evaluation would latch the hub region.\<close>

theorem hedge_leg_agrees:
  assumes "op_resource_type operation \<noteq> DistributedTransactionBatch"
    and "evaluate_transport_result random operation endpoint outcome retry_state = (a, effects)"
  shows "hle_effects (evaluate_hedge_leg_effects operation endpoint retry_state outcome) = effects \<and>
    (hle_observed_session_unavailable (evaluate_hedge_leg_effects operation endpoint retry_state outcome) \<longleftrightarrow>
     (\<exists>t. next_state a = Some t \<and> ors_hub_region_processing_only t \<and> \<not> ors_hub_region_processing_only retry_state))"
proof (cases outcome)
  case (HttpError status headers body request_sent)
  have "hedge_http_effects operation endpoint retry_state status request_sent = effects"
    using assms HttpError
    by (auto simp: evaluate_http_outcome_def hedge_http_effects_def try_handle_read_session_not_available_def
        try_handle_retry_with_def try_handle_retry_trigger_group_def try_handle_server_error_def in_trigger_group_def
        status_defs Let_def split: option.splits if_splits prod.splits)
  then show ?thesis
    using hub_latch_evaluated[OF assms(1), of random endpoint] assms(2) HttpError by simp
next
  case (TransportFailed status e request_sent)
  then show ?thesis
    using assms(2) by (auto simp: evaluate_transport_layer_outcome_def Let_def advance_failover_def split: if_splits)
qed (use assms(2) in \<open>auto simp: evaluate_deadline_exceeded_outcome_def\<close>)

theorem hedge_leg_agrees_witness:
  "hle_effects (evaluate_hedge_leg_effects
      \<lparr>op_resource_type = Document, op_operation_type = Read, op_container = None\<rparr>
      (endpoint_regional ''westus'' ''https://w'')
      (retry_state_initial 0 False [] 3 2)
      (HttpError (cosmos_status_new 503) response_headers_default [] Sent)) =
    [MarkPartitionUnavailable
       \<lparr>up_partition_key_range_id = None, up_region = Some ''westus'', up_is_read = True, up_is_partitioned_resource = True\<rparr>,
     MarkEndpointUnavailable (endpoint_regional ''westus'' ''https://w'') ServiceUnavailable]"
  by (rule hedge_leg_agrees[THEN conjunct1, of _ 0 _ _ _
        "FailoverRetry (advance_failover (retry_state_initial 0 False [] 3 2)) None"])
     (simp_all add: evaluate_http_outcome_def handler_defs status_defs in_trigger_group_def cosmos_status_new_def
       can_retry_failover_def retry_state_initial_def definitely_not_sent_def is_ppcb_managed_def
       make_partition_unavailable_def operation_is_read_only_def operation_is_partitioned_def is_read_only_def
       endpoint_regional_def)

section \<open>What fails over, and what is reported\<close>

definition region_failure :: "transport_outcome \<Rightarrow> bool" where
  "region_failure outcome \<longleftrightarrow>
     (case outcome of
        HttpError status _ _ _ \<Rightarrow> in_trigger_group status \<or> status_is_server_error (cs_status_code status)
      | TransportFailed _ _ _ \<Rightarrow> True
      | _ \<Rightarrow> False)"

text \<open>C23. While the failover budget lasts, a failure of a region is always answered by a retry elsewhere:
  a 503, 408, 410 (unless the partitions moved), 429/3092, any other server error and every transport
  error lead to a failover, for reads and for writes, whether or not the operation is idempotent and
  whether or not the request may have been sent.\<close>

theorem region_failure_fails_over:
  assumes "region_failure outcome" and "can_retry_failover retry_state"
    and "op_resource_type operation \<noteq> DistributedTransactionBatch"
  shows "fst (evaluate_transport_result random operation endpoint outcome retry_state) =
    FailoverRetry (advance_failover retry_state) None"
  using assms
  by (cases outcome)
     (auto simp: region_failure_def evaluate_http_outcome_def evaluate_transport_layer_outcome_def handler_defs
       in_trigger_group_def status_defs Let_def split: option.splits if_splits)

theorem region_failure_fails_over_witness:
  "fst (evaluate_transport_result 0
      \<lparr>op_resource_type = Document, op_operation_type = Create, op_container = None\<rparr>
      (endpoint_regional ''westus'' ''https://w'')
      (TransportFailed TRANSPORT_GENERATED_503 (CosmosError TRANSPORT_GENERATED_503 Synthetic None) SentUnknown)
      (retry_state_initial 0 False [] 3 2)) =
    FailoverRetry (advance_failover (retry_state_initial 0 False [] 3 2)) None \<and>
   \<not> is_idempotent Create"
  using region_failure_fails_over[of
      "TransportFailed TRANSPORT_GENERATED_503 (CosmosError TRANSPORT_GENERATED_503 Synthetic None) SentUnknown"
      "retry_state_initial 0 False [] 3 2"
      "\<lparr>op_resource_type = Document, op_operation_type = Create, op_container = None\<rparr>" 0
      "endpoint_regional ''westus'' ''https://w''"]
  by (simp add: region_failure_def can_retry_failover_def retry_state_initial_def is_idempotent_def)

lemma handler_no_abort:
  "try_handle_write_forbidden operation endpoint s status \<noteq> Some (Abort e, effects)"
  "try_handle_database_account_not_found operation endpoint s status \<noteq> Some (Abort e, effects)"
  "try_handle_retry_trigger_group operation endpoint s status request_sent \<noteq> Some (Abort e, effects)"
  "try_handle_retry_with random s status \<noteq> Some (Abort e, effects)"
  "try_handle_server_error operation endpoint s status \<noteq> Some (Abort e, effects)"
  by (simp_all add: handler_defs Let_def split: option.splits)

lemma session_handler_abort:
  "try_handle_read_session_not_available s status headers body = Some (Abort e, effects) \<Longrightarrow>
   e = build_service_error status headers body"
  by (auto simp: try_handle_read_session_not_available_def split: if_splits)

lemma dtx_no_abort: "evaluate_dtx_http_outcome status headers body s \<noteq> (Abort e, effects)"
  by (simp add: evaluate_dtx_http_outcome_def split: option.splits)

lemma http_abort:
  assumes "fst (evaluate_http_outcome random operation endpoint s status headers body request_sent) = Abort e"
  shows "e = build_service_error status headers body"
proof -
  obtain effects where "evaluate_http_outcome random operation endpoint s status headers body request_sent = (Abort e, effects)"
    using assms by (metis prod.collapse)
  then show ?thesis
    by (auto simp: evaluate_http_outcome_def handler_no_abort dtx_no_abort
        split: option.splits if_splits dest: session_handler_abort)
qed

text \<open>An operation that gives up reports what happened: a service error carries the body and the
  headers of the response and its status (or the status of an unservable cross-partition query,
  recognised from the body of a bare 400), a transport error the status and the error underneath, and
  an expired deadline the status 408/20008. A success never ends in an error.\<close>

theorem abort_reports_outcome:
  assumes "fst (evaluate_transport_result random operation endpoint outcome retry_state) = Abort e"
  shows "case outcome of
      TSuccess _ _ _ \<Rightarrow> False
    | HttpError status headers body _ \<Rightarrow>
        wire_payload e = Some (body, headers) \<and>
        (err_status e = status \<or> status = cosmos_status_new 400 \<and> err_status e = CROSS_PARTITION_QUERY_NOT_SERVABLE)
    | TransportFailed status cause _ \<Rightarrow> err_status e = status \<and> err_source e = Some cause
    | DeadlineExceeded _ \<Rightarrow> err_status e = CLIENT_OPERATION_TIMEOUT"
proof (cases outcome)
  case (HttpError status headers body request_sent)
  then have "e = build_service_error status headers body"
    using assms by (auto dest: http_abort)
  then show ?thesis
    using HttpError by (auto simp: build_service_error_def wire_payload_def cosmos_status_new_def
        synthesize_cross_partition_query_status_def)
qed (use assms in \<open>auto simp: evaluate_transport_layer_outcome_def evaluate_deadline_exceeded_outcome_def
  build_transport_error_def Let_def split: if_splits\<close>)

theorem abort_reports_outcome_witness:
  "wire_payload (build_service_error (from_parts 409 None) response_headers_default ''{}'') =
     Some (''{}'', response_headers_default)"
  using abort_reports_outcome[of 0
      "\<lparr>op_resource_type = Document, op_operation_type = Create, op_container = None\<rparr>"
      "endpoint_regional ''westus'' ''https://w''" "HttpError (from_parts 409 None) response_headers_default ''{}'' Sent"
      "retry_state_initial 0 False [] 3 2" "build_service_error (from_parts 409 None) response_headers_default ''{}''"]
  by (simp add: evaluate_http_outcome_def handler_defs status_defs in_trigger_group_def from_parts_def)

end
