(* ===== verification/Operation_Routing.thy ===== *)
theory Operation_Routing
  imports Retry_Evaluation Location_Store
begin

text \<open>
  The choice of the endpoint of an attempt: the routing helpers of \<^verbatim>\<open>driver/pipeline/operation_pipeline.rs\<close>
  and \<^verbatim>\<open>driver/transport/gateway_v2_eligibility.rs\<close>. The clock is an argument: \<open>clock n\<close> is the
  time of the \<open>n\<close>-th reading within a call. A panic of the sources (\<^verbatim>\<open>expect\<close> on an empty endpoint
  list) is \<open>None\<close>. The connection-pool key of a routing decision is a function of its URL and left
  out; the debug assertion on global endpoints is absent, as in a release build.
\<close>

section \<open>Gateway 2.0 eligibility\<close>

definition is_operation_supported_by_gateway_v2 :: "resource_type \<Rightarrow> operation_type \<Rightarrow> bool" where
  "is_operation_supported_by_gateway_v2 resource_type operation_type =
     (case resource_type of
        Document \<Rightarrow>
          (case operation_type of
             Create \<Rightarrow> True | Read \<Rightarrow> True | Replace \<Rightarrow> True | Upsert \<Rightarrow> True | Delete \<Rightarrow> True
           | Query \<Rightarrow> True | SqlQuery \<Rightarrow> True | QueryPlan \<Rightarrow> True | ReadFeed \<Rightarrow> True | Batch \<Rightarrow> True
           | _ \<Rightarrow> False)
      | _ \<Rightarrow> False)"

section \<open>Snapshots\<close>

record location_snapshot =
  snap_account :: account_endpoint_state
  snap_partitions :: partition_endpoint_state

text \<open>What a quiescent store hands out; \<open>Location_Snapshot\<close> treats the cache under concurrency.\<close>

definition snapshot :: "location_store \<Rightarrow> location_snapshot" where
  "snapshot store = \<lparr>snap_account = ls_account store, snap_partitions = ls_partitions store\<rparr>"

section \<open>Selecting an endpoint\<close>

definition is_distributed_transaction_operation :: "cosmos_operation \<Rightarrow> bool" where
  "is_distributed_transaction_operation operation \<longleftrightarrow> op_resource_type operation = DistributedTransactionBatch"

definition preferred_endpoints_for_attempt ::
  "account_endpoint_state \<Rightarrow> operation_retry_state \<Rightarrow> bool \<Rightarrow> bool \<Rightarrow> bool \<Rightarrow> cosmos_endpoint list" where
  "preferred_endpoints_for_attempt account retry_state read_only route_to_write_endpoints
       is_distributed_transaction =
     (if is_distributed_transaction then aes_account_write_endpoints account
      else if read_only \<and> (route_to_write_endpoints \<or> route_reads_to_write_endpoints retry_state)
      then aes_preferred_write_endpoints account
      else if \<not> read_only \<and> ors_ppaf_write_retry_allowed retry_state
      then aes_preferred_read_endpoints account
      else preferred_endpoints account read_only)"

definition endpoint_is_available ::
  "cosmos_operation \<Rightarrow> cosmos_endpoint \<Rightarrow> account_endpoint_state \<Rightarrow> instant \<Rightarrow> duration \<Rightarrow> bool" where
  "endpoint_is_available operation endpoint account now endpoint_unavailability_ttl =
     (case hm_get (aes_unavailable_endpoints account) (ep_gateway_url endpoint) of
        None \<Rightarrow> True
      | Some (marked_at, reason) \<Rightarrow>
          if operation_is_read_only operation \<and> reason = WriteForbidden then True
          else \<not> saturating_duration_since now marked_at < endpoint_unavailability_ttl)"

definition region_among :: "region list \<Rightarrow> cosmos_endpoint \<Rightarrow> bool" where
  "region_among regions endpoint =
     (case ep_region endpoint of Some r \<Rightarrow> r \<in> set regions | None \<Rightarrow> False)"

text \<open>The loop of \<^verbatim>\<open>try_select_endpoint\<close> over the candidates in the order of its indices.\<close>

fun select_loop ::
  "(cosmos_endpoint \<Rightarrow> bool) \<Rightarrow> (cosmos_endpoint \<Rightarrow> bool) \<Rightarrow> (cosmos_endpoint \<Rightarrow> bool) \<Rightarrow>
   cosmos_endpoint list \<Rightarrow> cosmos_endpoint option \<Rightarrow> cosmos_endpoint option" where
  "select_loop excluded in_skip_set available [] first_unavailable = first_unavailable"
| "select_loop excluded in_skip_set available (candidate # rest) first_unavailable =
     (if excluded candidate then select_loop excluded in_skip_set available rest first_unavailable
      else if in_skip_set candidate then select_loop excluded in_skip_set available rest first_unavailable
      else if available candidate then Some candidate
      else select_loop excluded in_skip_set available rest
        (case first_unavailable of None \<Rightarrow> Some candidate | Some e \<Rightarrow> Some e))"

definition attempt_order :: "operation_retry_state \<Rightarrow> account_endpoint_state \<Rightarrow> cosmos_endpoint list \<Rightarrow> cosmos_endpoint list" where
  "attempt_order retry_state account endpoints =
     (let base_index = (if location_is_current (ors_location retry_state) (aes_generation account)
                        then li_index (ors_location retry_state) else 0)
      in map (\<lambda>i. endpoints ! ((base_index + i) mod length endpoints)) [0..<length endpoints])"

definition try_select_endpoint ::
  "cosmos_operation \<Rightarrow> operation_retry_state \<Rightarrow> account_endpoint_state \<Rightarrow> cosmos_endpoint list \<Rightarrow> region list \<Rightarrow>
   instant \<Rightarrow> duration \<Rightarrow> cosmos_endpoint option" where
  "try_select_endpoint operation retry_state account endpoints skip_regions now endpoint_unavailability_ttl =
     (if endpoints = [] then None
      else select_loop (region_among (ors_excluded_regions retry_state)) (region_among skip_regions)
        (\<lambda>candidate. endpoint_is_available operation candidate account now endpoint_unavailability_ttl)
        (attempt_order retry_state account endpoints) None)"

section \<open>Resolving the endpoint of an attempt\<close>

fun effect_region :: "location_effect \<Rightarrow> region option" where
  "effect_region (MarkPartitionUnavailable p) = up_region p"
| "effect_region (MarkEndpointUnavailable endpoint _) = ep_region endpoint"
| "effect_region RefreshAccountProperties = None"
| "effect_region (CacheHubRegion _ _) = None"
| "effect_region (AdvanceHubRegionDiscovery _ _) = None"

definition in_flight_failed :: "cosmos_operation \<Rightarrow> operation_retry_state \<Rightarrow> region list" where
  "in_flight_failed operation retry_state =
     (if routes_to_write_endpoints (op_operation_type operation)
      then List.map_filter effect_region (ors_pending_write_effects retry_state) else [])"

definition primary_endpoints :: "cosmos_operation \<Rightarrow> operation_retry_state \<Rightarrow> account_endpoint_state \<Rightarrow> cosmos_endpoint list" where
  "primary_endpoints operation retry_state account =
     preferred_endpoints_for_attempt account retry_state (operation_is_read_only operation)
       (routes_to_write_endpoints (op_operation_type operation)) (is_distributed_transaction_operation operation)"

definition selected_endpoint ::
  "(nat \<Rightarrow> instant) \<Rightarrow> cosmos_operation \<Rightarrow> operation_retry_state \<Rightarrow> account_endpoint_state \<Rightarrow> duration \<Rightarrow>
   cosmos_endpoint option" where
  "selected_endpoint clock operation retry_state account ttl =
     (let primary = primary_endpoints operation retry_state account in
      case try_select_endpoint operation retry_state account primary (in_flight_failed operation retry_state)
             (clock 0) ttl of
        Some e \<Rightarrow> Some e
      | None \<Rightarrow>
          (case try_select_endpoint operation retry_state account primary [] (clock 1) ttl of
             Some e \<Rightarrow> Some e
           | None \<Rightarrow>
               (case (if is_distributed_transaction_operation operation then aes_account_write_endpoints account
                      else aes_preferred_write_endpoints account) of
                  e # _ \<Rightarrow> Some e
                | [] \<Rightarrow> None)))"

definition make_routing :: "cosmos_operation \<Rightarrow> bool \<Rightarrow> bool \<Rightarrow> cosmos_endpoint \<Rightarrow> routing_decision" where
  "make_routing operation prefer_gateway_v2 account_name_present ep =
     (let use_gw_v2 = uses_gateway_v2 ep prefer_gateway_v2 \<and> account_name_present \<and>
            is_operation_supported_by_gateway_v2 (op_resource_type operation) (op_operation_type operation)
      in \<lparr>rd_endpoint = ep, rd_selected_url = selected_url ep use_gw_v2,
          rd_transport_mode = (if use_gw_v2 then GatewayV2 else Gateway)\<rparr>)"

definition region_not_in_topology :: "account_endpoint_state \<Rightarrow> cosmos_endpoint \<Rightarrow> bool" where
  "region_not_in_topology account ep =
     (case ep_region ep of
        None \<Rightarrow> False
      | Some region \<Rightarrow>
          \<not> list_ex (\<lambda>known. ep_region known = Some region)
            (aes_preferred_read_endpoints account @ aes_preferred_write_endpoints account))"

definition ppcb_should_skip ::
  "cosmos_operation \<Rightarrow> operation_retry_state \<Rightarrow> account_endpoint_state \<Rightarrow> instant \<Rightarrow> duration \<Rightarrow> cosmos_endpoint \<Rightarrow> bool" where
  "ppcb_should_skip operation retry_state account now ttl ep =
     (if region_among (in_flight_failed operation retry_state) ep then True
      else if region_not_in_topology account ep then True
      else if region_among (ors_excluded_regions retry_state) ep then True
      else \<not> endpoint_is_available operation ep account now ttl)"

definition ppcb_override ::
  "cosmos_operation \<Rightarrow> operation_retry_state \<Rightarrow> location_snapshot \<Rightarrow> instant \<Rightarrow> duration \<Rightarrow> partition_failover_entry \<Rightarrow>
   cosmos_endpoint option" where
  "ppcb_override operation retry_state location now ttl entry =
     (let skip = ppcb_should_skip operation retry_state (snap_account location) now ttl in
      if pfe_health_status entry = ProbeCandidate \<and> \<not> skip (pfe_first_failed_endpoint entry)
      then Some (pfe_first_failed_endpoint entry)
      else if can_circuit_breaker_trigger_failover entry (operation_is_read_only operation)
             (pes_config (snap_partitions location)) \<and> \<not> skip (pfe_current_endpoint entry)
      then Some (pfe_current_endpoint entry)
      else None)"

text \<open>The partition-level part of \<^verbatim>\<open>resolve_endpoint\<close>: the endpoint of an early return, if any.\<close>

definition partition_override ::
  "cosmos_operation \<Rightarrow> operation_retry_state \<Rightarrow> location_snapshot \<Rightarrow> instant \<Rightarrow> duration \<Rightarrow> cosmos_endpoint option" where
  "partition_override operation retry_state location now ttl =
     (case ors_partition_key_range_id retry_state of
        None \<Rightarrow> None
      | Some pk_range_id \<Rightarrow>
          let account = snap_account location;
              partitions = snap_partitions location;
              is_read = operation_is_read_only operation;
              failed = region_among (in_flight_failed operation retry_state);
              hub_latch_active = (is_read \<and> ors_hub_region_processing_only retry_state \<and> pes_ppaf_enabled partitions);
              hub = (if hub_latch_active then
                       (case hm_get (pes_failover_overrides partitions) pk_range_id of
                          Some entry \<Rightarrow>
                            if \<not> failed (pfe_current_endpoint entry) \<and>
                               \<not> region_among (ors_excluded_regions retry_state) (pfe_current_endpoint entry) \<and>
                               endpoint_is_available operation (pfe_current_endpoint entry) account now ttl
                            then Some (pfe_current_endpoint entry) else None
                        | None \<Rightarrow> None)
                     else None)
          in if hub \<noteq> None then hub
             else if \<not> hub_latch_active \<and>
                 is_eligible_for_ppcb partitions account is_read (operation_is_partitioned operation) then
               Option.bind (hm_get (pes_circuit_breaker_overrides partitions) pk_range_id)
                 (ppcb_override operation retry_state location now ttl)
             else if is_eligible_for_ppaf partitions account is_read (operation_is_partitioned operation) then
               (case hm_get (pes_failover_overrides partitions) pk_range_id of
                  Some entry \<Rightarrow> if \<not> failed (pfe_current_endpoint entry) then Some (pfe_current_endpoint entry) else None
                | None \<Rightarrow> None)
             else None)"

definition resolve_endpoint ::
  "(nat \<Rightarrow> instant) \<Rightarrow> cosmos_operation \<Rightarrow> operation_retry_state \<Rightarrow> location_snapshot \<Rightarrow> bool \<Rightarrow> bool \<Rightarrow> duration \<Rightarrow>
   routing_decision option" where
  "resolve_endpoint clock operation retry_state location prefer_gateway_v2 account_name_present ttl =
     (case selected_endpoint clock operation retry_state (snap_account location) ttl of
        None \<Rightarrow> None
      | Some selected \<Rightarrow>
          Some (make_routing operation prefer_gateway_v2 account_name_present
            (case partition_override operation retry_state location (clock 2) ttl of
               Some ep \<Rightarrow> ep
             | None \<Rightarrow> selected)))"

section \<open>Deferred effects\<close>

definition entry_already_moved :: "region \<Rightarrow> partition_failover_entry \<Rightarrow> bool" where
  "entry_already_moved failed_region entry =
     (case ep_region (pfe_current_endpoint entry) of Some r \<Rightarrow> r \<noteq> failed_region | None \<Rightarrow> False)"

fun is_effect_already_applied :: "location_snapshot \<Rightarrow> location_effect \<Rightarrow> bool" where
  "is_effect_already_applied location (MarkEndpointUnavailable endpoint _) =
     hm_contains_key (ep_gateway_url endpoint) (aes_unavailable_endpoints (snap_account location))"
| "is_effect_already_applied location (MarkPartitionUnavailable p) =
     (case up_partition_key_range_id p of
        None \<Rightarrow> True
      | Some pk_range_id \<Rightarrow>
          (case up_region p of
             None \<Rightarrow> False
           | Some failed_region \<Rightarrow>
               let moved = (\<lambda>m. case hm_get m pk_range_id of
                              Some entry \<Rightarrow> entry_already_moved failed_region entry | None \<Rightarrow> False)
               in moved (pes_failover_overrides (snap_partitions location)) \<or>
                  moved (pes_circuit_breaker_overrides (snap_partitions location))))"
| "is_effect_already_applied location RefreshAccountProperties = False"
| "is_effect_already_applied location (CacheHubRegion _ _) = False"
| "is_effect_already_applied location (AdvanceHubRegionDiscovery _ _) = False"

text \<open>The environments of the effects that one call of \<^verbatim>\<open>apply\<close> meets, by position.\<close>

definition apply_all :: "(nat \<Rightarrow> apply_env) \<Rightarrow> location_effect list \<Rightarrow> location_store \<Rightarrow> location_store" where
  "apply_all envs effects store = apply_effects (zip (map envs [0..<length effects]) effects) store"

definition flush_pending_write_effects ::
  "(nat \<Rightarrow> apply_env) \<Rightarrow> operation_retry_state \<Rightarrow> location_store \<Rightarrow> operation_retry_state \<times> location_store" where
  "flush_pending_write_effects envs retry_state store =
     (if ors_pending_write_effects retry_state = [] then (retry_state, store)
      else
        let effects = filter (\<lambda>effect. \<not> is_effect_already_applied (snapshot store) effect)
              (ors_pending_write_effects retry_state);
            retry_state = retry_state\<lparr>ors_pending_write_effects := []\<rparr>
        in if effects = [] then (retry_state, store) else (retry_state, apply_all envs effects store))"

section \<open>The next attempt\<close>

definition advance_to_next_attempt ::
  "operation_retry_state \<Rightarrow> operation_retry_state \<Rightarrow> location_store \<Rightarrow> cosmos_operation \<Rightarrow> operation_retry_state" where
  "advance_to_next_attempt retry_state new_state store operation =
     (let next_location = snapshot store;
          endpoints_len = length (primary_endpoints operation new_state (snap_account next_location));
          pending = ors_pending_write_effects retry_state
      in (advance_location new_state endpoints_len (aes_generation (snap_account next_location)))
         \<lparr>ors_pending_write_effects := pending\<rparr>)"

definition try_cleanup_probe_candidate :: "operation_retry_state \<Rightarrow> location_store \<Rightarrow> location_store" where
  "try_cleanup_probe_candidate retry_state store =
     (case ors_partition_key_range_id retry_state of
        None \<Rightarrow> store
      | Some pk_range_id \<Rightarrow>
          let is_probe = (\<lambda>current. case hm_get (pes_circuit_breaker_overrides current) pk_range_id of
                            Some e \<Rightarrow> pfe_health_status e = ProbeCandidate | None \<Rightarrow> False)
          in if \<not> is_probe (snap_partitions (snapshot store)) then store
             else apply_partition
               (\<lambda>current. if is_probe current then remove_probe_succeeded_entry current pk_range_id else current) store)"

definition hub_region_cache_populate_target ::
  "operation_retry_state \<Rightarrow> cosmos_operation \<Rightarrow> pk_range_id option" where
  "hub_region_cache_populate_target retry_state operation =
     (if ors_hub_region_processing_only retry_state \<and> operation_is_read_only operation
      then ors_partition_key_range_id retry_state else None)"

text \<open>The hub-region cache population of a completed operation.\<close>

definition populate_hub_region ::
  "(nat \<Rightarrow> apply_env) \<Rightarrow> operation_retry_state \<Rightarrow> cosmos_operation \<Rightarrow> cosmos_endpoint \<Rightarrow> location_store \<Rightarrow> location_store" where
  "populate_hub_region envs retry_state operation endpoint store =
     (case hub_region_cache_populate_target retry_state operation of
        None \<Rightarrow> store
      | Some pk_range_id \<Rightarrow>
          let partitions = snap_partitions (snapshot store);
              already_cached = (case hm_get (pes_failover_overrides partitions) pk_range_id of
                Some entry \<Rightarrow> pfe_current_endpoint entry = endpoint | None \<Rightarrow> False)
          in if pes_ppaf_enabled partitions \<and> \<not> already_cached
             then apply_all envs [CacheHubRegion pk_range_id endpoint] store else store)"

section \<open>The selection loop\<close>

definition eligible :: "cosmos_operation \<Rightarrow> operation_retry_state \<Rightarrow> cosmos_endpoint \<Rightarrow> bool" where
  "eligible operation retry_state e \<longleftrightarrow>
     \<not> region_among (ors_excluded_regions retry_state) e \<and> \<not> region_among (in_flight_failed operation retry_state) e"

lemma attempt_order_rotate:
  "attempt_order retry_state account endpoints =
     rotate (if location_is_current (ors_location retry_state) (aes_generation account)
             then li_index (ors_location retry_state) else 0) endpoints"
  by (rule nth_equalityI) (simp_all add: attempt_order_def nth_rotate)

lemma set_attempt_order [simp]: "set (attempt_order retry_state account endpoints) = set endpoints"
  by (simp add: attempt_order_rotate)

text \<open>The loop returns the first available candidate, else the first one that is merely unavailable.\<close>

lemma select_loop_spec:
  "select_loop ex sk av cs fu =
     (case find av (filter (\<lambda>e. \<not> ex e \<and> \<not> sk e) cs) of
        Some e \<Rightarrow> Some e
      | None \<Rightarrow> (case fu of Some e \<Rightarrow> Some e
         | None \<Rightarrow> (case filter (\<lambda>e. \<not> ex e \<and> \<not> sk e) cs of [] \<Rightarrow> None | e # _ \<Rightarrow> Some e)))"
  by (induction cs arbitrary: fu) (auto split: option.splits list.splits)

lemma find_filter_SomeD: "find P (filter Q xs) = Some x \<Longrightarrow> x \<in> set xs \<and> Q x \<and> P x"
  by (induction xs) (auto split: if_splits)

lemma select_loop_Some:
  "select_loop ex sk av cs None = Some e \<Longrightarrow>
   e \<in> set cs \<and> \<not> ex e \<and> \<not> sk e \<and> (av e \<or> (\<forall>c\<in>set cs. \<not> ex c \<longrightarrow> \<not> sk c \<longrightarrow> \<not> av c))"
  unfolding select_loop_spec
  by (auto dest!: find_filter_SomeD simp: find_None_iff filter_eq_Cons_iff split: option.splits list.splits)

lemma select_loop_None:
  "select_loop ex sk av cs None = None \<Longrightarrow> c \<in> set cs \<Longrightarrow> ex c \<or> sk c"
  unfolding select_loop_spec by (auto simp: filter_empty_conv split: option.splits list.splits)

lemma try_select_Some:
  "try_select_endpoint operation retry_state account endpoints skip now ttl = Some e \<Longrightarrow>
   e \<in> set endpoints \<and> \<not> region_among (ors_excluded_regions retry_state) e \<and> \<not> region_among skip e \<and>
   (endpoint_is_available operation e account now ttl \<or>
    (\<forall>c\<in>set endpoints. \<not> region_among (ors_excluded_regions retry_state) c \<longrightarrow> \<not> region_among skip c \<longrightarrow>
       \<not> endpoint_is_available operation c account now ttl))"
  unfolding try_select_endpoint_def by (cases "endpoints = []") (auto dest: select_loop_Some)

lemma try_select_None:
  "try_select_endpoint operation retry_state account endpoints skip now ttl = None \<Longrightarrow> c \<in> set endpoints \<Longrightarrow>
   region_among (ors_excluded_regions retry_state) c \<or> region_among skip c"
  unfolding try_select_endpoint_def by (cases "endpoints = []") (auto dest: select_loop_None[where c = c])

lemma selected_eligible:
  assumes "selected_endpoint clock operation retry_state account ttl = Some sel"
    and "e \<in> set (primary_endpoints operation retry_state account)" and "eligible operation retry_state e"
  shows "eligible operation retry_state sel"
    and "endpoint_is_available operation e account (clock 0) ttl \<Longrightarrow>
      endpoint_is_available operation sel account (clock 0) ttl"
  using assms unfolding selected_endpoint_def Let_def eligible_def
  by (auto dest: try_select_None try_select_Some split: option.splits)

lemma selected_known:
  assumes "selected_endpoint clock operation retry_state account ttl = Some sel"
  shows "sel \<in> set (aes_preferred_read_endpoints account) \<union> set (aes_preferred_write_endpoints account) \<union>
    set (aes_account_write_endpoints account)"
proof -
  have "set (primary_endpoints operation retry_state account) \<subseteq>
      set (aes_preferred_read_endpoints account) \<union> set (aes_preferred_write_endpoints account) \<union>
      set (aes_account_write_endpoints account)"
    by (auto simp: primary_endpoints_def preferred_endpoints_for_attempt_def preferred_endpoints_def split: if_splits)
  with assms show ?thesis
    unfolding selected_endpoint_def Let_def
    by (auto dest!: try_select_Some split: option.splits list.splits if_splits)
qed

lemma selected_total:
  "aes_preferred_write_endpoints account \<noteq> [] \<Longrightarrow> aes_account_write_endpoints account \<noteq> [] \<Longrightarrow>
   \<exists>sel. selected_endpoint clock operation retry_state account ttl = Some sel"
  unfolding selected_endpoint_def Let_def by (auto split: option.splits list.splits)

lemma ppcb_override_eligible:
  "ppcb_override operation retry_state location now ttl entry = Some e \<Longrightarrow>
   eligible operation retry_state e \<and> endpoint_is_available operation e (snap_account location) now ttl"
  by (auto simp: ppcb_override_def ppcb_should_skip_def eligible_def Let_def split: if_splits)

lemma partition_override_cases:
  assumes "partition_override operation retry_state location now ttl = Some e"
  shows "(eligible operation retry_state e \<and> endpoint_is_available operation e (snap_account location) now ttl) \<or>
    (is_eligible_for_ppaf (snap_partitions location) (snap_account location)
       (operation_is_read_only operation) (operation_is_partitioned operation) \<and>
     \<not> region_among (in_flight_failed operation retry_state) e)"
  using assms unfolding partition_override_def Let_def
  by (auto simp: eligible_def Option.bind_eq_Some_conv dest!: ppcb_override_eligible
      split: option.splits if_splits)

lemma resolve_SomeE:
  assumes "resolve_endpoint clock operation retry_state location g n ttl = Some rd"
  obtains sel where "selected_endpoint clock operation retry_state (snap_account location) ttl = Some sel"
    and "rd_endpoint rd = (case partition_override operation retry_state location (clock 2) ttl of
           Some ep \<Rightarrow> ep | None \<Rightarrow> sel)"
  using assms by (auto simp: resolve_endpoint_def make_routing_def Let_def split: option.splits)

section \<open>A two-region account\<close>

text \<open>A single-master account with an eastern write region and a western read region, on which
  per-partition automatic failover and, by default, the circuit breaker are enabled.\<close>

definition east :: cosmos_endpoint where "east = endpoint_regional ''eastus'' ''e''"
definition west :: cosmos_endpoint where "west = endpoint_regional ''westus'' ''w''"

definition two_regions :: location_store where
  "two_regions = (location_store_new east False 60 partition_failover_default [] False)
     \<lparr>ls_account := (account_state_single east)\<lparr>aes_preferred_read_endpoints := [east, west]\<rparr>,
      ls_partitions := (partition_state_new partition_failover_default)\<lparr>pes_ppaf_enabled := True, pes_ppcb_enabled := True\<rparr>\<rparr>"

definition item_operation :: "operation_type \<Rightarrow> cosmos_operation" where
  "item_operation t = \<lparr>op_resource_type = Document, op_operation_type = t, op_container = None\<rparr>"

definition write_retry_state :: "location_effect list \<Rightarrow> operation_retry_state" where
  "write_retry_state pending = (retry_state_initial 0 False [] 3 2)
     \<lparr>ors_partition_key_range_id := Some ''0'', ors_ppaf_write_retry_allowed := True, ors_pending_write_effects := pending\<rparr>"

lemmas two_region_defs = east_def west_def endpoint_regional_def two_regions_def location_store_new_def
  account_state_single_def partition_state_new_def item_operation_def write_retry_state_def retry_state_initial_def
  snapshot_def operation_is_read_only_def operation_is_partitioned_def is_read_only_def routes_to_write_endpoints_def

lemmas routing_defs = resolve_endpoint_def selected_endpoint_def primary_endpoints_def preferred_endpoints_for_attempt_def
  preferred_endpoints_def is_distributed_transaction_operation_def try_select_endpoint_def attempt_order_def Let_def
  location_is_current_def location_index_initial_def region_among_def in_flight_failed_def List.map_filter_def
  endpoint_is_available_def make_routing_def uses_gateway_v2_def selected_url_def partition_override_def
  is_eligible_for_ppcb_def is_eligible_for_ppaf_def

lemma two_regions_ok: "store_ok two_regions"
  by (simp add: two_region_defs store_ok_def partition_wf_def)

section \<open>Routing is sound\<close>

text \<open>C13. A write does not go back to a region for which it holds a deferred failure mark, while the list of
  endpoints it walks still has an endpoint that the caller has not excluded and for which it holds no such
  mark. This holds for every partition-level override as well. Only writes to a single write region
  defer their marks; reads and writes to several regions put theirs on the store at once and carry no
  regions to avoid.\<close>

theorem routing_avoids_failed_regions:
  assumes "resolve_endpoint clock operation retry_state location g n ttl = Some rd"
    and "routes_to_write_endpoints (op_operation_type operation)"
    and "effect \<in> set (ors_pending_write_effects retry_state)" and "effect_region effect = Some failed"
    and "e \<in> set (primary_endpoints operation retry_state (snap_account location))"
    and "eligible operation retry_state e"
  shows "ep_region (rd_endpoint rd) \<noteq> Some failed"
proof -
  have "failed \<in> set (in_flight_failed operation retry_state)"
    using assms(2-4) by (auto simp: in_flight_failed_def map_filter_def intro!: rev_image_eqI[of effect])
  moreover have "\<not> region_among (in_flight_failed operation retry_state) (rd_endpoint rd)"
    using assms(1)
  proof (cases rule: resolve_SomeE)
    case (1 sel)
    then show ?thesis
      using selected_eligible(1)[OF 1(1) assms(5,6)]
      by (auto simp: eligible_def dest!: partition_override_cases split: option.splits)
  qed
  ultimately show ?thesis by (auto simp: region_among_def)
qed

theorem routing_avoids_failed_regions_witness:
  "resolve_endpoint (\<lambda>_. 5) (item_operation Create) (write_retry_state [MarkEndpointUnavailable east ServiceUnavailable])
     (snapshot two_regions) False False 60 = Some \<lparr>rd_endpoint = west, rd_selected_url = ''w'', rd_transport_mode = Gateway\<rparr> \<and>
   ep_region west \<noteq> Some ''eastus''"
proof -
  let ?st = "write_retry_state [MarkEndpointUnavailable east ServiceUnavailable]"
  have rd: "resolve_endpoint (\<lambda>_. 5) (item_operation Create) ?st (snapshot two_regions) False False 60 =
      Some \<lparr>rd_endpoint = west, rd_selected_url = ''w'', rd_transport_mode = Gateway\<rparr>"
    by (simp add: routing_defs two_region_defs)
  have "routes_to_write_endpoints (op_operation_type (item_operation Create))"
    "MarkEndpointUnavailable east ServiceUnavailable \<in> set (ors_pending_write_effects ?st)"
    "effect_region (MarkEndpointUnavailable east ServiceUnavailable) = Some ''eastus''"
    "west \<in> set (primary_endpoints (item_operation Create) ?st (snap_account (snapshot two_regions)))"
    "eligible (item_operation Create) ?st west"
    by (simp_all add: routing_defs eligible_def two_region_defs)
  from routing_avoids_failed_regions[OF rd this] rd show ?thesis by simp
qed

text \<open>C27. Every operation but a write that per-partition automatic failover governs goes to an
  endpoint that the caller has not excluded, for which it holds no deferred failure mark and that is
  available at one of the clock readings of the call, as long as the list it walks has an endpoint that
  is all this at the first reading.\<close>

theorem routing_prefers_healthy_endpoints:
  assumes "resolve_endpoint clock operation retry_state location g n ttl = Some rd"
    and "\<not> is_eligible_for_ppaf (snap_partitions location) (snap_account location)
       (operation_is_read_only operation) (operation_is_partitioned operation)"
    and "e \<in> set (primary_endpoints operation retry_state (snap_account location))"
    and "eligible operation retry_state e"
    and "endpoint_is_available operation e (snap_account location) (clock 0) ttl"
  shows "eligible operation retry_state (rd_endpoint rd) \<and>
    (endpoint_is_available operation (rd_endpoint rd) (snap_account location) (clock 0) ttl \<or>
     endpoint_is_available operation (rd_endpoint rd) (snap_account location) (clock 2) ttl)"
  using assms(1)
proof (cases rule: resolve_SomeE)
  case (1 sel)
  then show ?thesis
    using selected_eligible[OF 1(1) assms(3,4)] assms(2,5)
    by (auto dest!: partition_override_cases split: option.splits)
qed

theorem routing_prefers_healthy_endpoints_witness:
  "let st = retry_state_initial 0 False [''westus''] 3 2;
       store = two_regions\<lparr>ls_partitions := partition_state_new partition_failover_default\<rparr>
   in resolve_endpoint (\<lambda>n. 5 + n) (item_operation Read) st (snapshot store) False False 60 =
        Some \<lparr>rd_endpoint = east, rd_selected_url = ''e'', rd_transport_mode = Gateway\<rparr> \<and>
      eligible (item_operation Read) st east"
proof -
  let ?st = "retry_state_initial 0 False [''westus''] 3 2"
  let ?store = "two_regions\<lparr>ls_partitions := partition_state_new partition_failover_default\<rparr>"
  have rd: "resolve_endpoint (\<lambda>n. 5 + n) (item_operation Read) ?st (snapshot ?store) False False 60 =
      Some \<lparr>rd_endpoint = east, rd_selected_url = ''e'', rd_transport_mode = Gateway\<rparr>"
    by (simp add: routing_defs two_region_defs)
  have "\<not> is_eligible_for_ppaf (snap_partitions (snapshot ?store)) (snap_account (snapshot ?store))
      (operation_is_read_only (item_operation Read)) (operation_is_partitioned (item_operation Read))"
    and "east \<in> set (primary_endpoints (item_operation Read) ?st (snap_account (snapshot ?store)))"
    and "eligible (item_operation Read) ?st east"
    and "endpoint_is_available (item_operation Read) east (snap_account (snapshot ?store)) (5 + 0) 60"
    by (simp_all add: routing_defs eligible_def two_region_defs route_reads_to_write_endpoints_def)
  from routing_prefers_healthy_endpoints[OF rd this] rd show ?thesis by simp
qed

definition override_targets :: "partition_endpoint_state \<Rightarrow> pk_range_id option \<Rightarrow> cosmos_endpoint set" where
  "override_targets partitions pk_range_id =
     {e. \<exists>k entry. pk_range_id = Some k \<and>
        (hm_get (pes_failover_overrides partitions) k = Some entry \<or>
         hm_get (pes_circuit_breaker_overrides partitions) k = Some entry) \<and>
        (e = pfe_current_endpoint entry \<or> e = pfe_first_failed_endpoint entry)}"

lemma partition_override_target:
  "partition_override operation retry_state location now ttl = Some e \<Longrightarrow>
   e \<in> override_targets (snap_partitions location) (ors_partition_key_range_id retry_state)"
  unfolding partition_override_def override_targets_def ppcb_override_def Let_def
  by (auto simp: Option.bind_eq_Some_conv split: option.splits if_splits)

text \<open>On a reachable store an attempt always gets an endpoint, and it is one of the account or
  the target of an override of the operation's partition.\<close>

theorem resolve_always_routes:
  assumes "store_ok store"
  shows "\<exists>rd. resolve_endpoint clock operation retry_state (snapshot store) g n ttl = Some rd \<and>
    rd_endpoint rd \<in> set (aes_preferred_read_endpoints (ls_account store)) \<union>
      set (aes_preferred_write_endpoints (ls_account store)) \<union> set (aes_account_write_endpoints (ls_account store)) \<union>
      override_targets (ls_partitions store) (ors_partition_key_range_id retry_state)"
proof -
  obtain sel where sel: "selected_endpoint clock operation retry_state (ls_account store) ttl = Some sel"
    using selected_total assms unfolding store_ok_def by blast
  show ?thesis
    using selected_known[OF sel] sel
    by (auto simp: resolve_endpoint_def snapshot_def make_routing_def Let_def dest!: partition_override_target
        split: option.splits)
qed

theorem resolve_always_routes_witness:
  "\<exists>rd. resolve_endpoint (\<lambda>_. 5) (item_operation Create) (write_retry_state []) (snapshot two_regions) True True 60 = Some rd \<and>
     rd_endpoint rd \<in> {east, west}"
  using resolve_always_routes[OF two_regions_ok, of "\<lambda>_. 5" "item_operation Create" "write_retry_state []" True True 60]
  by (auto simp: override_targets_def two_regions_def location_store_new_def account_state_single_def partition_state_new_def)

section \<open>Flushing deferred marks\<close>

lemma endpoint_of_region_region: "endpoint_of_region account r = Some e \<Longrightarrow> ep_region e = Some r"
  by (auto simp: endpoint_of_region_def find_Some_iff)

definition quiet_env :: apply_env where
  "quiet_env = \<lparr>env_sur = \<lparr>sur_now = 7, sur_epoch_nanos = 0, sur_hash = (\<lambda>_. 0)\<rparr>,
     env_refresh = \<lparr>re_now_ms = 0, re_done_ms = 0, re_fetched = False, re_cached = None, re_probe = (\<lambda>_. {}),
       re_scheme = (\<lambda>_. [])\<rparr>\<rparr>"

definition moved_entry :: partition_failover_entry where
  "moved_entry = (fresh_entry east 0 0)\<lparr>pfe_current_endpoint := west, pfe_failed_endpoints := {east}\<rparr>"

definition east_mark :: unavailable_partition where
  "east_mark = \<lparr>up_partition_key_range_id = Some ''0'', up_region = Some ''eastus'', up_is_read = False,
     up_is_partitioned_resource = True\<rparr>"

lemmas mark_defs = moved_entry_def east_mark_def entry_already_moved_def fresh_entry_def

text \<open>A mark that is skipped because the failover override of its partition has moved past the
  failed region would have changed nothing but the time of the last failure.\<close>

theorem skipped_failover_mark_is_noop:
  assumes "hm_get (pes_failover_overrides (ls_partitions store)) k = Some entry"
    and "up_partition_key_range_id p = Some k" and "up_region p = Some r" and "entry_already_moved r entry"
    and "\<not> is_eligible_for_ppcb (ls_partitions store) (ls_account store) (up_is_read p) (up_is_partitioned_resource p)"
  shows "is_effect_already_applied (snapshot store) (MarkPartitionUnavailable p) \<and>
    (\<exists>t. hm_get (pes_failover_overrides (ls_partitions (apply_effect env (MarkPartitionUnavailable p) store))) k =
       Some (entry\<lparr>pfe_last_failure_time := t\<rparr>)) \<and>
    pes_circuit_breaker_overrides (ls_partitions (apply_effect env (MarkPartitionUnavailable p) store)) =
      pes_circuit_breaker_overrides (ls_partitions store)"
proof -
  have noop: "\<exists>t. entry = entry\<lparr>pfe_last_failure_time := t\<rparr>"
    by (intro exI[of _ "pfe_last_failure_time entry"]) simp
  have "failover_step t es e entry = Some (entry\<lparr>pfe_last_failure_time := t\<rparr>)" if "ep_region e = Some r" for t es e
    using that assms(4)
    by (auto simp: failover_step_def try_move_next_endpoint_def entry_already_moved_def split: option.splits)
  moreover have "ep_region e = Some r" if "endpoint_of_region (ls_account store) r = Some e" for e
    using that by (rule endpoint_of_region_region)
  ultimately show ?thesis
    using assms noop
    by (auto simp: mark_partition_unavailable_def snapshot_def hm_simps Let_def split: option.splits if_splits)
qed

theorem skipped_failover_mark_is_noop_witness:
  "let store = two_regions\<lparr>ls_partitions := (ls_partitions two_regions)\<lparr>pes_failover_overrides := [(''0'', moved_entry)]\<rparr>\<rparr>
   in \<exists>t. hm_get (pes_failover_overrides (ls_partitions (apply_effect quiet_env (MarkPartitionUnavailable east_mark) store))) ''0'' =
        Some (moved_entry\<lparr>pfe_last_failure_time := t\<rparr>)"
proof -
  let ?store = "two_regions\<lparr>ls_partitions := (ls_partitions two_regions)\<lparr>pes_failover_overrides := [(''0'', moved_entry)]\<rparr>\<rparr>"
  have "hm_get (pes_failover_overrides (ls_partitions ?store)) ''0'' = Some moved_entry"
    and "up_partition_key_range_id east_mark = Some ''0''" and "up_region east_mark = Some ''eastus''"
    and "entry_already_moved ''eastus'' moved_entry"
    and "\<not> is_eligible_for_ppcb (ls_partitions ?store) (ls_account ?store) (up_is_read east_mark)
      (up_is_partitioned_resource east_mark)"
    by (simp_all add: mark_defs two_region_defs is_eligible_for_ppcb_def)
  from skipped_failover_mark_is_noop[OF this] show ?thesis by simp
qed

text \<open>C36. A mark that is skipped because a circuit-breaker override of the same partition, which only
  reads consult, has moved past the failed region is lost: applying it would have installed a write
  failover override to another endpoint, and flushing leaves the store as it was.\<close>

theorem flush_drops_write_failover:
  assumes "ors_pending_write_effects retry_state = [MarkPartitionUnavailable p]"
    and "up_partition_key_range_id p = Some k" and "up_region p = Some r"
    and "hm_get (pes_circuit_breaker_overrides (ls_partitions store)) k = Some entry" and "entry_already_moved r entry"
    and "hm_get (pes_failover_overrides (ls_partitions store)) k = None"
    and "is_eligible_for_ppaf (ls_partitions store) (ls_account store) (up_is_read p) (up_is_partitioned_resource p)"
    and "endpoint_of_region (ls_account store) r = Some failed"
    and "other \<in> set (aes_preferred_read_endpoints (ls_account store))" and "other \<noteq> failed"
  shows "snd (flush_pending_write_effects envs retry_state store) = store \<and>
    (\<exists>e. hm_get (pes_failover_overrides (ls_partitions (apply_effect env (MarkPartitionUnavailable p) store))) k = Some e \<and>
       pfe_current_endpoint e \<noteq> failed)"
proof -
  have skipped: "is_effect_already_applied (snapshot store) (MarkPartitionUnavailable p)"
    using assms(2-6) by (simp add: snapshot_def)
  have "next_candidate failed {failed} (aes_preferred_read_endpoints (ls_account store)) \<noteq> None"
    using assms(9,10) by (auto simp: next_candidate_None)
  then obtain c where c: "next_candidate failed {failed} (aes_preferred_read_endpoints (ls_account store)) = Some c"
    by blast
  moreover have "c \<noteq> failed" using next_candidate_Some[OF c] by simp
  moreover have "\<not> is_eligible_for_ppcb (ls_partitions store) (ls_account store) (up_is_read p) (up_is_partitioned_resource p)"
    using assms(7) by (simp add: is_eligible_for_ppaf_def is_eligible_for_ppcb_def)
  ultimately show ?thesis
    using assms(1-3,6-8) skipped
    by (simp add: flush_pending_write_effects_def Let_def mark_partition_unavailable_def hm_simps
        failover_step_def try_move_next_endpoint_def fresh_entry_def del: is_effect_already_applied.simps)
qed

theorem flush_drops_write_failover_witness:
  "let store = two_regions\<lparr>ls_partitions := (ls_partitions two_regions)\<lparr>pes_circuit_breaker_overrides := [(''0'', moved_entry)]\<rparr>\<rparr>
   in snd (flush_pending_write_effects (\<lambda>_. quiet_env) (write_retry_state [MarkPartitionUnavailable east_mark]) store) = store \<and>
      (\<exists>e. hm_get (pes_failover_overrides (ls_partitions (apply_effect quiet_env (MarkPartitionUnavailable east_mark) store))) ''0'' = Some e \<and>
         pfe_current_endpoint e \<noteq> east)"
proof -
  let ?store = "two_regions\<lparr>ls_partitions := (ls_partitions two_regions)\<lparr>pes_circuit_breaker_overrides := [(''0'', moved_entry)]\<rparr>\<rparr>"
  let ?st = "write_retry_state [MarkPartitionUnavailable east_mark]"
  have "ors_pending_write_effects ?st = [MarkPartitionUnavailable east_mark]"
    and "up_partition_key_range_id east_mark = Some ''0''" and "up_region east_mark = Some ''eastus''"
    and "hm_get (pes_circuit_breaker_overrides (ls_partitions ?store)) ''0'' = Some moved_entry"
    and "entry_already_moved ''eastus'' moved_entry"
    and "hm_get (pes_failover_overrides (ls_partitions ?store)) ''0'' = None"
    and "is_eligible_for_ppaf (ls_partitions ?store) (ls_account ?store) (up_is_read east_mark)
      (up_is_partitioned_resource east_mark)"
    and "endpoint_of_region (ls_account ?store) ''eastus'' = Some east"
    and "west \<in> set (aes_preferred_read_endpoints (ls_account ?store))" and "west \<noteq> east"
    by (simp_all add: mark_defs two_region_defs is_eligible_for_ppaf_def endpoint_of_region_def)
  from flush_drops_write_failover[OF this] show ?thesis by (simp add: Let_def)
qed

end
