(* ===== verification/Hedging.thy ===== *)
theory Hedging
  imports Operation_Routing Session_Container
begin

text \<open>
  Cross-region hedging: \<^verbatim>\<open>options/availability_strategy.rs\<close>, \<^verbatim>\<open>driver/pipeline/hedging_eligibility.rs\<close>,
  \<^verbatim>\<open>driver/pipeline/hedging_diagnostics.rs\<close> and the race of \<^verbatim>\<open>driver/pipeline/operation_pipeline.rs\<close>.
  A race depends on its surroundings in two ways, which are arguments. What a request is answered is a
  function of the request. Which event of a \<^verbatim>\<open>select\<close> comes first is a schedule. A future runs only
  once it is polled, so the secondary of a race whose primary had already completed is built after the
  primary has been evaluated, as in the sources. The requests themselves are treated up to the parts
  that routing and session handling decide; logging and the recorded request events are left out.
\<close>

section \<open>Strategies\<close>

type_synonym hedge_threshold = duration

definition hedge_threshold_new :: "duration \<Rightarrow> hedge_threshold option" where
  "hedge_threshold_new d = (if d = 0 then None else Some d)"

record hedging_strategy =
  hs_threshold :: hedge_threshold

datatype availability_strategy = HedgingDisabled | HedgingWith hedging_strategy

datatype read_consistency_strategy = RcsDefault | RcsEventual | RcsSession | RcsLatestCommitted | RcsGlobalStrong

text \<open>The resolved options of an operation that the pipeline reads.\<close>

record operation_options =
  oo_max_failover_retry_count :: "u32 option"
  oo_max_session_retry_count :: "u32 option"
  oo_session_capturing_disabled :: "bool option"
  oo_read_consistency_strategy :: "read_consistency_strategy option"
  oo_excluded_regions :: "region list option"
  oo_end_to_end_timeout :: "duration option"
  oo_max_throttle_retry_count :: "u32 option"
  oo_max_throttle_wait_time :: "duration option"
  oo_hedging_enabled :: "bool option"
  oo_availability_strategy :: "availability_strategy option"

definition DEFAULT_THRESHOLD_CAP :: duration where "DEFAULT_THRESHOLD_CAP = from_millis 1000"

text \<open>The last \<^verbatim>\<open>expect\<close> is on a constant that is not zero.\<close>

definition default_threshold :: "duration option \<Rightarrow> hedge_threshold" where
  "default_threshold request_timeout =
     (let candidate = (case request_timeout of
            Some t \<Rightarrow> if t \<noteq> 0 then min (t div 2) DEFAULT_THRESHOLD_CAP else DEFAULT_THRESHOLD_CAP
          | None \<Rightarrow> DEFAULT_THRESHOLD_CAP)
      in case option_or (hedge_threshold_new candidate) (Option.bind request_timeout hedge_threshold_new) of
           Some t \<Rightarrow> t
         | None \<Rightarrow> the (hedge_threshold_new DEFAULT_THRESHOLD_CAP))"

definition resolve_availability_strategy :: "operation_options \<Rightarrow> duration option \<Rightarrow> hedging_strategy option" where
  "resolve_availability_strategy view request_timeout =
     (case oo_hedging_enabled view of
        Some False \<Rightarrow> None
      | Some True \<Rightarrow>
          (case oo_availability_strategy view of
             Some (HedgingWith s) \<Rightarrow> Some s
           | _ \<Rightarrow> Some \<lparr>hs_threshold = default_threshold request_timeout\<rparr>)
      | None \<Rightarrow>
          (case oo_availability_strategy view of
             Some HedgingDisabled \<Rightarrow> None
           | Some (HedgingWith s) \<Rightarrow> Some s
           | None \<Rightarrow> Some \<lparr>hs_threshold = default_threshold request_timeout\<rparr>))"

section \<open>Eligibility\<close>

definition HEDGEABLE_RESOURCE_TYPES :: "resource_type list" where "HEDGEABLE_RESOURCE_TYPES = [Document]"
definition HEDGEABLE_OPERATION_TYPES :: "operation_type list" where "HEDGEABLE_OPERATION_TYPES = [Read]"

definition hedge_applicable :: "region list \<Rightarrow> cosmos_endpoint \<Rightarrow> bool" where
  "hedge_applicable excluded_regions ep =
     (case ep_region ep of Some r \<Rightarrow> r \<notin> set excluded_regions | None \<Rightarrow> False)"

definition should_hedge ::
  "hedging_strategy option \<Rightarrow> cosmos_operation \<Rightarrow> account_endpoint_state \<Rightarrow> region list \<Rightarrow> bool" where
  "should_hedge strategy operation account_state excluded_regions =
     (if strategy = None then False
      else if aes_preferred_read_endpoints account_state = [] then False
      else if op_resource_type operation \<notin> set HEDGEABLE_RESOURCE_TYPES then False
      else if \<not> is_read_only (op_operation_type operation) then False
      else if op_operation_type operation \<notin> set HEDGEABLE_OPERATION_TYPES then False
      else 2 \<le> length (filter (hedge_applicable excluded_regions) (aes_preferred_read_endpoints account_state)))"

record hedge_upgrade =
  hu_secondary_routing :: routing_decision
  hu_threshold :: hedge_threshold

text \<open>The connection key of an endpoint is a function of its gateway URL.\<close>

definition evaluate_hedge_eligibility ::
  "(url \<Rightarrow> string) \<Rightarrow> cosmos_operation \<Rightarrow> operation_options \<Rightarrow> account_endpoint_state \<Rightarrow> routing_decision \<Rightarrow>
   duration option \<Rightarrow> hedge_upgrade option" where
  "evaluate_hedge_eligibility endpoint_key operation options account_state primary request_timeout =
     (case resolve_availability_strategy options request_timeout of
        None \<Rightarrow> None
      | Some strategy \<Rightarrow>
          let user_excluded = unwrap_or (oo_excluded_regions options) [] in
          if \<not> should_hedge (Some strategy) operation account_state user_excluded then None
          else
            let applicable = filter (hedge_applicable user_excluded) (aes_preferred_read_endpoints account_state) in
            if length applicable < 2 then None
            else
              (case find (\<lambda>ep. ep_region ep \<noteq> ep_region (rd_endpoint primary) \<and>
                       endpoint_key (ep_gateway_url ep) \<noteq> endpoint_key (ep_gateway_url (rd_endpoint primary))) applicable of
                 None \<Rightarrow> None
               | Some secondary_ep \<Rightarrow>
                   let use_gateway_v2 = uses_gateway_v2 secondary_ep (rd_transport_mode primary = GatewayV2)
                   in Some \<lparr>hu_secondary_routing =
                        \<lparr>rd_endpoint = secondary_ep, rd_selected_url = selected_url secondary_ep use_gateway_v2,
                         rd_transport_mode = (if use_gateway_v2 then GatewayV2 else Gateway)\<rparr>,
                      hu_threshold = hs_threshold strategy\<rparr>))"

definition maybe_upgrade_to_hedge ::
  "(url \<Rightarrow> string) \<Rightarrow> operation_action \<Rightarrow> cosmos_operation \<Rightarrow> operation_options \<Rightarrow> account_endpoint_state \<Rightarrow>
   routing_decision \<Rightarrow> duration option \<Rightarrow> operation_action" where
  "maybe_upgrade_to_hedge endpoint_key action operation options account_state primary request_timeout =
     (case (case action of FailoverRetry s _ \<Rightarrow> Some s | SessionRetry s \<Rightarrow> Some s | _ \<Rightarrow> None) of
        None \<Rightarrow> action
      | Some new_state \<Rightarrow>
          (case evaluate_hedge_eligibility endpoint_key operation options account_state primary request_timeout of
             Some upgrade \<Rightarrow>
               if ors_max_failover_retries new_state < saturating_add_word (ors_failover_retry_count new_state) 2
               then action
               else Hedge (hu_secondary_routing upgrade) (hu_threshold upgrade) new_state
           | None \<Rightarrow> action))"

section \<open>Diagnostics of a race\<close>

datatype hedge_terminal_state =
    PrimaryWonPreThreshold
  | DeadlineExceededPreThreshold
  | PrimaryWonAfterHedge
  | AlternateWon
  | BothTransient bool
  | CancelledAwaitingPartner

record hedge_diagnostics =
  hd_threshold :: hedge_threshold
  hd_primary_region :: region
  hd_alternate_region :: "region option"
  hd_response_region :: "region option"
  hd_terminal_state :: hedge_terminal_state

definition UNKNOWN_REGION_SENTINEL :: string where "UNKNOWN_REGION_SENTINEL = ''(unknown)''"

definition primary_only :: "hedge_threshold \<Rightarrow> region \<Rightarrow> hedge_diagnostics" where
  "primary_only config primary = \<lparr>hd_threshold = config, hd_primary_region = primary, hd_alternate_region = None,
     hd_response_region = Some primary, hd_terminal_state = PrimaryWonPreThreshold\<rparr>"

definition primary_only_deadline_exceeded :: "hedge_threshold \<Rightarrow> region \<Rightarrow> hedge_diagnostics" where
  "primary_only_deadline_exceeded config primary = \<lparr>hd_threshold = config, hd_primary_region = primary,
     hd_alternate_region = None, hd_response_region = None, hd_terminal_state = DeadlineExceededPreThreshold\<rparr>"

definition primary_won_after_hedge :: "hedge_threshold \<Rightarrow> region \<Rightarrow> region \<Rightarrow> hedge_diagnostics" where
  "primary_won_after_hedge config primary alternate = \<lparr>hd_threshold = config, hd_primary_region = primary,
     hd_alternate_region = Some alternate, hd_response_region = Some primary, hd_terminal_state = PrimaryWonAfterHedge\<rparr>"

definition hedge_won :: "hedge_threshold \<Rightarrow> region \<Rightarrow> region \<Rightarrow> hedge_diagnostics" where
  "hedge_won config primary alternate = \<lparr>hd_threshold = config, hd_primary_region = primary,
     hd_alternate_region = Some alternate, hd_response_region = Some alternate, hd_terminal_state = AlternateWon\<rparr>"

definition both_transient :: "hedge_threshold \<Rightarrow> region \<Rightarrow> region \<Rightarrow> bool \<Rightarrow> hedge_diagnostics" where
  "both_transient config primary alternate elapsed = \<lparr>hd_threshold = config, hd_primary_region = primary,
     hd_alternate_region = Some alternate, hd_response_region = None, hd_terminal_state = BothTransient elapsed\<rparr>"

definition cancelled_awaiting_partner :: "hedge_threshold \<Rightarrow> region \<Rightarrow> region \<Rightarrow> hedge_diagnostics" where
  "cancelled_awaiting_partner config primary alternate = \<lparr>hd_threshold = config, hd_primary_region = primary,
     hd_alternate_region = Some alternate, hd_response_region = None, hd_terminal_state = CancelledAwaitingPartner\<rparr>"

section \<open>Requests and results\<close>

datatype execution_context = Initial | Retry | TransportRetry | Hedging | RegionFailover | CircuitBreakerProbe

text \<open>What routing and session handling decide about a request.\<close>

record attempt_request =
  arq_routing :: routing_decision
  arq_execution_context :: execution_context
  arq_session_token :: "session_token option"
  arq_hub_region_header :: bool
  arq_tentative_writes_header :: bool

text \<open>The left case is an error before the transport, such as a request that cannot be built.\<close>

type_synonym leg_result = "cosmos_error + transport_outcome"

definition CLIENT_BUILD_RESPONSE_INVOKED_ON_FAILURE :: cosmos_status where
  "CLIENT_BUILD_RESPONSE_INVOKED_ON_FAILURE = from_parts 500 (Some 20207)"

fun build_cosmos_response :: "transport_outcome \<Rightarrow> cosmos_error + cosmos_response" where
  "build_cosmos_response (TSuccess status headers body) =
     Inr \<lparr>cr_status = status, cr_headers = headers, cr_body = body\<rparr>"
| "build_cosmos_response _ = Inl (CosmosError CLIENT_BUILD_RESPONSE_INVOKED_ON_FAILURE Synthetic None)"

definition should_capture_session_token_from_status :: "sub_status_code option \<Rightarrow> transport_outcome \<Rightarrow> bool" where
  "should_capture_session_token_from_status substatus outcome =
     (case outcome of
        TSuccess _ _ _ \<Rightarrow> True
      | HttpError status _ _ _ \<Rightarrow>
          if cs_status_code status = 409 \<or> cs_status_code status = 412 then True
          else if cs_status_code status = 404 then substatus \<noteq> Some SUB_READ_SESSION_NOT_AVAILABLE
          else False
      | _ \<Rightarrow> False)"

text \<open>Both the loop and the winner of a race capture in this way.\<close>

definition capture_session_token_for_winner ::
  "bool \<Rightarrow> cosmos_operation \<Rightarrow> transport_outcome \<Rightarrow> session_container \<Rightarrow> session_container" where
  "capture_session_token_for_winner session_consistency_active operation outcome session =
     (if \<not> session_consistency_active then session
      else case result_cosmos_headers outcome of
        None \<Rightarrow> session
      | Some headers \<Rightarrow>
          if should_capture_session_token_from_status (rh_substatus headers) outcome
          then capture_session_token session operation (rh_session_token headers) else session)"

definition should_emit_hub_region_header :: "bool \<Rightarrow> bool option \<Rightarrow> bool" where
  "should_emit_hub_region_header per_state_latched shared_latch \<longleftrightarrow> per_state_latched \<or> unwrap_or shared_latch False"

definition should_build_shared_hub_region_latch :: "bool \<Rightarrow> bool \<Rightarrow> bool" where
  "should_build_shared_hub_region_latch is_data_plane can_use_multiple_write_locations \<longleftrightarrow>
     is_data_plane \<and> \<not> can_use_multiple_write_locations"

record attempt_context =
  ac_operation :: cosmos_operation
  ac_user_session_token :: "session_token option"
  ac_is_data_plane :: bool
  ac_session_consistency_active :: bool
  ac_deadline :: "instant option"
  ac_can_use_multiple_write_locations :: bool
  ac_hub_region_processing_only_initial :: bool
  ac_partition_key_range_id :: "pk_range_id option"

definition scoped_session_token ::
  "bool \<Rightarrow> cosmos_operation \<Rightarrow> session_token option \<Rightarrow> routing_decision \<Rightarrow> pk_range_id option \<Rightarrow> session_container \<Rightarrow>
   session_token option" where
  "scoped_session_token active operation user_token routing pk_range_id session =
     (if active then
        manager_resolve_session_token session operation user_token
          (if rd_transport_mode routing = GatewayV2 then pk_range_id else None)
      else None)"

text \<open>The request that \<^verbatim>\<open>perform_single_attempt\<close> builds and sends.\<close>

definition perform_single_attempt ::
  "attempt_context \<Rightarrow> session_container \<Rightarrow> routing_decision \<Rightarrow> execution_context \<Rightarrow> bool option \<Rightarrow> attempt_request" where
  "perform_single_attempt ctx session routing execution_context shared_hub_region_latch =
     \<lparr>arq_routing = routing, arq_execution_context = execution_context,
      arq_session_token = scoped_session_token (ac_session_consistency_active ctx) (ac_operation ctx)
        (ac_user_session_token ctx) routing (ac_partition_key_range_id ctx) session,
      arq_hub_region_header = should_emit_hub_region_header False shared_hub_region_latch,
      arq_tentative_writes_header = False\<rparr>"

section \<open>Classifying a leg\<close>

datatype hedge_class = HedgeFinal transport_outcome | HedgeTransient

fun classify_hedge_result :: "leg_result \<Rightarrow> hedge_class" where
  "classify_hedge_result (Inr (TSuccess status headers body)) = HedgeFinal (TSuccess status headers body)"
| "classify_hedge_result (Inr (HttpError status headers body request_sent)) =
     (if is_final_result status then HedgeFinal (HttpError status headers body request_sent) else HedgeTransient)"
| "classify_hedge_result (Inr (TransportFailed _ _ _)) = HedgeTransient"
| "classify_hedge_result (Inr (DeadlineExceeded _)) = HedgeTransient"
| "classify_hedge_result (Inl _) = HedgeTransient"

fun result_is_final :: "transport_outcome \<Rightarrow> bool" where
  "result_is_final (TSuccess _ _ _) = True"
| "result_is_final (HttpError status _ _ _) = is_final_result status"
| "result_is_final (TransportFailed _ _ _) = False"
| "result_is_final (DeadlineExceeded _) = False"

definition pk_range_id_from_result :: "leg_result \<Rightarrow> pk_range_id option" where
  "pk_range_id_from_result result =
     (case result of
        Inl _ \<Rightarrow> None
      | Inr outcome \<Rightarrow> Option.bind (result_cosmos_headers outcome) rh_partition_key_range_id)"

definition cancelled_error :: cosmos_error where
  "cancelled_error = CosmosError (from_parts 408 (Some SUB_CLIENT_OPERATION_TIMEOUT)) Synthetic None"

fun finalize_hedge_attempt :: "transport_outcome \<Rightarrow> cosmos_error + cosmos_response" where
  "finalize_hedge_attempt (TSuccess status headers body) = build_cosmos_response (TSuccess status headers body)"
| "finalize_hedge_attempt (HttpError status headers body _) =
     Inl (graft_diagnostics (build_service_error status headers body))"
| "finalize_hedge_attempt (TransportFailed _ e _) = Inl (graft_diagnostics e)"
| "finalize_hedge_attempt (DeadlineExceeded _) = Inl cancelled_error"

datatype hedge_outcome = PrimaryWin | AlternateWin

definition record_hedge_outcome ::
  "surroundings \<Rightarrow> hedge_outcome \<Rightarrow> pk_range_id option \<Rightarrow> region option \<Rightarrow> location_store \<Rightarrow> location_store" where
  "record_hedge_outcome sur outcome pk_range_id primary_region store =
     (case pk_range_id of
        None \<Rightarrow> store
      | Some k \<Rightarrow>
          (case outcome of
             AlternateWin \<Rightarrow> record_consecutive_hedge_win sur k primary_region store
           | PrimaryWin \<Rightarrow> record_primary_win k primary_region store))"

section \<open>The race\<close>

datatype leg = PrimaryLeg | SecondaryLeg

datatype timer_event = PrimaryCompleted | ThresholdElapsed | DeadlineFired

text \<open>The schedule of a race: what ends the second stage, which leg completes first in the fourth
  stage unless the primary had completed before, whether the secondary was polled, and so had sent
  its request, when the primary completed first, whether the partner completes before the deadline,
  and the clock at the end. The location store is shared with other operations while a race runs;
  the session container is changed by the race only.\<close>

record race_schedule =
  rs_stage2 :: timer_event
  rs_first :: leg
  rs_secondary_polled :: bool
  rs_partner_completes :: bool
  rs_end :: instant
  rs_transport :: "attempt_request \<Rightarrow> leg_result"
  rs_first_envs :: "nat \<Rightarrow> apply_env"
  rs_partner_envs :: "nat \<Rightarrow> apply_env"
  rs_surroundings :: surroundings

datatype hedged_race_result =
    RaceTerminal "cosmos_error + cosmos_response" "hedge_diagnostics option"
  | RaceBothTransient "region option" "region option" cosmos_error "pk_range_id option" bool

type_synonym race_state = "location_store \<times> session_container"

text \<open>The part of \<^verbatim>\<open>apply_hedge_leg_effects\<close> on the store, the flag of the race and the shared latch.\<close>

definition apply_hedge_leg_effects ::
  "(nat \<Rightarrow> apply_env) \<Rightarrow> attempt_context \<Rightarrow> operation_retry_state \<Rightarrow> cosmos_endpoint \<Rightarrow> leg_result \<Rightarrow>
   location_store \<times> bool \<times> bool option \<Rightarrow> location_store \<times> bool \<times> bool option" where
  "apply_hedge_leg_effects envs ctx retry_state_snapshot endpoint result s =
     (case s of (store, race_observed, latch) \<Rightarrow>
        (case result of
           Inl _ \<Rightarrow> (store, race_observed, latch)
         | Inr transport_result \<Rightarrow>
             let eval = evaluate_hedge_leg_effects (ac_operation ctx) endpoint retry_state_snapshot transport_result;
                 store = (if hle_effects eval \<noteq> [] then apply_all envs (hle_effects eval) store else store)
             in if hle_observed_session_unavailable eval then (store, True, map_option (\<lambda>_. True) latch)
                else (store, race_observed, latch)))"

definition region_for_diag :: "routing_decision \<Rightarrow> region" where
  "region_for_diag routing = unwrap_or (ep_region (rd_endpoint routing)) (region_new UNKNOWN_REGION_SENTINEL)"

text \<open>A leg that completes with a final result wins: its outcome is recorded and its session token captured.\<close>

definition leg_wins ::
  "race_schedule \<Rightarrow> attempt_context \<Rightarrow> hedge_outcome \<Rightarrow> hedge_diagnostics \<Rightarrow> pk_range_id option \<Rightarrow> region option \<Rightarrow>
   transport_outcome \<Rightarrow> race_state \<Rightarrow> hedged_race_result \<times> race_state" where
  "leg_wins sch ctx outcome diag captured primary_region tr s =
     (RaceTerminal (finalize_hedge_attempt tr) (Some diag),
      record_hedge_outcome (rs_surroundings sch) outcome (option_or captured (ac_partition_key_range_id ctx))
        primary_region (fst s),
      capture_session_token_for_winner (ac_session_consistency_active ctx) (ac_operation ctx) tr (snd s))"

definition transient_outcome_error :: cosmos_error where
  "transient_outcome_error = CosmosError TRANSPORT_GENERATED_503 Synthetic None"

definition finalize_both_transient ::
  "instant \<Rightarrow> instant option \<Rightarrow> hedge_threshold \<Rightarrow> routing_decision \<Rightarrow> routing_decision \<Rightarrow> pk_range_id option \<Rightarrow> bool \<Rightarrow>
   hedged_race_result" where
  "finalize_both_transient now deadline config primary secondary pk_range_id observed =
     (if (case deadline of Some d \<Rightarrow> d \<le> now | None \<Rightarrow> False)
      then RaceTerminal (Inl cancelled_error)
        (Some (both_transient config (region_for_diag primary) (region_for_diag secondary) True))
      else RaceBothTransient (ep_region (rd_endpoint primary)) (ep_region (rd_endpoint secondary))
        transient_outcome_error pk_range_id observed)"

definition won_diagnostics :: "leg \<Rightarrow> hedge_threshold \<Rightarrow> region \<Rightarrow> region \<Rightarrow> hedge_diagnostics" where
  "won_diagnostics l = (case l of PrimaryLeg \<Rightarrow> primary_won_after_hedge | SecondaryLeg \<Rightarrow> hedge_won)"

definition won_outcome :: "leg \<Rightarrow> hedge_outcome" where
  "won_outcome l = (case l of PrimaryLeg \<Rightarrow> PrimaryWin | SecondaryLeg \<Rightarrow> AlternateWin)"

definition other_leg :: "leg \<Rightarrow> leg" where
  "other_leg l = (case l of PrimaryLeg \<Rightarrow> SecondaryLeg | SecondaryLeg \<Rightarrow> PrimaryLeg)"

text \<open>The fourth stage, from the completion of its first leg. Its two arms are mirror images. A
  partner that had not been polled before sends its request only now.\<close>

definition race_from_first ::
  "race_schedule \<Rightarrow> attempt_context \<Rightarrow> (leg \<Rightarrow> routing_decision) \<Rightarrow> hedge_threshold \<Rightarrow> operation_retry_state \<Rightarrow>
   leg \<Rightarrow> leg_result \<Rightarrow> (bool option \<Rightarrow> leg_result) \<Rightarrow> bool option \<Rightarrow> race_state \<Rightarrow>
   hedged_race_result \<times> race_state" where
  "race_from_first sch ctx routing config retry_state_snapshot first result partner latch s =
     (let primary_region = ep_region (rd_endpoint (routing PrimaryLeg));
          p = region_for_diag (routing PrimaryLeg);
          a = region_for_diag (routing SecondaryLeg);
          captured = pk_range_id_from_result result
      in case apply_hedge_leg_effects (rs_first_envs sch) ctx retry_state_snapshot (rd_endpoint (routing first)) result
                (fst s, False, latch) of
           (store, observed, latch) \<Rightarrow>
             (case classify_hedge_result result of
                HedgeFinal tr \<Rightarrow>
                  leg_wins sch ctx (won_outcome first) (won_diagnostics first config p a) captured primary_region tr
                    (store, snd s)
              | HedgeTransient \<Rightarrow>
                  if \<not> rs_partner_completes sch then
                    (RaceTerminal (Inl cancelled_error) (Some (cancelled_awaiting_partner config p a)), store, snd s)
                  else
                    let second = other_leg first;
                        result = partner latch;
                        captured = option_or captured (pk_range_id_from_result result)
                    in case apply_hedge_leg_effects (rs_partner_envs sch) ctx retry_state_snapshot
                              (rd_endpoint (routing second)) result (store, observed, latch) of
                         (store, observed, latch) \<Rightarrow>
                           (case classify_hedge_result result of
                              HedgeFinal tr \<Rightarrow>
                                leg_wins sch ctx (won_outcome second) (won_diagnostics second config p a) captured
                                  primary_region tr (store, snd s)
                            | HedgeTransient \<Rightarrow>
                                (finalize_both_transient (rs_end sch) (ac_deadline ctx) config (routing PrimaryLeg)
                                   (routing SecondaryLeg) captured observed, store, snd s))))"

text \<open>The largest duration of \<^verbatim>\<open>azure_core::time\<close>.\<close>

definition TIME_DURATION_MAX :: duration where
  "TIME_DURATION_MAX = from_secs (2 ^ 63 - 1) + 999999999"

definition execute_hedged ::
  "race_schedule \<Rightarrow> attempt_context \<Rightarrow> routing_decision \<Rightarrow> routing_decision \<Rightarrow> hedge_threshold \<Rightarrow>
   operation_retry_state \<Rightarrow> race_state \<Rightarrow> hedged_race_result \<times> race_state" where
  "execute_hedged sch ctx primary_routing secondary_routing hedge_delay retry_state_snapshot s =
     (let routing = (\<lambda>l. case l of PrimaryLeg \<Rightarrow> primary_routing | SecondaryLeg \<Rightarrow> secondary_routing);
          primary_region = ep_region (rd_endpoint primary_routing);
          primary_result = rs_transport sch (perform_single_attempt ctx (snd s) primary_routing Initial None);
          initial_latch =
            (if should_build_shared_hub_region_latch (ac_is_data_plane ctx) (ac_can_use_multiple_write_locations ctx)
             then Some (ac_hub_region_processing_only_initial ctx) else None);
          secondary = (\<lambda>latch. rs_transport sch (perform_single_attempt ctx (snd s) secondary_routing Hedging latch))
      in if TIME_DURATION_MAX < hedge_delay then
           (RaceTerminal (Inl (CosmosError TRANSPORT_GENERATED_503 Synthetic None)) None, s)
         else
           (case rs_stage2 sch of
              PrimaryCompleted \<Rightarrow>
                (case primary_result of
                   Inr tr \<Rightarrow>
                     if result_is_final tr then
                       leg_wins sch ctx PrimaryWin (primary_only hedge_delay (region_for_diag primary_routing))
                         (pk_range_id_from_result primary_result) primary_region tr s
                     else race_from_first sch ctx routing hedge_delay retry_state_snapshot PrimaryLeg primary_result
                       secondary initial_latch s
                 | Inl _ \<Rightarrow> race_from_first sch ctx routing hedge_delay retry_state_snapshot PrimaryLeg primary_result
                     secondary initial_latch s)
            | DeadlineFired \<Rightarrow>
                (RaceTerminal (Inl cancelled_error)
                   (Some (primary_only_deadline_exceeded hedge_delay (region_for_diag primary_routing))), s)
            | ThresholdElapsed \<Rightarrow>
                (case rs_first sch of
                   PrimaryLeg \<Rightarrow>
                     race_from_first sch ctx routing hedge_delay retry_state_snapshot PrimaryLeg primary_result
                       (\<lambda>latch. secondary (if rs_secondary_polled sch then initial_latch else latch)) initial_latch s
                 | SecondaryLeg \<Rightarrow>
                     race_from_first sch ctx routing hedge_delay retry_state_snapshot SecondaryLeg
                       (secondary initial_latch) (\<lambda>_. primary_result) initial_latch s)))"

text \<open>The requests that a race sends, each with whether the race waits for its answer; the others are given up
  when the race ends. A secondary that starts after the primary has completed sees the latch that the
  primary left.\<close>

definition race_legs ::
  "race_schedule \<Rightarrow> attempt_context \<Rightarrow> routing_decision \<Rightarrow> routing_decision \<Rightarrow> hedge_threshold \<Rightarrow>
   operation_retry_state \<Rightarrow> race_state \<Rightarrow> (attempt_request \<times> bool) list" where
  "race_legs sch ctx primary_routing secondary_routing hedge_delay retry_state_snapshot s =
     (let primary = perform_single_attempt ctx (snd s) primary_routing Initial None;
          secondary = perform_single_attempt ctx (snd s) secondary_routing Hedging;
          initial_latch =
            (if should_build_shared_hub_region_latch (ac_is_data_plane ctx) (ac_can_use_multiple_write_locations ctx)
             then Some (ac_hub_region_processing_only_initial ctx) else None);
          latch = snd (snd (apply_hedge_leg_effects (rs_first_envs sch) ctx retry_state_snapshot (rd_endpoint primary_routing)
            (rs_transport sch primary) (fst s, False, initial_latch)));
          transient = (\<lambda>request. classify_hedge_result (rs_transport sch request) = HedgeTransient)
      in if TIME_DURATION_MAX < hedge_delay then []
         else
           (case rs_stage2 sch of
              PrimaryCompleted \<Rightarrow>
                (primary, True) # (if transient primary then [(secondary latch, rs_partner_completes sch)] else [])
            | DeadlineFired \<Rightarrow> [(primary, False)]
            | ThresholdElapsed \<Rightarrow>
                (case rs_first sch of
                   PrimaryLeg \<Rightarrow>
                     (primary, True) #
                     (if rs_secondary_polled sch
                      then [(secondary initial_latch, transient primary \<and> rs_partner_completes sch)]
                      else if transient primary then [(secondary latch, rs_partner_completes sch)] else [])
                 | SecondaryLeg \<Rightarrow>
                     [(secondary initial_latch, True),
                      (primary, transient (secondary initial_latch) \<and> rs_partner_completes sch)])))"

section \<open>After a race without a winner\<close>

definition raced_region :: "region option \<Rightarrow> region option \<Rightarrow> region option \<Rightarrow> bool" where
  "raced_region primary_region secondary_region candidate =
     (case candidate of
        Some c \<Rightarrow> primary_region = Some c \<or> secondary_region = Some c
      | None \<Rightarrow> False)"

text \<open>The walk of the location index, at most as many steps as given.\<close>

fun walk_past_raced ::
  "(region option \<Rightarrow> bool) \<Rightarrow> cosmos_endpoint list \<Rightarrow> u64 \<Rightarrow> nat \<Rightarrow> location_index \<Rightarrow> location_index" where
  "walk_past_raced raced endpoints generation 0 advanced = advanced"
| "walk_past_raced raced endpoints generation (Suc n) advanced =
     (if \<not> raced (ep_region (endpoints ! li_index advanced)) then advanced
      else walk_past_raced raced endpoints generation n
        (next_for_generation advanced (length endpoints) generation))"

definition try_advance_after_both_transient ::
  "operation_retry_state \<Rightarrow> location_snapshot \<Rightarrow> bool \<Rightarrow> region option \<Rightarrow> region option \<Rightarrow> cosmos_error \<Rightarrow>
   cosmos_error + operation_retry_state" where
  "try_advance_after_both_transient retry_state location read_only primary_region secondary_region last_error =
     (let next_count = saturating_add_word (ors_failover_retry_count retry_state) 2 in
      if ors_max_failover_retries retry_state < next_count then Inl last_error
      else
        let retry_state = retry_state\<lparr>ors_failover_retry_count := next_count\<rparr>;
            endpoints = preferred_endpoints_for_attempt (snap_account location) retry_state read_only (\<not> read_only) False;
            generation = aes_generation (snap_account location)
        in if length endpoints > 0 then
             Inr (retry_state\<lparr>ors_location :=
               walk_past_raced (raced_region primary_region secondary_region) endpoints generation (length endpoints - 1)
                 (next_for_generation (ors_location retry_state) (length endpoints) generation)\<rparr>)
           else Inr retry_state)"

definition propagate_hedge_session_unavailable :: "operation_retry_state \<Rightarrow> bool \<Rightarrow> operation_retry_state" where
  "propagate_hedge_session_unavailable retry_state observed_session_unavailable =
     (if \<not> observed_session_unavailable then retry_state
      else
        let retry_state = (if can_retry_session retry_state
              then retry_state\<lparr>ors_session_token_retry_count :=
                saturating_add_word (ors_session_token_retry_count retry_state) 1\<rparr>
              else retry_state)
        in if ors_can_use_multiple_write_locations retry_state \<or> ors_hub_region_processing_only retry_state
           then retry_state
           else retry_state\<lparr>ors_hub_region_processing_only := True,
             ors_shared_hub_region_latch := map_option (\<lambda>_. True) (ors_shared_hub_region_latch retry_state)\<rparr>)"

section \<open>What a leg reports\<close>

text \<open>The consuming and the peeking classifier agree.\<close>

lemma classify_is_final:
  "classify_hedge_result (Inr tr) = (if result_is_final tr then HedgeFinal tr else HedgeTransient)"
  by (cases tr) simp_all

lemma classify_Final_iff: "classify_hedge_result r = HedgeFinal tr \<longleftrightarrow> r = Inr tr \<and> result_is_final tr"
  by (cases r) (auto simp: classify_is_final)

lemma won_response_region:
  "hd_response_region (won_diagnostics l config (region_for_diag (routing PrimaryLeg)) (region_for_diag (routing SecondaryLeg))) =
     Some (region_for_diag (routing l))"
  by (cases l) (simp_all add: won_diagnostics_def primary_won_after_hedge_def hedge_won_def)

text \<open>The answer that a leg gets. The primary never sees the shared latch.\<close>

definition leg_answer ::
  "race_schedule \<Rightarrow> attempt_context \<Rightarrow> session_container \<Rightarrow> routing_decision \<Rightarrow> routing_decision \<Rightarrow> bool option \<Rightarrow> leg \<Rightarrow> leg_result" where
  "leg_answer sch ctx session primary secondary latch l =
     rs_transport sch
       (case l of
          PrimaryLeg \<Rightarrow> perform_single_attempt ctx session primary Initial None
        | SecondaryLeg \<Rightarrow> perform_single_attempt ctx session secondary Hedging latch)"

text \<open>The ways in which a race ends, given what its legs are answered.\<close>

inductive race_ends ::
  "(leg \<Rightarrow> leg_result) \<Rightarrow> (leg \<Rightarrow> routing_decision) \<Rightarrow> attempt_context \<Rightarrow> session_container \<Rightarrow>
   hedged_race_result \<Rightarrow> session_container \<Rightarrow> bool"
  for answer routing ctx session where
  won: "answer l = Inr tr \<Longrightarrow> result_is_final tr \<Longrightarrow> hd_response_region d = Some (region_for_diag (routing l)) \<Longrightarrow>
    race_ends answer routing ctx session (RaceTerminal (finalize_hedge_attempt tr) (Some d))
      (capture_session_token_for_winner (ac_session_consistency_active ctx) (ac_operation ctx) tr session)"
| both_transient: "classify_hedge_result (answer PrimaryLeg) = HedgeTransient \<Longrightarrow>
    classify_hedge_result (answer SecondaryLeg) = HedgeTransient \<Longrightarrow>
    race_ends answer routing ctx session
      (RaceBothTransient (ep_region (rd_endpoint (routing PrimaryLeg))) (ep_region (rd_endpoint (routing SecondaryLeg)))
         transient_outcome_error k observed) session"
| deadline: "hd_response_region d = None \<Longrightarrow>
    race_ends answer routing ctx session (RaceTerminal (Inl cancelled_error) (Some d)) session"
| threshold_too_long: "race_ends answer routing ctx session
    (RaceTerminal (Inl (CosmosError TRANSPORT_GENERATED_503 Synthetic None)) None) session"

lemma finalize_both_transient_ends:
  "classify_hedge_result (answer PrimaryLeg) = HedgeTransient \<Longrightarrow>
   classify_hedge_result (answer SecondaryLeg) = HedgeTransient \<Longrightarrow>
   race_ends answer routing ctx session
     (finalize_both_transient now deadline config (routing PrimaryLeg) (routing SecondaryLeg) k observed) session"
  by (auto simp: finalize_both_transient_def both_transient_def intro: race_ends.intros split: option.splits)

lemma leg_wins_ends:
  assumes "leg_wins sch ctx outcome d captured region tr (store, session) = (res, store', session')"
    and "classify_hedge_result (answer l) = HedgeFinal tr"
    and "hd_response_region d = Some (region_for_diag (routing l))"
  shows "race_ends answer routing ctx session res session'"
  using assms by (auto simp: leg_wins_def classify_Final_iff intro: race_ends.won)

lemma race_from_first_ends:
  assumes "race_from_first sch ctx routing config st first result partner latch (store, session) = (res, store', session')"
    and "answer first = result"
    and partner: "\<And>latch'. snd (snd (apply_hedge_leg_effects (rs_first_envs sch) ctx st (rd_endpoint (routing first)) result
        (store, False, latch))) = latch' \<Longrightarrow> answer (other_leg first) = partner latch'"
  shows "race_ends answer routing ctx session res session'"
proof -
  obtain s1 o1 l1 where eff: "apply_hedge_leg_effects (rs_first_envs sch) ctx st (rd_endpoint (routing first)) result
      (store, False, latch) = (s1, o1, l1)"
    by (metis prod_cases3)
  have ans: "answer (other_leg first) = partner l1" using partner eff by simp
  show ?thesis
  proof (cases "classify_hedge_result result")
    case (HedgeFinal tr)
    then show ?thesis
      using assms(1,2) eff by (auto simp: race_from_first_def Let_def won_response_region elim!: leg_wins_ends[where l = first])
  next
    case transient: HedgeTransient
    obtain s2 o2 l2 where eff2: "apply_hedge_leg_effects (rs_partner_envs sch) ctx st (rd_endpoint (routing (other_leg first)))
        (partner l1) (s1, o1, l1) = (s2, o2, l2)"
      by (metis prod_cases3)
    show ?thesis
    proof (cases "classify_hedge_result (partner l1)")
      case (HedgeFinal tr)
      then show ?thesis
        using assms(1) eff eff2 transient ans
        by (auto simp: race_from_first_def Let_def won_response_region cancelled_awaiting_partner_def
            intro: race_ends.deadline elim!: leg_wins_ends[where l = "other_leg first"] split: if_splits)
    next
      case HedgeTransient
      then have "classify_hedge_result (answer PrimaryLeg) = HedgeTransient"
        "classify_hedge_result (answer SecondaryLeg) = HedgeTransient"
        using transient ans assms(2) by (cases first; simp add: other_leg_def)+
      then show ?thesis
        using assms(1) eff eff2 transient HedgeTransient
        by (auto simp: race_from_first_def Let_def cancelled_awaiting_partner_def
            intro: race_ends.deadline finalize_both_transient_ends split: if_splits)
    qed
  qed
qed

text \<open>The legs of a race whose first leg is the primary; the secondary sees some version of the latch.\<close>

lemma primary_first_ends:
  assumes "race_from_first sch ctx (\<lambda>l. case l of PrimaryLeg \<Rightarrow> primary | SecondaryLeg \<Rightarrow> secondary) hedge_delay st PrimaryLeg
      (leg_answer sch ctx session primary secondary None PrimaryLeg)
      (\<lambda>latch. leg_answer sch ctx session primary secondary (sent latch) SecondaryLeg) initial (store, session) =
    (res, store', session')"
  shows "\<exists>latch. race_ends (leg_answer sch ctx session primary secondary latch)
     (\<lambda>l. case l of PrimaryLeg \<Rightarrow> primary | SecondaryLeg \<Rightarrow> secondary) ctx session res session'"
proof -
  let ?r = "leg_answer sch ctx session primary secondary None PrimaryLeg"
  let ?latch = "snd (snd (apply_hedge_leg_effects (rs_first_envs sch) ctx st (rd_endpoint primary) ?r (store, False, initial)))"
  have "race_ends (leg_answer sch ctx session primary secondary (sent ?latch))
     (\<lambda>l. case l of PrimaryLeg \<Rightarrow> primary | SecondaryLeg \<Rightarrow> secondary) ctx session res session'"
    by (rule race_from_first_ends[OF assms]) (simp_all add: leg_answer_def other_leg_def)
  then show ?thesis by blast
qed

lemma execute_hedged_ends:
  "\<exists>latch. race_ends (leg_answer sch ctx session primary secondary latch)
     (\<lambda>l. case l of PrimaryLeg \<Rightarrow> primary | SecondaryLeg \<Rightarrow> secondary) ctx session
     (fst (execute_hedged sch ctx primary secondary hedge_delay st (store, session)))
     (snd (snd (execute_hedged sch ctx primary secondary hedge_delay st (store, session))))"
proof -
  let ?routing = "\<lambda>l. case l of PrimaryLeg \<Rightarrow> primary | SecondaryLeg \<Rightarrow> secondary"
  let ?answer = "leg_answer sch ctx session primary secondary"
  let ?r = "?answer None PrimaryLeg"
  obtain res store' session' where run:
    "execute_hedged sch ctx primary secondary hedge_delay st (store, session) = (res, store', session')"
    by (metis prod_cases3)
  consider (long) "TIME_DURATION_MAX < hedge_delay"
    | (deadline) "\<not> TIME_DURATION_MAX < hedge_delay" "rs_stage2 sch = DeadlineFired"
    | (at_once) tr where "\<not> TIME_DURATION_MAX < hedge_delay" "rs_stage2 sch = PrimaryCompleted" "classify_hedge_result ?r = HedgeFinal tr"
    | (relaunch) "\<not> TIME_DURATION_MAX < hedge_delay" "rs_stage2 sch = PrimaryCompleted" "classify_hedge_result ?r = HedgeTransient"
    | (primary) "\<not> TIME_DURATION_MAX < hedge_delay" "rs_stage2 sch = ThresholdElapsed" "rs_first sch = PrimaryLeg"
    | (secondary) "\<not> TIME_DURATION_MAX < hedge_delay" "rs_stage2 sch = ThresholdElapsed" "rs_first sch = SecondaryLeg"
    by (cases "rs_stage2 sch"; cases "rs_first sch"; cases "classify_hedge_result ?r"; blast)
  then have "\<exists>latch. race_ends (?answer latch) ?routing ctx session res session'"
  proof cases
    case long
    then show ?thesis using run by (auto simp: execute_hedged_def Let_def intro!: exI[of _ None] race_ends.threshold_too_long)
  next
    case deadline
    then show ?thesis
      using run by (auto simp: execute_hedged_def Let_def primary_only_deadline_exceeded_def intro!: exI[of _ None] race_ends.deadline)
  next
    case at_once
    then show ?thesis
      using run by (auto simp: execute_hedged_def Let_def classify_Final_iff leg_answer_def primary_only_def
          intro!: exI[of _ None] elim!: leg_wins_ends[where l = PrimaryLeg])
  next
    case relaunch
    then show ?thesis
      using run by (intro primary_first_ends[where sent = "\<lambda>latch. latch"])
        (auto simp: execute_hedged_def Let_def leg_answer_def classify_is_final split: sum.splits if_splits)
  next
    case primary
    then show ?thesis
      using run by (intro primary_first_ends[where sent = "\<lambda>latch. if rs_secondary_polled sch then _ else latch"])
        (simp add: execute_hedged_def Let_def leg_answer_def)
  next
    case secondary
    then show ?thesis
      using run by (auto simp: execute_hedged_def Let_def leg_answer_def other_leg_def intro!: exI elim!: race_from_first_ends)
  qed
  with run show ?thesis by simp
qed

text \<open>C8. A race returns the response of a leg that was answered with a final result, names that leg's
  region in its diagnostics, and captures the session token of that response only. It falls back
  to the retry loop only when both legs were answered with a retriable failure, and otherwise ends
  with the error of the deadline.\<close>

theorem hedged_race_sound:
  "\<exists>latch. race_ends (leg_answer sch ctx session primary secondary latch)
     (\<lambda>l. case l of PrimaryLeg \<Rightarrow> primary | SecondaryLeg \<Rightarrow> secondary) ctx session
     (fst (execute_hedged sch ctx primary secondary hedge_delay st (store, session)))
     (snd (snd (execute_hedged sch ctx primary secondary hedge_delay st (store, session))))"
  by (rule execute_hedged_ends)

text \<open>The answer that ends a race with a response is one that the race waited for.\<close>

definition leg_reports :: "attempt_context \<Rightarrow> session_container \<Rightarrow> cosmos_response \<Rightarrow> session_container \<Rightarrow> leg_result \<Rightarrow> bool" where
  "leg_reports ctx session resp session' result \<longleftrightarrow>
     (\<exists>tr. result = Inr tr \<and> finalize_hedge_attempt tr = Inr resp \<and>
        session' = capture_session_token_for_winner (ac_session_consistency_active ctx) (ac_operation ctx) tr session)"

lemma leg_wins_reports:
  assumes "leg_wins sch ctx outcome d captured region tr (store, session) = (RaceTerminal (Inr resp) diag, store', session')"
    and "classify_hedge_result result = HedgeFinal tr"
  shows "leg_reports ctx session resp session' result"
  using assms by (auto simp: leg_wins_def leg_reports_def classify_Final_iff)

lemma race_from_first_reports:
  assumes "race_from_first sch ctx routing config st first result partner latch (store, session) =
      (RaceTerminal (Inr resp) diag, store', session')"
  shows "leg_reports ctx session resp session' result \<or>
    (classify_hedge_result result = HedgeTransient \<and> rs_partner_completes sch \<and>
     leg_reports ctx session resp session' (partner (snd (snd (apply_hedge_leg_effects (rs_first_envs sch) ctx st
       (rd_endpoint (routing first)) result (store, False, latch))))))"
proof -
  obtain s1 o1 l1 where eff: "apply_hedge_leg_effects (rs_first_envs sch) ctx st (rd_endpoint (routing first)) result
      (store, False, latch) = (s1, o1, l1)"
    by (metis prod_cases3)
  obtain s2 o2 l2 where eff2: "apply_hedge_leg_effects (rs_partner_envs sch) ctx st (rd_endpoint (routing (other_leg first)))
      (partner l1) (s1, o1, l1) = (s2, o2, l2)"
    by (metis prod_cases3)
  show ?thesis
    using assms
    by (auto simp: race_from_first_def Let_def eff eff2 finalize_both_transient_def dest: leg_wins_reports
        split: hedge_class.splits if_splits)
qed

lemma race_reports:
  assumes "execute_hedged sch ctx primary secondary hedge_delay st (store, session) = (RaceTerminal (Inr resp) diag, store', session')"
  shows "\<exists>request. (request, True) \<in> set (race_legs sch ctx primary secondary hedge_delay st (store, session)) \<and>
    leg_reports ctx session resp session' (rs_transport sch request)"
  using assms
  by (auto simp: execute_hedged_def race_legs_def Let_def classify_is_final
      dest!: race_from_first_reports leg_wins_reports[where result = "Inr _"]
      split: if_splits timer_event.splits leg.splits sum.splits)

section \<open>Eligibility\<close>

lemma default_threshold_pos: "0 < default_threshold request_timeout"
  by (auto simp: default_threshold_def hedge_threshold_new_def option_or_def DEFAULT_THRESHOLD_CAP_def from_millis_def Let_def
      split: option.splits if_splits)

lemma find_SomeD: "find P xs = Some x \<Longrightarrow> x \<in> set xs \<and> P x"
  by (auto simp: find_Some_iff)

lemma should_hedgeD:
  "should_hedge strategy operation account excluded \<Longrightarrow>
   op_resource_type operation = Document \<and> op_operation_type operation = Read"
  by (auto simp: should_hedge_def HEDGEABLE_RESOURCE_TYPES_def HEDGEABLE_OPERATION_TYPES_def split: if_splits)

text \<open>Only point reads of items are hedged, and the second leg goes to a known read endpoint in a
  region that the caller has not excluded, which differs from the first leg's both in region and in
  connection, over Gateway 2.0 only if the first leg does.\<close>

theorem hedge_secondary_distinct:
  assumes "evaluate_hedge_eligibility endpoint_key operation options account primary request_timeout = Some upgrade"
  shows "op_resource_type operation = Document \<and> op_operation_type operation = Read \<and>
    rd_endpoint (hu_secondary_routing upgrade) \<in> set (aes_preferred_read_endpoints account) \<and>
    hedge_applicable (unwrap_or (oo_excluded_regions options) []) (rd_endpoint (hu_secondary_routing upgrade)) \<and>
    ep_region (rd_endpoint (hu_secondary_routing upgrade)) \<noteq> ep_region (rd_endpoint primary) \<and>
    endpoint_key (ep_gateway_url (rd_endpoint (hu_secondary_routing upgrade))) \<noteq>
      endpoint_key (ep_gateway_url (rd_endpoint primary)) \<and>
    (rd_transport_mode primary = Gateway \<longrightarrow> rd_transport_mode (hu_secondary_routing upgrade) = Gateway)"
  using assms unfolding evaluate_hedge_eligibility_def Let_def
  by (auto simp: uses_gateway_v2_def dest!: should_hedgeD find_SomeD split: option.splits if_splits)

definition hedging_options :: operation_options where
  "hedging_options = \<lparr>oo_max_failover_retry_count = None, oo_max_session_retry_count = None,
     oo_session_capturing_disabled = None, oo_read_consistency_strategy = None, oo_excluded_regions = None,
     oo_end_to_end_timeout = None, oo_max_throttle_retry_count = None, oo_max_throttle_wait_time = None, oo_hedging_enabled = None,
     oo_availability_strategy = Some (HedgingWith \<lparr>hs_threshold = 5\<rparr>)\<rparr>"

definition gateway_routing :: "cosmos_endpoint \<Rightarrow> routing_decision" where
  "gateway_routing e = \<lparr>rd_endpoint = e, rd_selected_url = ep_gateway_url e, rd_transport_mode = Gateway\<rparr>"

lemmas hedge_eval = evaluate_hedge_eligibility_def hedging_options_def resolve_availability_strategy_def should_hedge_def
  HEDGEABLE_RESOURCE_TYPES_def HEDGEABLE_OPERATION_TYPES_def hedge_applicable_def gateway_routing_def unwrap_or_def
  uses_gateway_v2_def selected_url_def Let_def two_region_defs

theorem hedge_secondary_distinct_witness:
  "evaluate_hedge_eligibility (\<lambda>u. u) (item_operation Read) hedging_options (ls_account two_regions) (gateway_routing east) None =
     Some \<lparr>hu_secondary_routing = gateway_routing west, hu_threshold = 5\<rparr> \<and> ep_region west \<noteq> ep_region east"
proof -
  have "evaluate_hedge_eligibility (\<lambda>u. u) (item_operation Read) hedging_options (ls_account two_regions) (gateway_routing east) None =
     Some \<lparr>hu_secondary_routing = gateway_routing west, hu_threshold = 5\<rparr>"
    by (simp add: hedge_eval)
  with hedge_secondary_distinct[OF this] show ?thesis by (simp add: gateway_routing_def)
qed

section \<open>A retriable refusal that ends a race\<close>

text \<open>C37. A single-master read that looks for the hub region of its partition, with failover retries left, retries in
  another region when a region answers 403 with sub-status 3. Inside a race the same answer is final: when the
  second leg starts after the threshold and gets this answer first, the race ends with that error
  although the read could still go on.\<close>

theorem race_surfaces_write_forbidden:
  assumes "ors_hub_region_processing_only st" and "operation_is_read_only (ac_operation ctx)"
    and "\<not> ors_can_use_multiple_write_locations st" and "can_retry_failover st" and "is_write_forbidden status"
    and "rs_stage2 sch = ThresholdElapsed" and "rs_first sch = SecondaryLeg" and "hedge_delay \<le> TIME_DURATION_MAX"
    and "\<And>request. arq_execution_context request = Hedging \<Longrightarrow> rs_transport sch request = Inr (HttpError status headers body Sent)"
  shows "(\<exists>effects. evaluate_transport_result random (ac_operation ctx) (rd_endpoint secondary)
        (HttpError status headers body Sent) st = (FailoverRetry (advance_failover st) None, effects)) \<and>
    fst (execute_hedged sch ctx primary secondary hedge_delay st s) =
      RaceTerminal (Inl (graft_diagnostics (build_service_error status headers body)))
        (Some (hedge_won hedge_delay (region_for_diag primary) (region_for_diag secondary)))"
proof -
  have final: "is_final_result status" and wf: "is_write_forbidden status"
    using assms(5) by (simp_all add: is_write_forbidden_def is_final_result_def Let_def unwrap_or_def)
  have "\<exists>effects. evaluate_transport_result random (ac_operation ctx) (rd_endpoint secondary)
      (HttpError status headers body Sent) st = (FailoverRetry (advance_failover st) None, effects)"
    using assms(1-4) wf by (simp add: evaluate_http_outcome_def try_handle_write_forbidden_def)
  moreover have "fst (execute_hedged sch ctx primary secondary hedge_delay st s) =
      RaceTerminal (Inl (graft_diagnostics (build_service_error status headers body)))
        (Some (hedge_won hedge_delay (region_for_diag primary) (region_for_diag secondary)))"
    using assms(6-9) final
    by (simp add: execute_hedged_def race_from_first_def leg_wins_def won_diagnostics_def perform_single_attempt_def Let_def
        split: prod.split)
  ultimately show ?thesis ..
qed

definition forbidden_race :: race_schedule where
  "forbidden_race = \<lparr>rs_stage2 = ThresholdElapsed, rs_first = SecondaryLeg, rs_secondary_polled = True, rs_partner_completes = True, rs_end = 9,
     rs_transport = (\<lambda>_. Inr (HttpError (from_parts 403 (Some 3)) response_headers_default [] Sent)),
     rs_first_envs = (\<lambda>_. quiet_env), rs_partner_envs = (\<lambda>_. quiet_env),
     rs_surroundings = env_sur quiet_env\<rparr>"

definition hub_read_context :: attempt_context where
  "hub_read_context = \<lparr>ac_operation = item_operation Read, ac_user_session_token = None, ac_is_data_plane = True,
     ac_session_consistency_active = True, ac_deadline = None, ac_can_use_multiple_write_locations = False,
     ac_hub_region_processing_only_initial = True, ac_partition_key_range_id = None\<rparr>"

theorem race_surfaces_write_forbidden_witness:
  "\<exists>d. fst (execute_hedged forbidden_race hub_read_context (gateway_routing east) (gateway_routing west) 5
        ((retry_state_initial 0 False [] 3 2)\<lparr>ors_hub_region_processing_only := True, ors_session_token_retry_count := 1\<rparr>)
        (two_regions, session_container_new)) =
      RaceTerminal (Inl (graft_diagnostics (build_service_error (from_parts 403 (Some 3)) response_headers_default []))) (Some d)"
proof -
  let ?st = "(retry_state_initial 0 False [] 3 2)\<lparr>ors_hub_region_processing_only := True, ors_session_token_retry_count := 1\<rparr>"
  have "ors_hub_region_processing_only ?st" "operation_is_read_only (ac_operation hub_read_context)"
    "\<not> ors_can_use_multiple_write_locations ?st" "can_retry_failover ?st" "is_write_forbidden (from_parts 403 (Some 3))"
    "rs_stage2 forbidden_race = ThresholdElapsed" "rs_first forbidden_race = SecondaryLeg" "5 \<le> TIME_DURATION_MAX"
    by (simp_all add: hub_read_context_def forbidden_race_def two_region_defs can_retry_failover_def is_write_forbidden_def
        from_parts_def TIME_DURATION_MAX_def from_secs_def)
  from race_surfaces_write_forbidden[OF this, of response_headers_default "[]" 0 "gateway_routing west"
      "gateway_routing east" "(two_regions, session_container_new)"]
  show ?thesis by (auto simp: forbidden_race_def)
qed

section \<open>After a race without a winner\<close>

lemma next_for_generation_step:
  "0 < n \<Longrightarrow> li_generation l = g \<Longrightarrow> next_for_generation l n g = \<lparr>li_index = (li_index l + 1) mod n, li_generation = g\<rparr>"
  by (simp add: next_for_generation_def location_index_next_def)

lemma walk_generation:
  "0 < length es \<Longrightarrow> li_generation l = g \<Longrightarrow> li_index l < length es \<Longrightarrow>
   li_generation (walk_past_raced raced es g n l) = g \<and> li_index (walk_past_raced raced es g n l) < length es"
  by (induction n arbitrary: l) (simp_all add: next_for_generation_step)

lemma walk_finds:
  "0 < length es \<Longrightarrow> li_generation l = g \<Longrightarrow> li_index l < length es \<Longrightarrow>
   j \<le> n \<Longrightarrow> \<not> raced (ep_region (es ! ((li_index l + j) mod length es))) \<Longrightarrow>
   \<not> raced (ep_region (es ! li_index (walk_past_raced raced es g n l)))"
proof (induction n arbitrary: l j)
  case (Suc n)
  show ?case
  proof (cases "raced (ep_region (es ! li_index l))")
    case True
    with Suc.prems have "j \<noteq> 0" by (intro notI) simp
    then obtain k where k: "j = Suc k" by (cases j) auto
    let ?l = "next_for_generation l (length es) g"
    have "(li_index ?l + k) mod length es = (li_index l + j) mod length es"
      using Suc.prems(1,2) by (simp add: next_for_generation_step k mod_simps)
    then show ?thesis
      using True Suc.IH[of ?l k] Suc.prems k by (simp add: next_for_generation_step)
  qed simp
qed simp

lemma next_for_generation_bounds:
  "0 < n \<Longrightarrow> li_generation (next_for_generation l n g) = g \<and> li_index (next_for_generation l n g) < n"
  by (simp add: next_for_generation_def location_index_next_def)

lemma ex_offset: "i < n \<Longrightarrow> k < n \<Longrightarrow> \<exists>j \<le> n - 1. (i + j) mod n = (k::nat)"
  by (intro exI[of _ "if i \<le> k then k - i else k + n - i"]) auto

text \<open>After a race that both legs lost, the read goes on in a region that took no part in the race,
  whatever the order of the endpoints, if there is one: the endpoint that the next attempt tries
  first is of such a region.\<close>

theorem both_transient_moves_on:
  assumes "try_advance_after_both_transient st location True primary secondary e = Inr st'"
    and "c \<in> set (primary_endpoints operation st' (snap_account location))"
    and "\<not> raced_region primary secondary (ep_region c)"
    and "operation_is_read_only operation" and "\<not> routes_to_write_endpoints (op_operation_type operation)"
    and "\<not> is_distributed_transaction_operation operation"
  shows "\<not> raced_region primary secondary
    (ep_region (hd (attempt_order st' (snap_account location) (primary_endpoints operation st' (snap_account location)))))"
proof -
  let ?es = "primary_endpoints operation st' (snap_account location)"
  let ?g = "aes_generation (snap_account location)"
  let ?l = "next_for_generation (ors_location st) (length ?es) ?g"
  have pos: "0 < length ?es" using assms(2) by (cases ?es) auto
  have same: "preferred_endpoints_for_attempt (snap_account location)
      (st\<lparr>ors_failover_retry_count := n\<rparr>) True False False = ?es" for n
    using assms(1,4-6)
    by (auto simp: try_advance_after_both_transient_def primary_endpoints_def preferred_endpoints_for_attempt_def
        route_reads_to_write_endpoints_def Let_def split: if_splits)
  have loc: "ors_location st' = walk_past_raced (raced_region primary secondary) ?es ?g (length ?es - 1) ?l"
    using assms(1) pos same
    by (auto simp: try_advance_after_both_transient_def Let_def dest!: arg_cong[of _ _ ors_location] split: if_splits)
  have bounds: "li_generation ?l = ?g" "li_index ?l < length ?es" using next_for_generation_bounds[OF pos] by auto
  obtain k where k: "k < length ?es" "c = ?es ! k" using assms(2) by (metis in_set_conv_nth)
  obtain j where j: "j \<le> length ?es - 1" "(li_index ?l + j) mod length ?es = k"
    using ex_offset[OF bounds(2) k(1)] by blast
  have "\<not> raced_region primary secondary (ep_region (?es ! li_index (ors_location st')))"
    unfolding loc using walk_finds[OF pos bounds j(1), of "raced_region primary secondary"] assms(3) k j by simp
  moreover have "li_generation (ors_location st') = ?g" "li_index (ors_location st') < length ?es"
    unfolding loc using walk_generation[OF pos bounds] by auto
  ultimately show ?thesis
    using pos by (simp add: attempt_order_def location_is_current_def hd_map hd_upt)
qed

theorem both_transient_moves_on_witness:
  "let north = endpoint_regional ''northeurope'' ''n'';
       account = (account_state_single east)\<lparr>aes_preferred_read_endpoints := [east, west, north]\<rparr>;
       location = \<lparr>snap_account = account, snap_partitions = partition_state_new partition_failover_default\<rparr>;
       st = (retry_state_initial 0 False [] 3 2)\<lparr>ors_location := \<lparr>li_index = 2, li_generation = 0\<rparr>\<rparr>;
       st' = st\<lparr>ors_failover_retry_count := 2, ors_location := \<lparr>li_index = 1, li_generation = 0\<rparr>\<rparr>
   in try_advance_after_both_transient st location True (Some ''northeurope'') (Some ''eastus'') transient_outcome_error = Inr st' \<and>
      \<not> raced_region (Some ''northeurope'') (Some ''eastus'')
        (ep_region (hd (attempt_order st' account (primary_endpoints (item_operation Read) st' account))))"
proof -
  let ?account = "(account_state_single east)\<lparr>aes_preferred_read_endpoints := [east, west, endpoint_regional ''northeurope'' ''n'']\<rparr>"
  let ?location = "\<lparr>snap_account = ?account, snap_partitions = partition_state_new partition_failover_default\<rparr>"
  let ?st = "(retry_state_initial 0 False [] 3 2)\<lparr>ors_location := \<lparr>li_index = 2, li_generation = 0\<rparr>\<rparr>"
  let ?st' = "?st\<lparr>ors_failover_retry_count := 2, ors_location := \<lparr>li_index = 1, li_generation = 0\<rparr>\<rparr>"
  have run: "try_advance_after_both_transient ?st ?location True (Some ''northeurope'') (Some ''eastus'') transient_outcome_error =
      Inr ?st'"
    by (simp add: try_advance_after_both_transient_def saturating_add_word_def routing_defs route_reads_to_write_endpoints_def
        two_region_defs next_for_generation_step raced_region_def)
  have "west \<in> set (primary_endpoints (item_operation Read) ?st' (snap_account ?location))"
    "\<not> raced_region (Some ''northeurope'') (Some ''eastus'') (ep_region west)"
    "operation_is_read_only (item_operation Read)" "\<not> routes_to_write_endpoints (op_operation_type (item_operation Read))"
    "\<not> is_distributed_transaction_operation (item_operation Read)"
    by (simp_all add: routing_defs route_reads_to_write_endpoints_def two_region_defs raced_region_def)
  from both_transient_moves_on[OF run this] run show ?thesis by (simp add: Let_def)
qed

section \<open>The cost of a race\<close>

lemma left_mono: "unat u \<le> unat v \<Longrightarrow> retries_left m v \<le> retries_left m u"
  by (simp add: retries_left_def)

lemma unat_saturating_add:
  "unat (saturating_add_word u v) = min (unat u + unat v) (2 ^ LENGTH('a) - 1)" for u v :: "'a::len word"
proof (cases "unat u + unat v < 2 ^ LENGTH('a)")
  case True
  then have "unat (u + v) = unat u + unat v" by (subst unat_add_lem [THEN iffD1]) simp_all
  with True show ?thesis by (simp add: saturating_add_word_def)
next
  case False
  then show ?thesis by (simp add: saturating_add_word_def unsigned_minus_1_eq_mask mask_eq_exp_minus_1)
qed

lemma saturating_add_ge: "unat u \<le> unat (saturating_add_word u v)" for u v :: "'a::len word"
proof -
  have "unat u \<le> 2 ^ LENGTH('a) - 1" using unsigned_less[of u, where 'a = nat] by linarith
  then show ?thesis by (simp add: unat_saturating_add)
qed

text \<open>Losing a race never refunds a retry, and it costs at least one of an operation that had not failed over.\<close>

lemma try_advance_budget:
  assumes "try_advance_after_both_transient st location r p q e = Inr st'"
  shows "retry_budget st' \<le> retry_budget st" and "ors_retry_with_state st' = ors_retry_with_state st"
    and "ors_failover_retry_count st = 0 \<Longrightarrow> retry_budget st' < retry_budget st"
    and "ors_hedge_already_fired st' = ors_hedge_already_fired st" and "ors_failover_retry_count st' \<noteq> 0"
    and "ors_pending_write_effects st' = ors_pending_write_effects st"
proof -
  let ?n = "saturating_add_word (ors_failover_retry_count st) 2"
  have lim: "\<not> ors_max_failover_retries st < ?n"
    and st': "\<exists>l. st' = st\<lparr>ors_failover_retry_count := ?n, ors_location := l\<rparr>"
    using assms by (auto simp: try_advance_after_both_transient_def Let_def split: if_splits
        intro: exI[of _ "ors_location st"])
  show "retry_budget st' \<le> retry_budget st"
    using st' left_mono[OF saturating_add_ge[of "ors_failover_retry_count st" 2], of "ors_max_failover_retries st"]
    by (auto simp: retry_budget_def)
  show "ors_failover_retry_count st = 0 \<Longrightarrow> retry_budget st' < retry_budget st"
    using st' lim by (auto simp: retry_budget_def retries_left_def word_less_nat_alt unat_saturating_add)
  show "ors_failover_retry_count st' \<noteq> 0"
    using st' unat_saturating_add[of "ors_failover_retry_count st" 2] by (auto simp: unat_eq_zero[symmetric] min_def)
  show "ors_retry_with_state st' = ors_retry_with_state st" "ors_hedge_already_fired st' = ors_hedge_already_fired st"
    "ors_pending_write_effects st' = ors_pending_write_effects st"
    using st' by auto
qed

lemma propagate_budget:
  "retry_budget (propagate_hedge_session_unavailable st b) \<le> retry_budget st"
  "ors_retry_with_state (propagate_hedge_session_unavailable st b) = ors_retry_with_state st"
  "ors_failover_retry_count (propagate_hedge_session_unavailable st b) = ors_failover_retry_count st"
  "ors_hedge_already_fired (propagate_hedge_session_unavailable st b) = ors_hedge_already_fired st"
  "ors_pending_write_effects (propagate_hedge_session_unavailable st b) = ors_pending_write_effects st"
  using left_mono[OF saturating_add_ge[of "ors_session_token_retry_count st" 1], of "ors_max_session_retries st"]
  by (simp_all add: propagate_hedge_session_unavailable_def Let_def retry_budget_def)

end
