(* ===== verification/Transport_Retry.thy ===== *)
theory Transport_Retry
  imports Retry_State
begin

text \<open>
  The loop around one transport attempt: \<^verbatim>\<open>driver/transport/transport_pipeline.rs\<close>. A round checks
  the deadline, signs and sends the request, retries once on another connection shard when the
  connection failed, and retries throttled responses within a budget.

  What happens outside is given for every round: the clock readings, the seed of the jitter, and the
  result of signing, wrapping and sending, with the shard that served the attempt and whether another
  one is available. Building the request and recording diagnostics are left out.
\<close>

section \<open>Delays\<close>

text \<open>The limits of the loop by class of request: attempts, wait and single delay.\<close>

definition default_throttle_budget :: "bool \<Rightarrow> u32 \<times> duration \<times> duration" where
  "default_throttle_budget is_data_plane =
     (if is_data_plane
      then (DATA_PLANE_MAX_THROTTLE_ATTEMPTS, DATA_PLANE_MAX_THROTTLE_WAIT, DATA_PLANE_MAX_PER_RETRY_DELAY)
      else (METADATA_MAX_THROTTLE_ATTEMPTS, METADATA_MAX_THROTTLE_WAIT, METADATA_MAX_PER_RETRY_DELAY))"

lemmas throttle_budget_defs = METADATA_MAX_THROTTLE_ATTEMPTS_def METADATA_MAX_THROTTLE_WAIT_def METADATA_MAX_PER_RETRY_DELAY_def
  DATA_PLANE_MAX_THROTTLE_ATTEMPTS_def DATA_PLANE_MAX_THROTTLE_WAIT_def DATA_PLANE_MAX_PER_RETRY_DELAY_def from_secs_def from_millis_def

definition DEADLINE_RETRY_SAFETY_MARGIN :: duration where "DEADLINE_RETRY_SAFETY_MARGIN = from_millis 100"
definition MIN_REMAINING_REQUEST_TIMEOUT :: duration where "MIN_REMAINING_REQUEST_TIMEOUT = from_millis 1"
definition MAX_LOCAL_CONNECTIVITY_RETRIES :: u32 where "MAX_LOCAL_CONNECTIVITY_RETRIES = 1"

definition deadline_capped_delay :: "duration \<Rightarrow> duration \<Rightarrow> duration" where
  "deadline_capped_delay requested_delay remaining =
     min requested_delay (remaining - DEADLINE_RETRY_SAFETY_MARGIN)"

definition remaining_request_timeout :: "instant \<Rightarrow> instant option \<Rightarrow> duration option" where
  "remaining_request_timeout now deadline =
     map_option (\<lambda>d. max (saturating_duration_since d now) MIN_REMAINING_REQUEST_TIMEOUT) deadline"

definition forced_final_retry_delay_from_remaining :: "duration \<Rightarrow> duration option" where
  "forced_final_retry_delay_from_remaining remaining =
     (if remaining = 0 then None
      else
        let half_remaining = remaining div 2 in
        if half_remaining < DEADLINE_RETRY_SAFETY_MARGIN then Some 0 else Some half_remaining)"

definition forced_final_retry_delay :: "instant \<Rightarrow> instant option \<Rightarrow> duration option" where
  "forced_final_retry_delay now deadline =
     (case deadline of
        Some d \<Rightarrow> forced_final_retry_delay_from_remaining (saturating_duration_since d now)
      | None \<Rightarrow> Some 0)"

section \<open>Throttled responses\<close>

datatype throttle_action = ThrottleRetry duration throttle_retry_state | Propagate

definition is_transport_throttle_retry_eligible :: "transport_outcome \<Rightarrow> bool \<Rightarrow> bool" where
  "is_transport_throttle_retry_eligible outcome is_distributed_transaction_request \<longleftrightarrow>
     (case outcome of
        HttpError status _ body _ \<Rightarrow>
          is_throttled status \<and> (\<not> is_distributed_transaction_request \<or> body = [])
      | _ \<Rightarrow> False)"

text \<open>\<open>None\<close> is the panic of the fallback delay.\<close>

definition evaluate_transport_retry ::
  "u64 \<Rightarrow> transport_outcome \<Rightarrow> throttle_retry_state \<Rightarrow> bool \<Rightarrow> throttle_action option" where
  "evaluate_transport_retry seed outcome throttle_state is_distributed_transaction_request =
     (if \<not> is_transport_throttle_retry_eligible outcome is_distributed_transaction_request then Some Propagate
      else
        let retry_after_ms = Option.bind (result_cosmos_headers outcome) rh_retry_after_ms in
        case next_throttle_retry seed throttle_state retry_after_ms of
          None \<Rightarrow> None
        | Some (Some (delay, new_state)) \<Rightarrow> Some (ThrottleRetry delay new_state)
        | Some None \<Rightarrow> Some Propagate)"

section \<open>Connection failures\<close>

definition is_connectivity_error :: "cosmos_error \<Rightarrow> bool" where
  "is_connectivity_error e \<longleftrightarrow>
     \<not> is_from_wire e \<and>
     cs_sub_status (err_status e) \<in>
       {Some SUB_TRANSPORT_GENERATED_503, Some SUB_TRANSPORT_CONNECTION_FAILED, Some SUB_TRANSPORT_IO_FAILED,
        Some SUB_TRANSPORT_DNS_FAILED, Some SUB_TRANSPORT_HTTP2_INCOMPATIBLE, Some SUB_TRANSPORT_BODY_READ_FAILED,
        Some SUB_CLIENT_OPERATION_TIMEOUT}"

definition should_retry_connectivity_failure :: "transport_outcome \<Rightarrow> bool \<Rightarrow> bool" where
  "should_retry_connectivity_failure outcome allow_sent_transport_retry \<longleftrightarrow>
     (case outcome of
        TransportFailed _ e request_sent \<Rightarrow>
          is_connectivity_error e \<and> (definitely_not_sent request_sent \<or> allow_sent_transport_retry)
      | _ \<Rightarrow> False)"

section \<open>The loop\<close>

record transport_context =
  tc_deadline :: "instant option"
  tc_allow_sent_transport_retry :: bool
  tc_is_distributed_transaction :: bool

datatype attempt_result =
    SignFailed cosmos_error
  | WrapFailed cosmos_error
  | Attempted transport_outcome "nat option" bool

record attempt_env =
  ae_now :: instant
  ae_result :: attempt_result
  ae_seed :: u64
  ae_decided_at :: instant
  ae_woken_at :: instant

definition CLIENT_GENERATED_401 :: cosmos_status where
  "CLIENT_GENERATED_401 = from_parts 401 (Some SUB_CLIENT_GENERATED_401)"

definition CLIENT_BAD_REQUEST :: cosmos_status where
  "CLIENT_BAD_REQUEST = from_parts 400 None"

text \<open>A round either goes on with new states and the delay slept, or returns, or panics.\<close>

datatype round_result =
    Continue throttle_retry_state u32 duration
  | Return transport_outcome
  | Panicked

definition deadline_passed :: "instant \<Rightarrow> instant option \<Rightarrow> bool" where
  "deadline_passed now deadline \<longleftrightarrow> (case deadline of Some d \<Rightarrow> d \<le> now | None \<Rightarrow> False)"

text \<open>The treatment of \<^verbatim>\<open>ThrottleAction::Retry\<close> and of \<^verbatim>\<open>ThrottleAction::Propagate\<close>.\<close>

definition throttle_sleep ::
  "transport_context \<Rightarrow> attempt_env \<Rightarrow> duration \<Rightarrow> throttle_retry_state \<Rightarrow> u32 \<Rightarrow> round_result" where
  "throttle_sleep ctx env delay new_state local_connectivity_retry_count =
     (case tc_deadline ctx of
        None \<Rightarrow> Continue new_state local_connectivity_retry_count delay
      | Some d \<Rightarrow>
          let remaining = saturating_duration_since d (ae_decided_at env) in
          if remaining = 0 then Return (DeadlineExceeded Sent)
          else if d \<le> ae_woken_at env then Return (DeadlineExceeded Sent)
          else Continue new_state local_connectivity_retry_count (deadline_capped_delay delay remaining))"

definition throttle_propagate ::
  "transport_context \<Rightarrow> attempt_env \<Rightarrow> transport_outcome \<Rightarrow> throttle_retry_state \<Rightarrow> u32 \<Rightarrow> round_result" where
  "throttle_propagate ctx env outcome throttle_state local_connectivity_retry_count =
     (if trs_attempt_count throttle_state < trs_max_attempts throttle_state \<and>
         can_use_forced_final_retry throttle_state \<and>
         is_transport_throttle_retry_eligible outcome (tc_is_distributed_transaction ctx) then
        case forced_final_retry_delay (ae_decided_at env) (tc_deadline ctx) of
          Some final_delay \<Rightarrow>
            Continue (mark_forced_final_retry_used throttle_state) local_connectivity_retry_count final_delay
        | None \<Rightarrow> Return outcome
      else Return outcome)"

definition transport_round ::
  "transport_context \<Rightarrow> attempt_env \<Rightarrow> throttle_retry_state \<Rightarrow> u32 \<Rightarrow> round_result" where
  "transport_round ctx env throttle_state local_connectivity_retry_count =
     (if deadline_passed (ae_now env) (tc_deadline ctx) then Return (DeadlineExceeded NotSent)
      else
        case ae_result env of
          SignFailed e \<Rightarrow> Return (TransportFailed CLIENT_GENERATED_401 e NotSent)
        | WrapFailed e \<Rightarrow> Return (TransportFailed CLIENT_BAD_REQUEST e NotSent)
        | Attempted outcome shard_id can_retry_on_different_shard \<Rightarrow>
            if shard_id \<noteq> None \<and> local_connectivity_retry_count < MAX_LOCAL_CONNECTIVITY_RETRIES \<and>
               should_retry_connectivity_failure outcome (tc_allow_sent_transport_retry ctx) \<and>
               can_retry_on_different_shard
            then Continue throttle_state (local_connectivity_retry_count + 1) 0
            else
              case evaluate_transport_retry (ae_seed env) outcome throttle_state
                     (tc_is_distributed_transaction ctx) of
                None \<Rightarrow> Panicked
              | Some (ThrottleRetry delay new_state) \<Rightarrow>
                  throttle_sleep ctx env delay new_state local_connectivity_retry_count
              | Some Propagate \<Rightarrow>
                  throttle_propagate ctx env outcome throttle_state local_connectivity_retry_count)"

text \<open>The outcome with the delays slept before it; \<open>Running\<close> when the loop asks for another attempt
  after the given ones.\<close>

datatype loop_result = Running | LoopPanicked | Done transport_outcome "duration list"

fun slept :: "duration \<Rightarrow> loop_result \<Rightarrow> loop_result" where
  "slept d (Done outcome ds) = Done outcome (d # ds)"
| "slept d r = r"

fun transport_loop ::
  "transport_context \<Rightarrow> attempt_env list \<Rightarrow> throttle_retry_state \<Rightarrow> u32 \<Rightarrow> loop_result" where
  "transport_loop ctx [] throttle_state n = Running"
| "transport_loop ctx (env # envs) throttle_state n =
     (case transport_round ctx env throttle_state n of
        Continue new_state m d \<Rightarrow> slept d (transport_loop ctx envs new_state m)
      | Return outcome \<Rightarrow> Done outcome []
      | Panicked \<Rightarrow> LoopPanicked)"

definition execute_transport_pipeline ::
  "transport_context \<Rightarrow> u32 \<Rightarrow> duration \<Rightarrow> duration \<Rightarrow> attempt_env list \<Rightarrow> loop_result" where
  "execute_transport_pipeline ctx max_throttle_attempts max_throttle_wait_time max_throttle_per_retry_delay envs =
     transport_loop ctx envs
       (with_limits max_throttle_attempts max_throttle_wait_time max_throttle_per_retry_delay) 0"

section \<open>The loop is bounded\<close>

type_synonym loop_state = "throttle_retry_state \<times> u32"

definition round_step :: "transport_context \<Rightarrow> loop_state \<Rightarrow> loop_state \<Rightarrow> bool" where
  "round_step ctx s t \<longleftrightarrow> (\<exists>env d. transport_round ctx env (fst s) (snd s) = Continue (fst t) (snd t) d)"

definition loop_inv :: "loop_state \<Rightarrow> bool" where
  "loop_inv s \<longleftrightarrow> trs_attempt_count (fst s) \<le> trs_max_attempts (fst s)"

definition loop_budget :: "loop_state \<Rightarrow> nat" where
  "loop_budget s =
     retries_left (trs_max_attempts (fst s)) (trs_attempt_count (fst s)) +
     (if trs_forced_final_retry_used (fst s) then 0 else 1) +
     retries_left MAX_LOCAL_CONNECTIVITY_RETRIES (snd s)"

text \<open>The three ways in which a round goes on.\<close>

lemma throttle_sleep_Continue:
  "throttle_sleep ctx env delay new_state n = Continue th' n' d \<Longrightarrow> th' = new_state \<and> n' = n \<and> d \<le> delay"
  by (auto simp: throttle_sleep_def deadline_capped_delay_def Let_def split: option.splits if_splits)

lemma throttle_propagate_Continue:
  "throttle_propagate ctx env outcome th n = Continue th' n' d \<Longrightarrow>
   trs_attempt_count th < trs_max_attempts th \<and> \<not> trs_forced_final_retry_used th \<and>
   th' = mark_forced_final_retry_used th \<and> n' = n"
  by (auto simp: throttle_propagate_def can_use_forced_final_retry_def split: option.splits if_splits)

lemma evaluate_transport_retry_Retry:
  "evaluate_transport_retry seed outcome th dtx = Some (ThrottleRetry delay new_state) \<Longrightarrow>
   \<exists>retry_after. next_throttle_retry seed th retry_after = Some (Some (delay, new_state))"
  by (auto simp: evaluate_transport_retry_def Let_def split: option.splits if_splits)

lemma transport_round_ContinueE:
  assumes "transport_round ctx env th n = Continue th' n' d"
  obtains "n < MAX_LOCAL_CONNECTIVITY_RETRIES" "th' = th" "n' = n + 1" "d = 0"
  | seed retry_after delay where "next_throttle_retry seed th retry_after = Some (Some (delay, th'))"
      "n' = n" "d \<le> delay"
  | "trs_attempt_count th < trs_max_attempts th" "\<not> trs_forced_final_retry_used th"
      "th' = mark_forced_final_retry_used th" "n' = n"
proof -
  from assms obtain outcome shard can_switch where
    "ae_result env = Attempted outcome shard can_switch"
    by (auto simp: transport_round_def split: if_splits attempt_result.splits)
  then consider
      "n < MAX_LOCAL_CONNECTIVITY_RETRIES" "Continue th (n + 1) 0 = Continue th' n' d"
    | delay new_state where
        "evaluate_transport_retry (ae_seed env) outcome th (tc_is_distributed_transaction ctx) =
           Some (ThrottleRetry delay new_state)"
        "throttle_sleep ctx env delay new_state n = Continue th' n' d"
    | "throttle_propagate ctx env outcome th n = Continue th' n' d"
    using assms by (auto simp: transport_round_def split: if_splits option.splits throttle_action.splits)
  then show ?thesis
  proof cases
    case 1
    then show ?thesis using that(1) by simp
  next
    case (2 delay new_state)
    then show ?thesis using that(2) throttle_sleep_Continue evaluate_transport_retry_Retry by metis
  next
    case 3
    then show ?thesis using that(3) throttle_propagate_Continue by metis
  qed
qed

interpretation transport_rounds: bounded_retries "round_step ctx" loop_inv loop_budget for ctx
proof
  fix s t
  assume inv: "loop_inv s" and "round_step ctx s t"
  then obtain env d where "transport_round ctx env (fst s) (snd s) = Continue (fst t) (snd t) d"
    by (auto simp: round_step_def)
  then have "loop_inv t \<and> loop_budget t < loop_budget s"
  proof (cases rule: transport_round_ContinueE)
    case 1
    then show ?thesis using inv left_inc[of "snd s"] by (simp add: loop_inv_def loop_budget_def)
  next
    case (2 seed retry_after delay)
    from 2(1) show ?thesis
    proof (rule next_throttle_retry_SomeE)
      assume "trs_attempt_count (fst s) < trs_max_attempts (fst s)"
        "fst t = (fst s)\<lparr>trs_attempt_count := trs_attempt_count (fst s) + 1,
          trs_cumulative_delay := trs_cumulative_delay (fst s) + delay\<rparr>"
      then show ?thesis
        using 2(2) left_inc[of "trs_attempt_count (fst s)" "trs_max_attempts (fst s)"]
        by (simp add: loop_inv_def loop_budget_def inc_below_le)
    qed
  next
    case 3
    then show ?thesis
      using inv by (simp add: loop_inv_def loop_budget_def mark_forced_final_retry_used_def)
  qed
  then show "loop_inv t" and "loop_budget t < loop_budget s" by simp_all
qed

lemma loop_running_steps:
  "transport_loop ctx envs th n = Running \<Longrightarrow> \<exists>t. (round_step ctx ^^ length envs) (th, n) t"
proof (induction envs arbitrary: th n)
  case (Cons env envs)
  show ?case
  proof (cases "transport_round ctx env th n")
    case (Continue th' n' d)
    then have "transport_loop ctx envs th' n' = Running"
      using Cons.prems by (cases "transport_loop ctx envs th' n'") simp_all
    moreover have "round_step ctx (th, n) (th', n')"
      using Continue by (auto simp: round_step_def)
    ultimately show ?thesis
      using Cons.IH by (metis length_Cons relpowp_Suc_I2)
  qed (use Cons.prems in simp_all)
qed auto

lemma transport_ends:
  assumes "unat max_attempts + 3 \<le> length envs"
  shows "execute_transport_pipeline ctx max_attempts max_wait_time max_per_retry_delay envs \<noteq> Running"
proof
  assume "execute_transport_pipeline ctx max_attempts max_wait_time max_per_retry_delay envs = Running"
  then obtain t where "(round_step ctx ^^ length envs) (with_limits max_attempts max_wait_time max_per_retry_delay, 0) t"
    using loop_running_steps unfolding execute_transport_pipeline_def by blast
  from transport_rounds.rounds_bounded[OF this]
  have "length envs \<le> loop_budget (with_limits max_attempts max_wait_time max_per_retry_delay, 0)"
    by (simp add: loop_inv_def with_limits_def)
  then show False
    using assms by (simp add: loop_budget_def with_limits_def retries_left_def MAX_LOCAL_CONNECTIVITY_RETRIES_def)
qed

text \<open>C21. The transport loop ends: with a limit of \<open>n\<close> throttling retries it sends at most \<open>n + 3\<close> requests,
  one for each retry, the first one, one after a connection failure and one forced final retry,
  and then returns an outcome (or panics), whatever the clock and the service do.\<close>

theorem transport_loop_bounded:
  assumes "unat max_attempts + 3 \<le> length envs"
  shows "execute_transport_pipeline ctx max_attempts max_wait_time max_per_retry_delay envs \<noteq> Running"
  by (rule transport_ends[OF assms])

text \<open>With at most 72 throttling retries the loop does not panic.\<close>

lemma evaluate_transport_retry_no_panic:
  "default_fallback th \<Longrightarrow> unat (trs_max_attempts th) \<le> 72 \<Longrightarrow> evaluate_transport_retry seed outcome th dtx \<noteq> None"
  using next_throttle_retry_no_panic[of th seed "Option.bind (result_cosmos_headers outcome) rh_retry_after_ms"]
  by (auto simp: evaluate_transport_retry_def Let_def split: option.split)

lemma transport_round_no_panic:
  assumes "default_fallback th" and "unat (trs_max_attempts th) \<le> 72"
  shows "transport_round ctx env th n \<noteq> Panicked"
proof -
  have "throttle_sleep ctx env delay th' n \<noteq> Panicked" "throttle_propagate ctx env outcome th n \<noteq> Panicked" for delay th' outcome
    by (simp_all add: throttle_sleep_def throttle_propagate_def Let_def split: option.split)
  then show ?thesis
    using evaluate_transport_retry_no_panic[OF assms]
    by (simp add: transport_round_def not_None_eq[symmetric] del: not_None_eq split: attempt_result.split option.split throttle_action.split)
qed

lemma transport_loop_no_panic:
  "default_fallback th \<Longrightarrow> unat (trs_max_attempts th) \<le> 72 \<Longrightarrow> transport_loop ctx envs th n \<noteq> LoopPanicked"
proof (induction envs arbitrary: th n)
  case (Cons env envs)
  show ?case
  proof (cases "transport_round ctx env th n")
    case (Continue th' n' d)
    then have "default_fallback th' \<and> trs_max_attempts th' = trs_max_attempts th"
      by (cases rule: transport_round_ContinueE)
        (use Cons.prems(1) in \<open>auto simp: default_fallback_def mark_forced_final_retry_used_def elim: next_throttle_retry_SomeE\<close>)
    then have "transport_loop ctx envs th' n' \<noteq> LoopPanicked" using Cons.prems(2) by (intro Cons.IH) auto
    then show ?thesis using Continue by (cases "transport_loop ctx envs th' n'") simp_all
  qed (use transport_round_no_panic[OF Cons.prems] in simp_all)
qed simp

text \<open>An answer of the service is handed on as one of the attempts got it.\<close>

definition attempted :: "attempt_env list \<Rightarrow> transport_outcome \<Rightarrow> bool" where
  "attempted envs outcome \<longleftrightarrow> (\<exists>env \<in> set envs. \<exists>shard other. ae_result env = Attempted outcome shard other)"

lemma transport_round_attempted:
  assumes "transport_round ctx env th n = Return outcome" and "result_cosmos_headers outcome \<noteq> None"
  shows "attempted [env] outcome"
  using assms
  by (auto simp: transport_round_def throttle_sleep_def throttle_propagate_def attempted_def Let_def
      split: if_splits attempt_result.splits option.splits throttle_action.splits)

lemma transport_loop_attempted:
  "transport_loop ctx envs th n = Done outcome ds \<Longrightarrow> result_cosmos_headers outcome \<noteq> None \<Longrightarrow> attempted envs outcome"
proof (induction envs arbitrary: th n ds)
  case (Cons env envs)
  show ?case
  proof (cases "transport_round ctx env th n")
    case (Continue th' n' d)
    with Cons.prems(1) obtain ds' where "transport_loop ctx envs th' n' = Done outcome ds'"
      by (cases "transport_loop ctx envs th' n'") simp_all
    from Cons.IH[OF this Cons.prems(2)] show ?thesis by (auto simp: attempted_def)
  next
    case (Return outcome')
    then show ?thesis using Cons.prems transport_round_attempted by (fastforce simp: attempted_def)
  qed (use Cons.prems in simp)
qed simp

text \<open>A throttled response with the given \<^verbatim>\<open>x-ms-retry-after-ms\<close>, without a deadline.\<close>

definition throttled_attempt :: "u64 \<Rightarrow> attempt_env" where
  "throttled_attempt ms =
     \<lparr>ae_now = 0,
      ae_result = Attempted (HttpError (cosmos_status_new 429)
        (response_headers_default\<lparr>rh_retry_after_ms := Some ms\<rparr>) [] Sent) None False,
      ae_seed = 0, ae_decided_at = 0, ae_woken_at = 0\<rparr>"

definition no_deadline :: transport_context where
  "no_deadline = \<lparr>tc_deadline = None, tc_allow_sent_transport_retry = False, tc_is_distributed_transaction = False\<rparr>"

theorem transport_loop_bounded_witness:
  "execute_transport_pipeline no_deadline 0 0 0 [throttled_attempt 1, throttled_attempt 1, throttled_attempt 1] \<noteq> Running"
  by (rule transport_loop_bounded) simp

lemma throttled_round:
  "transport_round no_deadline (throttled_attempt ms) th n =
     (case next_throttle_retry 0 th (Some ms) of
        None \<Rightarrow> Panicked
      | Some (Some (delay, new_state)) \<Rightarrow> Continue new_state n delay
      | Some None \<Rightarrow>
          if trs_attempt_count th < trs_max_attempts th \<and> \<not> trs_forced_final_retry_used th
          then Continue (mark_forced_final_retry_used th) n 0
          else Return (HttpError (cosmos_status_new 429)
            (response_headers_default\<lparr>rh_retry_after_ms := Some ms\<rparr>) [] Sent))"
  by (simp add: transport_round_def throttled_attempt_def no_deadline_def deadline_passed_def
      should_retry_connectivity_failure_def evaluate_transport_retry_def is_transport_throttle_retry_eligible_def
      is_throttled_def cosmos_status_new_def throttle_sleep_def throttle_propagate_def
      forced_final_retry_delay_def can_use_forced_final_retry_def split: option.splits)

lemma slept_Running [simp]: "slept d r = Running \<longleftrightarrow> r = Running"
  by (cases r) simp_all

text \<open>Responses that ask for the same delay are retried while the count and the wait allow it.\<close>

lemma equal_delays:
  assumes "unat (trs_attempt_count th) + j \<le> unat (trs_max_attempts th)"
    and "trs_cumulative_delay th + j * d \<le> trs_max_wait_time th"
    and "d = min (from_millis (unat ms)) (trs_max_per_retry_delay th)"
  shows "transport_loop no_deadline (replicate j (throttled_attempt ms) @ envs) th n = Running \<longleftrightarrow>
    transport_loop no_deadline envs
      (th\<lparr>trs_attempt_count := trs_attempt_count th + of_nat j, trs_cumulative_delay := trs_cumulative_delay th + j * d\<rparr>) n = Running"
  using assms
proof (induction j arbitrary: th)
  case (Suc j)
  let ?next = "th\<lparr>trs_attempt_count := trs_attempt_count th + 1, trs_cumulative_delay := trs_cumulative_delay th + d\<rparr>"
  have less: "trs_attempt_count th < trs_max_attempts th" using Suc.prems(1) by (simp add: word_less_nat_alt)
  have step: "next_throttle_retry 0 th (Some ms) = Some (Some (d, ?next))"
    using less Suc.prems(2,3) by (auto simp: next_throttle_retry_def Let_def)
  have "transport_loop no_deadline (replicate j (throttled_attempt ms) @ envs) ?next n = Running \<longleftrightarrow>
    transport_loop no_deadline envs
      (?next\<lparr>trs_attempt_count := trs_attempt_count ?next + of_nat j, trs_cumulative_delay := trs_cumulative_delay ?next + j * d\<rparr>) n = Running"
    using Suc.prems unat_inc_below[OF less] by (intro Suc.IH) simp_all
  then show ?case by (simp add: throttled_round step add.assoc)
qed simp

text \<open>If the wait suffices for all the retries, the forced final retry is never used.\<close>

lemma wait_suffices:
  assumes "trs_cumulative_delay th \<le> unat (trs_attempt_count th) * trs_max_per_retry_delay th"
    and "unat (trs_max_attempts th) * trs_max_per_retry_delay th \<le> trs_max_wait_time th"
    and "unat (trs_max_attempts th) < unat (trs_attempt_count th) + length mss"
    and "trs_attempt_count th \<le> trs_max_attempts th"
  shows "transport_loop no_deadline (map throttled_attempt mss) th n \<noteq> Running"
  using assms
proof (induction mss arbitrary: th)
  case (Cons ms mss)
  show ?case
  proof (cases "trs_attempt_count th < trs_max_attempts th")
    case True
    let ?per = "trs_max_per_retry_delay th"
    let ?d = "min (from_millis (unat ms)) ?per"
    let ?next = "th\<lparr>trs_attempt_count := trs_attempt_count th + 1, trs_cumulative_delay := trs_cumulative_delay th + ?d\<rparr>"
    have count: "unat (trs_attempt_count th + 1) = Suc (unat (trs_attempt_count th))" by (rule unat_inc_below[OF True])
    have "trs_cumulative_delay th + ?d \<le> Suc (unat (trs_attempt_count th)) * ?per" using Cons.prems(1) by simp
    moreover have "Suc (unat (trs_attempt_count th)) * ?per \<le> unat (trs_max_attempts th) * ?per"
      using True by (intro mult_right_mono) (simp_all add: word_less_nat_alt)
    ultimately have fits: "trs_cumulative_delay th + ?d \<le> trs_max_wait_time th" using Cons.prems(2) by linarith
    then have "next_throttle_retry 0 th (Some ms) = Some (Some (?d, ?next))"
      using True by (auto simp: next_throttle_retry_def Let_def not_less)
    moreover have "transport_loop no_deadline (map throttled_attempt mss) ?next n \<noteq> Running"
      using Cons.prems count inc_below_le[OF True] by (intro Cons.IH) simp_all
    ultimately show ?thesis by (simp add: throttled_round)
  qed (simp add: throttled_round next_throttle_retry_def not_le[symmetric])
qed (simp add: word_le_nat_alt)


end
