(* ===== verification/Operation_Pipeline.thy ===== *)
theory Operation_Pipeline
  imports Hedging Transport_Retry
begin

text \<open>
  The operation loop, \<^verbatim>\<open>execute_operation_pipeline\<close> of \<^verbatim>\<open>driver/pipeline/operation_pipeline.rs\<close>: it
  composes the location store, routing, the session container, the evaluation of an attempt and the
  hedge race. One round of the loop is a function of the round's surroundings: the clocks, whether a request
  can be built, what happens to its attempts in the transport pipeline, what other operations do to
  the shared location store and session container while the attempt is awaited, and the schedule of a race.
  Every request goes through the transport pipeline, which may panic. Rounds follow each other along a list
  of surroundings; a run that uses up the list, or the attempts of a request, is still running. Delays between rounds only matter for
  the clocks. The requests are treated up to the parts that routing and session handling decide;
  diagnostics, apart from those of a race, and logging are left out.
\<close>

section \<open>Consistency\<close>

datatype default_consistency_level = Strong | BoundedStaleness | Session | ConsistentPrefix | Eventual

definition is_session :: "default_consistency_level \<Rightarrow> bool" where
  "is_session self \<longleftrightarrow> self = Session"

definition is_session_effective :: "read_consistency_strategy \<Rightarrow> default_consistency_level \<Rightarrow> bool" where
  "is_session_effective self account_default =
     (case self of
        RcsSession \<Rightarrow> True
      | RcsDefault \<Rightarrow> is_session account_default
      | RcsEventual \<Rightarrow> False | RcsLatestCommitted \<Rightarrow> False | RcsGlobalStrong \<Rightarrow> False)"

definition resolve_effective_consistency ::
  "read_consistency_strategy \<Rightarrow> default_consistency_level \<Rightarrow> default_consistency_level" where
  "resolve_effective_consistency strategy account_default =
     (case strategy of
        RcsDefault \<Rightarrow> account_default
      | RcsLatestCommitted \<Rightarrow> account_default
      | RcsEventual \<Rightarrow> Eventual
      | RcsSession \<Rightarrow> Session
      | RcsGlobalStrong \<Rightarrow> Strong)"

section \<open>Set-up\<close>

record pipeline_context =
  pc_operation :: cosmos_operation
  pc_user_session_token :: "session_token option"
  pc_options :: operation_options
  pc_is_data_plane :: bool
  pc_account_default_consistency :: default_consistency_level
  pc_pre_resolved_pk_range_id :: "pk_range_id option"
  pc_account_name_present :: "location_store \<Rightarrow> bool"
  pc_endpoint_key :: "url \<Rightarrow> string"
  pc_deadline :: "instant option"

definition session_consistency_active :: "pipeline_context \<Rightarrow> bool" where
  "session_consistency_active ctx \<longleftrightarrow>
     \<not> unwrap_or (oo_session_capturing_disabled (pc_options ctx)) False \<and>
     is_session_effective (unwrap_or (oo_read_consistency_strategy (pc_options ctx)) RcsDefault)
       (pc_account_default_consistency ctx)"

text \<open>A global-strong read on an account that is not strong is refused before anything is sent.\<close>

definition refuses_global_strong :: "pipeline_context \<Rightarrow> bool" where
  "refuses_global_strong ctx \<longleftrightarrow>
     unwrap_or (oo_read_consistency_strategy (pc_options ctx)) RcsDefault = RcsGlobalStrong \<and>
     operation_is_read_only (pc_operation ctx) \<and> pc_account_default_consistency ctx \<noteq> Strong"

definition default_session_retries :: "pipeline_context \<Rightarrow> account_endpoint_state \<Rightarrow> u32" where
  "default_session_retries ctx account =
     (if aes_multiple_write_locations_enabled account
      then of_nat (length (preferred_endpoints account (operation_is_read_only (pc_operation ctx)))) else 2)"

definition initial_retry_state :: "pipeline_context \<Rightarrow> location_snapshot \<Rightarrow> operation_retry_state" where
  "initial_retry_state ctx location =
     (let account = snap_account location; partitions = snap_partitions location; options = pc_options ctx;
          multi = aes_multiple_write_locations_enabled account
      in (retry_state_initial (aes_generation account) multi (unwrap_or (oo_excluded_regions options) [])
            (unwrap_or (oo_max_failover_retry_count options) 3)
            (unwrap_or (oo_max_session_retry_count options) (default_session_retries ctx account)))
         \<lparr>ors_partition_key_range_id := pc_pre_resolved_pk_range_id ctx,
          ors_ppaf_write_retry_allowed :=
            (pes_ppaf_enabled partitions \<and> \<not> multi \<and> operation_is_partitioned (pc_operation ctx)),
          ors_ppcb_active := (pes_ppcb_enabled partitions \<and> 1 < length (aes_preferred_read_endpoints account)),
          ors_is_dataplane := pc_is_data_plane ctx\<rparr>)"

text \<open>The limits of throttling that are handed to the transport pipeline with every request, and its context.\<close>

definition max_throttle_attempts :: "pipeline_context \<Rightarrow> u32" where
  "max_throttle_attempts ctx =
     unwrap_or (oo_max_throttle_retry_count (pc_options ctx)) (fst (default_throttle_budget (pc_is_data_plane ctx)))"

definition max_throttle_wait_time :: "pipeline_context \<Rightarrow> duration" where
  "max_throttle_wait_time ctx =
     unwrap_or (oo_max_throttle_wait_time (pc_options ctx)) (fst (snd (default_throttle_budget (pc_is_data_plane ctx))))"

definition transport_context_of :: "pipeline_context \<Rightarrow> transport_context" where
  "transport_context_of ctx =
     \<lparr>tc_deadline = pc_deadline ctx,
      tc_allow_sent_transport_retry =
        operation_is_read_only (pc_operation ctx) \<or> is_idempotent (op_operation_type (pc_operation ctx)),
      tc_is_distributed_transaction = is_distributed_transaction_operation (pc_operation ctx)\<rparr>"

section \<open>Requests\<close>

definition compute_execution_context :: "operation_retry_state \<Rightarrow> execution_context" where
  "compute_execution_context retry_state =
     (if ors_failover_retry_count retry_state = 0 \<and> ors_session_token_retry_count retry_state = 0 then Initial
      else if ors_session_token_retry_count retry_state > 0 then Retry
      else RegionFailover)"

definition emits_tentative_writes_header :: "cosmos_operation \<Rightarrow> bool \<Rightarrow> bool" where
  "emits_tentative_writes_header operation multiple_write_locations_enabled \<longleftrightarrow>
     multiple_write_locations_enabled \<and> \<not> operation_is_read_only operation"

text \<open>The third stage.\<close>

definition build_request ::
  "pipeline_context \<Rightarrow> operation_retry_state \<Rightarrow> routing_decision \<Rightarrow> location_snapshot \<Rightarrow> session_container \<Rightarrow> attempt_request" where
  "build_request ctx retry_state routing location session =
     \<lparr>arq_routing = routing,
      arq_execution_context = compute_execution_context retry_state,
      arq_session_token = scoped_session_token (session_consistency_active ctx) (pc_operation ctx)
        (pc_user_session_token ctx) routing (ors_partition_key_range_id retry_state) session,
      arq_hub_region_header = should_emit_hub_region_header (ors_hub_region_processing_only retry_state)
        (ors_shared_hub_region_latch retry_state),
      arq_tentative_writes_header = emits_tentative_writes_header (pc_operation ctx)
        (aes_multiple_write_locations_enabled (snap_account location))\<rparr>"

section \<open>A round\<close>

record round_env =
  rnd_clock :: "nat \<Rightarrow> instant"
  rnd_build_error :: "attempt_request \<Rightarrow> cosmos_error option"
  rnd_attempts :: "attempt_request \<Rightarrow> attempt_env list"
  rnd_meanwhile :: "race_state \<Rightarrow> race_state"
  rnd_random :: u64
  rnd_applies :: "nat \<Rightarrow> nat \<Rightarrow> apply_env"
  rnd_race :: race_schedule
  rnd_after :: instant

datatype round_outcome =
    Finished "cosmos_error + cosmos_response"
  | NextAttempt operation_retry_state
  | RoundPanicked
  | RoundRunning

text \<open>A request is built, which may fail, and handed to the transport pipeline, which may panic. What happens to
  its attempts is given by the surroundings: for a request of a race that is given up, the attempts
  until then.\<close>

datatype transport_answer = TransportRunning | TransportPanicked | TransportAnswer leg_result

definition send_request :: "pipeline_context \<Rightarrow> round_env \<Rightarrow> attempt_request \<Rightarrow> transport_answer" where
  "send_request ctx env request =
     (case rnd_build_error env request of
        Some e \<Rightarrow> TransportAnswer (Inl e)
      | None \<Rightarrow>
          (case execute_transport_pipeline (transport_context_of ctx) (max_throttle_attempts ctx) (max_throttle_wait_time ctx)
                  (snd (snd (default_throttle_budget (pc_is_data_plane ctx)))) (rnd_attempts env request) of
             Running \<Rightarrow> TransportRunning
           | LoopPanicked \<Rightarrow> TransportPanicked
           | Done outcome _ \<Rightarrow> TransportAnswer (Inr outcome)))"

text \<open>\<^verbatim>\<open>enforce_deadline_or_timeout\<close>, at the end of a round.\<close>

definition enforce_deadline_or_timeout :: "instant option \<Rightarrow> instant \<Rightarrow> operation_retry_state \<Rightarrow> round_outcome" where
  "enforce_deadline_or_timeout deadline now retry_state =
     (case deadline of
        None \<Rightarrow> NextAttempt retry_state
      | Some d \<Rightarrow> if now < d then NextAttempt retry_state else Finished (Inl cancelled_error))"

definition attempt_context_of :: "pipeline_context \<Rightarrow> operation_retry_state \<Rightarrow> attempt_context" where
  "attempt_context_of ctx retry_state =
     \<lparr>ac_operation = pc_operation ctx, ac_user_session_token = pc_user_session_token ctx,
      ac_is_data_plane = pc_is_data_plane ctx, ac_session_consistency_active = session_consistency_active ctx,
      ac_deadline = pc_deadline ctx,
      ac_can_use_multiple_write_locations = ors_can_use_multiple_write_locations retry_state,
      ac_hub_region_processing_only_initial = ors_hub_region_processing_only retry_state,
      ac_partition_key_range_id = ors_partition_key_range_id retry_state\<rparr>"

text \<open>The schedule of a race whose legs are answered by the transport pipeline. The value for a leg without an
  answer is not looked at.\<close>

definition race_schedule_of :: "pipeline_context \<Rightarrow> round_env \<Rightarrow> race_schedule" where
  "race_schedule_of ctx env =
     (rnd_race env)\<lparr>rs_transport := (\<lambda>request.
        case send_request ctx env request of TransportAnswer r \<Rightarrow> r | _ \<Rightarrow> Inl cancelled_error)\<rparr>"

text \<open>The dispatch of a race and the treatment of its result, which stages 2b and 7 share. A leg that panics
  takes the operation with it, as both are polled by the same task.\<close>

definition dispatch_race ::
  "pipeline_context \<Rightarrow> round_env \<Rightarrow> location_snapshot \<Rightarrow> routing_decision \<Rightarrow> routing_decision \<Rightarrow> hedge_threshold \<Rightarrow>
   operation_retry_state \<Rightarrow> race_state \<Rightarrow> round_outcome \<times> race_state" where
  "dispatch_race ctx env location primary secondary hedge_delay retry_state s =
     (let attempt_ctx = attempt_context_of ctx retry_state;
          retry_state = retry_state\<lparr>ors_hedge_already_fired := True\<rparr>;
          legs = race_legs (race_schedule_of ctx env) attempt_ctx primary secondary hedge_delay
      in if list_ex (\<lambda>(request, _). send_request ctx env request = TransportPanicked) (legs retry_state s)
         then (RoundPanicked, s)
         else if list_ex (\<lambda>(request, awaited). awaited \<and> send_request ctx env request = TransportRunning) (legs retry_state s)
         then (RoundRunning, s)
         else case execute_hedged (race_schedule_of ctx env) attempt_ctx primary secondary hedge_delay retry_state s of
           (RaceTerminal result _, s) \<Rightarrow> (Finished result, s)
         | (RaceBothTransient primary_region secondary_region last_error race_pk_range_id race_observed_1002, s) \<Rightarrow>
             let retry_state = (if ors_partition_key_range_id retry_state = None
                   then retry_state\<lparr>ors_partition_key_range_id := race_pk_range_id\<rparr> else retry_state);
                 retry_state = propagate_hedge_session_unavailable retry_state race_observed_1002
             in (case try_advance_after_both_transient retry_state location (operation_is_read_only (pc_operation ctx))
                        primary_region secondary_region last_error of
                   Inl e \<Rightarrow> Finished (Inl (graft_diagnostics e))
                 | Inr retry_state \<Rightarrow> enforce_deadline_or_timeout (pc_deadline ctx) (rnd_after env) retry_state, s))"

definition resolve_for ::
  "pipeline_context \<Rightarrow> (nat \<Rightarrow> instant) \<Rightarrow> operation_retry_state \<Rightarrow> location_store \<Rightarrow> routing_decision option" where
  "resolve_for ctx clock retry_state store =
     resolve_endpoint clock (pc_operation ctx) retry_state (snapshot store) (pc_is_data_plane ctx)
       (pc_account_name_present ctx store) (ls_endpoint_unavailability_ttl store)"

definition eligibility ::
  "pipeline_context \<Rightarrow> location_snapshot \<Rightarrow> routing_decision \<Rightarrow> hedge_upgrade option" where
  "eligibility ctx location routing =
     evaluate_hedge_eligibility (pc_endpoint_key ctx) (pc_operation ctx) (pc_options ctx) (snap_account location) routing
       (oo_end_to_end_timeout (pc_options ctx))"

text \<open>The seventh stage. The account name that routing consults was read in the second stage.\<close>

definition act ::
  "pipeline_context \<Rightarrow> round_env \<Rightarrow> location_store \<Rightarrow> routing_decision \<Rightarrow> operation_action \<Rightarrow> operation_retry_state \<Rightarrow>
   race_state \<Rightarrow> round_outcome \<times> race_state" where
  "act ctx env store2 routing action retry_state s =
     (let operation = pc_operation ctx;
          (store, session) = s;
          enforce = enforce_deadline_or_timeout (pc_deadline ctx) (rnd_after env)
      in case action of
           Complete result \<Rightarrow>
             let (retry_state, store) = flush_pending_write_effects (rnd_applies env 1) retry_state store;
                 store = try_cleanup_probe_candidate retry_state store;
                 store = populate_hub_region (rnd_applies env 2) retry_state operation (rd_endpoint routing) store
             in (Finished (build_cosmos_response result), store, session)
         | FailoverRetry new_state _ \<Rightarrow>
             (enforce (advance_to_next_attempt retry_state new_state store operation), store, session)
         | InRegionRetry new_state _ \<Rightarrow> (enforce new_state, store, session)
         | SessionRetry new_state \<Rightarrow>
             (enforce (advance_to_next_attempt retry_state new_state store operation), store, session)
         | DtxRetry new_state _ \<Rightarrow> (enforce new_state, store, session)
         | Abort e \<Rightarrow>
             let store = (if is_region_confirming_status (err_status e)
                   then snd (flush_pending_write_effects (rnd_applies env 1) retry_state store) else store)
             in (Finished (Inl (graft_diagnostics e)), store, session)
         | Hedge _ hedge_delay new_state \<Rightarrow>
             let retry_state = advance_to_next_attempt retry_state new_state store operation;
                 location = snapshot store
             in (case resolve_endpoint (\<lambda>n. rnd_clock env (3 + n)) operation retry_state location (pc_is_data_plane ctx)
                        (pc_account_name_present ctx store2) (ls_endpoint_unavailability_ttl store) of
                   None \<Rightarrow> (RoundPanicked, store, session)
                 | Some primary_routing \<Rightarrow>
                     (case eligibility ctx location primary_routing of
                        None \<Rightarrow> (NextAttempt retry_state, store, session)
                      | Some upgrade \<Rightarrow>
                          dispatch_race ctx env location primary_routing (hu_secondary_routing upgrade) hedge_delay
                            retry_state (store, session))))"

definition capture_pk_range_id :: "transport_outcome \<Rightarrow> operation_retry_state \<Rightarrow> operation_retry_state" where
  "capture_pk_range_id outcome retry_state =
     (if ors_partition_key_range_id retry_state = None
      then retry_state\<lparr>ors_partition_key_range_id :=
        Option.bind (result_cosmos_headers outcome) rh_partition_key_range_id\<rparr>
      else retry_state)"

text \<open>Stages 4 to 6 once the transport has answered: the action, with the retry state and the shared state that
  it acts on.\<close>

definition evaluate_attempt ::
  "pipeline_context \<Rightarrow> round_env \<Rightarrow> location_store \<Rightarrow> routing_decision \<Rightarrow> transport_outcome \<Rightarrow> operation_retry_state \<Rightarrow>
   race_state \<Rightarrow> operation_action \<times> operation_retry_state \<times> race_state" where
  "evaluate_attempt ctx env store2 routing outcome retry_state s =
     (let operation = pc_operation ctx;
          location = snapshot store2;
          (store, session) = s;
          retry_state = capture_pk_range_id outcome retry_state;
          session = capture_session_token_for_winner (session_consistency_active ctx) operation outcome session;
          (action, effects) =
            evaluate_transport_result (rnd_random env) operation (rd_endpoint routing) outcome retry_state;
          action = (if ors_hedge_already_fired retry_state then action
             else maybe_upgrade_to_hedge (pc_endpoint_key ctx) action operation (pc_options ctx) (snap_account location)
               routing (oo_end_to_end_timeout (pc_options ctx)));
          (immediate_effects, deferred_effects) =
            partition_effects_for_deferral (operation_is_read_only operation)
              (ors_can_use_multiple_write_locations retry_state) (ors_ppaf_write_retry_allowed retry_state) effects;
          retry_state = retry_state\<lparr>ors_pending_write_effects := ors_pending_write_effects retry_state @ deferred_effects\<rparr>;
          store = apply_all (rnd_applies env 0) immediate_effects store
      in (action, retry_state, store, session))"

definition after_attempt ::
  "pipeline_context \<Rightarrow> round_env \<Rightarrow> location_store \<Rightarrow> routing_decision \<Rightarrow> transport_outcome \<Rightarrow> operation_retry_state \<Rightarrow>
   race_state \<Rightarrow> round_outcome \<times> race_state" where
  "after_attempt ctx env store2 routing outcome retry_state s =
     (case evaluate_attempt ctx env store2 routing outcome retry_state s of
        (action, retry_state, s) \<Rightarrow> act ctx env store2 routing action retry_state s)"

text \<open>A round races two regions at once on a first attempt that is eligible.\<close>

definition first_race ::
  "pipeline_context \<Rightarrow> operation_retry_state \<Rightarrow> location_snapshot \<Rightarrow> routing_decision \<Rightarrow> hedge_upgrade option" where
  "first_race ctx retry_state location routing =
     (if ors_failover_retry_count retry_state = 0 \<and> ors_session_token_retry_count retry_state = 0
      then eligibility ctx location routing else None)"

definition pipeline_round ::
  "pipeline_context \<Rightarrow> round_env \<Rightarrow> operation_retry_state \<Rightarrow> race_state \<Rightarrow> round_outcome \<times> race_state" where
  "pipeline_round ctx env retry_state s =
     (let (store, session) = s;
          location = snapshot store
      in case resolve_for ctx (rnd_clock env) retry_state store of
           None \<Rightarrow> (RoundPanicked, s)
         | Some routing \<Rightarrow>
             (case first_race ctx retry_state location routing of
                Some upgrade \<Rightarrow>
                  dispatch_race ctx env location routing (hu_secondary_routing upgrade) (hu_threshold upgrade) retry_state s
              | None \<Rightarrow>
                  (case send_request ctx env (build_request ctx retry_state routing location session) of
                     TransportRunning \<Rightarrow> (RoundRunning, s)
                   | TransportPanicked \<Rightarrow> (RoundPanicked, s)
                   | TransportAnswer (Inl e) \<Rightarrow> (Finished (Inl e), s)
                   | TransportAnswer (Inr outcome) \<Rightarrow>
                       after_attempt ctx env store routing outcome retry_state (rnd_meanwhile env s))))"

section \<open>The loop\<close>

datatype run_result = StillRunning | RunPanicked | Returned "cosmos_error + cosmos_response" race_state

fun pipeline_loop :: "pipeline_context \<Rightarrow> round_env list \<Rightarrow> operation_retry_state \<Rightarrow> race_state \<Rightarrow> run_result" where
  "pipeline_loop ctx [] retry_state s = StillRunning"
| "pipeline_loop ctx (env # envs) retry_state s =
     (case pipeline_round ctx env retry_state s of
        (Finished result, s') \<Rightarrow> Returned result s'
      | (RoundPanicked, s') \<Rightarrow> RunPanicked
      | (RoundRunning, s') \<Rightarrow> StillRunning
      | (NextAttempt retry_state', s') \<Rightarrow> pipeline_loop ctx envs retry_state' s')"

text \<open>The deadline counts from the start of the operation; until then the field has no meaning. An \<^verbatim>\<open>Instant\<close>
  counts seconds in 64 signed bits, and an addition that does not fit panics.\<close>

definition INSTANT_LIMIT :: instant where "INSTANT_LIMIT = 2 ^ 63 * 1000000000"

definition with_deadline :: "instant \<Rightarrow> pipeline_context \<Rightarrow> pipeline_context option" where
  "with_deadline start ctx =
     (case oo_end_to_end_timeout (pc_options ctx) of
        None \<Rightarrow> Some (ctx\<lparr>pc_deadline := None\<rparr>)
      | Some t \<Rightarrow> if start + t < INSTANT_LIMIT then Some (ctx\<lparr>pc_deadline := Some (start + t)\<rparr>) else None)"

definition execute_operation_pipeline :: "instant \<Rightarrow> pipeline_context \<Rightarrow> round_env list \<Rightarrow> race_state \<Rightarrow> run_result" where
  "execute_operation_pipeline start ctx envs s =
     (if refuses_global_strong ctx then Returned (Inl (CosmosError CLIENT_BAD_REQUEST Synthetic None)) s
      else case with_deadline start ctx of
        None \<Rightarrow> RunPanicked
      | Some ctx \<Rightarrow> pipeline_loop ctx envs (initial_retry_state ctx (snapshot (fst s))) s)"

lemma with_deadline_Some:
  assumes "with_deadline start ctx = Some ctx'"
  obtains d where "ctx' = ctx\<lparr>pc_deadline := d\<rparr>"
  using assms by (auto simp: with_deadline_def split: option.splits if_splits)

lemma deadline_simps [simp]:
  "session_consistency_active (ctx\<lparr>pc_deadline := d\<rparr>) = session_consistency_active ctx"
  "max_throttle_attempts (ctx\<lparr>pc_deadline := d\<rparr>) = max_throttle_attempts ctx"
  "default_session_retries (ctx\<lparr>pc_deadline := d\<rparr>) = default_session_retries ctx"
  by (simp_all add: session_consistency_active_def max_throttle_attempts_def default_session_retries_def fun_eq_iff)

section \<open>The store stays well-formed\<close>

lemma apply_effects_ok: "store_ok s \<Longrightarrow> store_ok (apply_effects effects s)"
  by (induction effects s rule: apply_effects.induct) (simp_all add: apply_effect_ok)

lemma apply_all_ok [simp]: "store_ok s \<Longrightarrow> store_ok (apply_all envs effects s)"
  by (simp add: apply_all_def apply_effects_ok)

lemma flush_ok: "store_ok s \<Longrightarrow> store_ok (snd (flush_pending_write_effects envs st s))"
  by (auto simp: flush_pending_write_effects_def Let_def)

lemma cleanup_ok [simp]: "store_ok s \<Longrightarrow> store_ok (try_cleanup_probe_candidate st s)"
  by (auto simp: try_cleanup_probe_candidate_def store_ok_def snapshot_def removal_wf Let_def split: option.splits)

lemma populate_ok [simp]: "store_ok s \<Longrightarrow> store_ok (populate_hub_region envs st operation e s)"
  by (auto simp: populate_hub_region_def Let_def split: option.splits)

lemma record_outcome_ok [simp]: "store_ok s \<Longrightarrow> store_ok (record_hedge_outcome sur outcome k r s)"
  by (auto simp: record_hedge_outcome_def split: option.splits hedge_outcome.splits
      intro: store_step_ok[OF store_step.alternate_win] store_step_ok[OF store_step.primary_win])

lemma leg_effects_ok:
  "store_ok (fst x) \<Longrightarrow> store_ok (fst (apply_hedge_leg_effects envs ctx st e r x))"
  by (auto simp: apply_hedge_leg_effects_def Let_def split: prod.splits sum.splits)

lemma leg_wins_ok: "store_ok (fst s) \<Longrightarrow> store_ok (fst (snd (leg_wins sch ctx outcome d k r tr s)))"
  by (auto simp: leg_wins_def)

lemma race_from_first_ok:
  assumes "store_ok (fst s)"
  shows "store_ok (fst (snd (race_from_first sch ctx routing config st first result partner latch s)))"
proof -
  obtain s1 o1 l1 where eff: "apply_hedge_leg_effects (rs_first_envs sch) ctx st (rd_endpoint (routing first)) result
      (fst s, False, latch) = (s1, o1, l1)"
    by (metis prod_cases3)
  obtain s2 o2 l2 where eff2: "apply_hedge_leg_effects (rs_partner_envs sch) ctx st (rd_endpoint (routing (other_leg first)))
      (partner l1) (s1, o1, l1) = (s2, o2, l2)"
    by (metis prod_cases3)
  have "store_ok s1" using leg_effects_ok[of "(fst s, False, latch)"] assms eff by (metis fst_conv)
  moreover from this have "store_ok s2" using leg_effects_ok[of "(s1, o1, l1)"] eff2 by (metis fst_conv)
  ultimately show ?thesis
    by (simp add: race_from_first_def Let_def eff eff2 leg_wins_ok split: hedge_class.split)
qed

lemma execute_hedged_ok:
  "store_ok (fst s) \<Longrightarrow> store_ok (fst (snd (execute_hedged sch ctx p q d st s)))"
  by (simp add: execute_hedged_def Let_def race_from_first_ok leg_wins_ok split: timer_event.split leg.split sum.split)

lemma dispatch_race_ok: "store_ok (fst s) \<Longrightarrow> store_ok (fst (snd (dispatch_race ctx env location p q d st s)))"
  using execute_hedged_ok[of s "race_schedule_of ctx env" "attempt_context_of ctx st" p q d
      "st\<lparr>ors_hedge_already_fired := True\<rparr>"]
  by (auto simp: dispatch_race_def Let_def split: prod.splits hedged_race_result.splits)

text \<open>A part of a round panics or is not over only because the transport of a request panics or is not over.\<close>

definition transport_blame :: "pipeline_context \<Rightarrow> round_env \<Rightarrow> round_outcome \<Rightarrow> bool" where
  "transport_blame ctx env outcome \<longleftrightarrow>
     (outcome = RoundPanicked \<longrightarrow> (\<exists>request. send_request ctx env request = TransportPanicked)) \<and>
     (outcome = RoundRunning \<longrightarrow> (\<exists>request. send_request ctx env request = TransportRunning))"

lemma transport_blame_simps [simp]:
  "transport_blame ctx env (Finished result)" "transport_blame ctx env (NextAttempt st)"
  "transport_blame ctx env (enforce_deadline_or_timeout d now st)"
  by (simp_all add: transport_blame_def enforce_deadline_or_timeout_def split: option.split)

lemma dispatch_race_blame: "transport_blame ctx env (fst (dispatch_race ctx env location p q d st s))"
proof -
  let ?legs = "race_legs (race_schedule_of ctx env) (attempt_context_of ctx st) p q d (st\<lparr>ors_hedge_already_fired := True\<rparr>) s"
  consider "list_ex (\<lambda>(request, _). send_request ctx env request = TransportPanicked) ?legs"
    | "\<not> list_ex (\<lambda>(request, _). send_request ctx env request = TransportPanicked) ?legs"
      "list_ex (\<lambda>(request, awaited). awaited \<and> send_request ctx env request = TransportRunning) ?legs"
    | "\<not> list_ex (\<lambda>(request, _). send_request ctx env request = TransportPanicked) ?legs"
      "\<not> list_ex (\<lambda>(request, awaited). awaited \<and> send_request ctx env request = TransportRunning) ?legs"
    by blast
  then show ?thesis
    by cases (auto simp: dispatch_race_def transport_blame_def[of _ _ RoundPanicked] transport_blame_def[of _ _ RoundRunning]
        list_ex_iff Let_def split: prod.split hedged_race_result.split sum.split)
qed

lemma resolve_total:
  "store_ok store \<Longrightarrow> \<exists>rd. resolve_endpoint clock operation st (snapshot store) g n ttl = Some rd"
  using selected_total[of "ls_account store" clock operation st ttl]
  by (auto simp: resolve_endpoint_def store_ok_def snapshot_def)

lemma act_ok:
  assumes "store_ok (fst s)"
  shows "store_ok (fst (snd (act ctx env store2 routing action st s))) \<and> transport_blame ctx env (fst (act ctx env store2 routing action st s))"
proof (cases action)
  case (Hedge r d t)
  obtain rd where "resolve_endpoint (\<lambda>n. rnd_clock env (3 + n)) (pc_operation ctx)
      (advance_to_next_attempt st t (fst s) (pc_operation ctx)) (snapshot (fst s)) (pc_is_data_plane ctx)
      (pc_account_name_present ctx store2) (ls_endpoint_unavailability_ttl (fst s)) = Some rd"
    using resolve_total[OF assms] by blast
  then show ?thesis
    using Hedge assms dispatch_race_ok[OF assms] dispatch_race_blame by (cases s) (simp add: act_def Let_def split: option.split)
qed (use assms flush_ok[OF assms, of "rnd_applies env 1" st] in \<open>auto simp: act_def Let_def split: prod.splits\<close>)

lemma evaluate_attempt_eq:
  obtains action effects immediate deferred where
    "evaluate_transport_result (rnd_random env) (pc_operation ctx) (rd_endpoint routing) outcome (capture_pk_range_id outcome st) =
       (action, effects)"
    and "evaluate_attempt ctx env store2 routing outcome st s =
      (if ors_hedge_already_fired (capture_pk_range_id outcome st) then action
         else maybe_upgrade_to_hedge (pc_endpoint_key ctx) action (pc_operation ctx) (pc_options ctx)
           (ls_account store2) routing (oo_end_to_end_timeout (pc_options ctx)),
       (capture_pk_range_id outcome st)\<lparr>ors_pending_write_effects :=
           ors_pending_write_effects (capture_pk_range_id outcome st) @ deferred\<rparr>,
       apply_all (rnd_applies env 0) immediate (fst s),
       capture_session_token_for_winner (session_consistency_active ctx) (pc_operation ctx) outcome (snd s))"
proof -
  let ?st = "capture_pk_range_id outcome st"
  obtain action effects where ev:
    "evaluate_transport_result (rnd_random env) (pc_operation ctx) (rd_endpoint routing) outcome ?st = (action, effects)"
    by (metis surj_pair)
  obtain immediate deferred where split: "partition_effects_for_deferral (operation_is_read_only (pc_operation ctx))
      (ors_can_use_multiple_write_locations ?st) (ors_ppaf_write_retry_allowed ?st) effects = (immediate, deferred)"
    by (metis surj_pair)
  show thesis
    by (rule that[OF ev, of deferred immediate])
      (cases s, simp add: evaluate_attempt_def Let_def ev split snapshot_def)
qed

lemma after_attempt_ok:
  assumes "store_ok (fst s)"
  shows "store_ok (fst (snd (after_attempt ctx env store2 routing outcome st s))) \<and>
   transport_blame ctx env (fst (after_attempt ctx env store2 routing outcome st s))"
proof -
  from evaluate_attempt_eq[of env ctx routing outcome st store2 s] obtain action st' s' where
    "evaluate_attempt ctx env store2 routing outcome st s = (action, st', s')" and "store_ok (fst s')"
    using assms by (metis apply_all_ok fst_conv)
  then show ?thesis using act_ok by (simp add: after_attempt_def)
qed

lemma round_ok:
  assumes "store_ok (fst s)" and "store_ok (fst (rnd_meanwhile env s))"
  shows "store_ok (fst (snd (pipeline_round ctx env st s))) \<and> transport_blame ctx env (fst (pipeline_round ctx env st s))"
proof -
  obtain rd where "resolve_for ctx (rnd_clock env) st (fst s) = Some rd"
    using resolve_total[OF assms(1)] unfolding resolve_for_def by blast
  then show ?thesis
    using assms dispatch_race_ok dispatch_race_blame after_attempt_ok[OF assms(2)]
    by (cases s) (auto simp: pipeline_round_def transport_blame_def[of _ _ RoundPanicked] transport_blame_def[of _ _ RoundRunning] Let_def
        split: option.splits sum.splits transport_answer.splits)
qed

lemma act_running:
  "fst (act ctx env store2 routing action st s) = RoundRunning \<Longrightarrow> \<exists>request. send_request ctx env request = TransportRunning"
  using dispatch_race_blame
  by (cases action; cases s)
    (auto simp: act_def transport_blame_def enforce_deadline_or_timeout_def Let_def split: prod.splits option.splits if_splits)

lemma round_running:
  "fst (pipeline_round ctx env st s) = RoundRunning \<Longrightarrow> \<exists>request. send_request ctx env request = TransportRunning"
  using dispatch_race_blame act_running
  by (cases s)
    (fastforce simp: pipeline_round_def after_attempt_def transport_blame_def Let_def
      split: prod.splits option.splits sum.splits transport_answer.splits)

section \<open>Every round is paid for\<close>

text \<open>A round that goes on leaves less of the budget of its operation.\<close>

lemma advance_to_next_attempt_simps [simp]:
  "retry_budget (advance_to_next_attempt st t store operation) = retry_budget t"
  "ors_retry_with_state (advance_to_next_attempt st t store operation) = ors_retry_with_state t"
  "ors_failover_retry_count (advance_to_next_attempt st t store operation) = ors_failover_retry_count t"
  "ors_hedge_already_fired (advance_to_next_attempt st t store operation) = ors_hedge_already_fired t"
  "ors_pending_write_effects (advance_to_next_attempt st t store operation) = ors_pending_write_effects st"
  by (simp_all add: advance_to_next_attempt_def advance_location_def retry_budget_def Let_def)

lemma budget_update [simp]:
  "retry_budget (st\<lparr>ors_hedge_already_fired := b\<rparr>) = retry_budget st"
  "retry_budget (st\<lparr>ors_partition_key_range_id := k\<rparr>) = retry_budget st"
  "retry_budget (st\<lparr>ors_pending_write_effects := p\<rparr>) = retry_budget st"
  by (simp_all add: retry_budget_def)

lemma capture_pk_simps [simp]:
  "retry_budget (capture_pk_range_id outcome st) = retry_budget st"
  "ors_retry_with_state (capture_pk_range_id outcome st) = ors_retry_with_state st"
  "ors_failover_retry_count (capture_pk_range_id outcome st) = ors_failover_retry_count st"
  "ors_hedge_already_fired (capture_pk_range_id outcome st) = ors_hedge_already_fired st"
  "ors_pending_write_effects (capture_pk_range_id outcome st) = ors_pending_write_effects st"
  by (simp_all add: capture_pk_range_id_def)

lemma enforce_NextAttempt [simp]:
  "enforce_deadline_or_timeout d now st = NextAttempt st' \<longleftrightarrow> st' = st \<and> (\<forall>t. d = Some t \<longrightarrow> now < t)"
  by (auto simp: enforce_deadline_or_timeout_def split: option.split)

lemma dispatch_race_result:
  assumes "dispatch_race ctx env location p q d st s = (outcome, s')" and "outcome \<noteq> RoundPanicked" and "outcome \<noteq> RoundRunning"
  obtains (terminal) result diags where
      "execute_hedged (race_schedule_of ctx env) (attempt_context_of ctx st) p q d (st\<lparr>ors_hedge_already_fired := True\<rparr>) s =
         (RaceTerminal result diags, s')"
      "outcome = Finished result"
  | (transient) a c e k k' b where
      "execute_hedged (race_schedule_of ctx env) (attempt_context_of ctx st) p q d (st\<lparr>ors_hedge_already_fired := True\<rparr>) s =
         (RaceBothTransient a c e k b, s')"
      "outcome = (case try_advance_after_both_transient
           (propagate_hedge_session_unavailable (st\<lparr>ors_hedge_already_fired := True, ors_partition_key_range_id := k'\<rparr>) b) location
           (operation_is_read_only (pc_operation ctx)) a c e of
         Inl e \<Rightarrow> Finished (Inl (graft_diagnostics e))
       | Inr st \<Rightarrow> enforce_deadline_or_timeout (pc_deadline ctx) (rnd_after env) st)"
proof -
  let ?st = "st\<lparr>ors_hedge_already_fired := True\<rparr>"
  obtain r s1 where ex: "execute_hedged (race_schedule_of ctx env) (attempt_context_of ctx st) p q d ?st s = (r, s1)"
    by (metis surj_pair)
  have keep: "?st = st\<lparr>ors_hedge_already_fired := True, ors_partition_key_range_id := ors_partition_key_range_id st\<rparr>"
    by simp
  show thesis
  proof (cases r)
    case (RaceTerminal result diags)
    with assms ex that(1)[of result diags] show thesis
      by (simp add: dispatch_race_def Let_def split: if_split_asm)
  next
    case (RaceBothTransient a c e k b)
    with assms ex that(2)[of a c e k b k] that(2)[of a c e k b "ors_partition_key_range_id st"] keep show thesis
      by (simp add: dispatch_race_def Let_def split: if_split_asm)
  qed
qed

lemma dispatch_race_next:
  assumes "dispatch_race ctx env location p q d st s = (NextAttempt st', s')"
  shows "retry_budget st' \<le> retry_budget st" and "ors_retry_with_state st' = ors_retry_with_state st"
    and "ors_failover_retry_count st = 0 \<Longrightarrow> retry_budget st' < retry_budget st"
    and "ors_hedge_already_fired st'" and "ors_failover_retry_count st' \<noteq> 0"
    and "ors_pending_write_effects st' = ors_pending_write_effects st"
proof -
  let ?st = "st\<lparr>ors_hedge_already_fired := True\<rparr>"
  obtain k b a c e where adv: "try_advance_after_both_transient
      (propagate_hedge_session_unavailable (?st\<lparr>ors_partition_key_range_id := k\<rparr>) b) location
      (operation_is_read_only (pc_operation ctx)) a c e = Inr st'"
    by (rule dispatch_race_result[OF assms]) (auto dest!: sym[of "NextAttempt _"] split: sum.splits)
  note T = try_advance_budget[OF adv]
  note P = propagate_budget[of "?st\<lparr>ors_partition_key_range_id := k\<rparr>" b]
  show "retry_budget st' \<le> retry_budget st" using T(1) P(1) by simp
  show "ors_retry_with_state st' = ors_retry_with_state st" using T(2) P(2) by simp
  show "ors_failover_retry_count st = 0 \<Longrightarrow> retry_budget st' < retry_budget st" using T(3) P(1,3) by simp
  show "ors_hedge_already_fired st'" using T(4) P(4) by simp
  show "ors_failover_retry_count st' \<noteq> 0" using T(5) .
  show "ors_pending_write_effects st' = ors_pending_write_effects st" using T(6) P(5) by simp
qed

lemma act_next:
  assumes "act ctx env store2 routing action st s = (NextAttempt st', s')"
  shows "\<exists>t. next_state action = Some t \<and> retry_budget st' \<le> retry_budget t \<and> ors_retry_with_state st' = ors_retry_with_state t"
  using assms
  by (cases action; cases s)
    (auto simp: act_def Let_def dest: dispatch_race_next(1,2) split: prod.splits option.splits)

lemma next_state_upgrade: "next_state (maybe_upgrade_to_hedge key a operation options account primary timeout) = next_state a"
  by (cases a) (auto simp: maybe_upgrade_to_hedge_def split: option.splits)

lemma after_attempt_nextE:
  assumes "after_attempt ctx env store2 routing outcome st s = (NextAttempt st', s')"
  obtains action st1 s1 where "act ctx env store2 routing action st1 s1 = (NextAttempt st', s')"
    and "\<And>t. next_state action = Some t \<Longrightarrow> advances (capture_pk_range_id outcome st) t"
    and "\<exists>d. ors_pending_write_effects st1 = ors_pending_write_effects st @ d"
proof (rule evaluate_attempt_eq[of env ctx routing outcome st store2 s])
  fix action effects deferred immediate
  let ?st = "capture_pk_range_id outcome st"
  let ?action = "if ors_hedge_already_fired ?st then action
         else maybe_upgrade_to_hedge (pc_endpoint_key ctx) action (pc_operation ctx) (pc_options ctx)
           (ls_account store2) routing (oo_end_to_end_timeout (pc_options ctx))"
  assume ev: "evaluate_transport_result (rnd_random env) (pc_operation ctx) (rd_endpoint routing) outcome ?st = (action, effects)"
    and eq: "evaluate_attempt ctx env store2 routing outcome st s =
      (?action, ?st\<lparr>ors_pending_write_effects := ors_pending_write_effects ?st @ deferred\<rparr>,
       apply_all (rnd_applies env 0) immediate (fst s),
       capture_session_token_for_winner (session_consistency_active ctx) (pc_operation ctx) outcome (snd s))"
  have "advances ?st t" if "next_state ?action = Some t" for t
    using evaluate_advances[of "rnd_random env" "pc_operation ctx" "rd_endpoint routing" outcome ?st t] that ev
    by (auto simp: next_state_upgrade split: if_splits)
  from that[OF assms[unfolded after_attempt_def eq prod.case] this] show thesis by simp
qed

lemma after_attempt_next:
  assumes "after_attempt ctx env store2 routing outcome st s = (NextAttempt st', s')"
    and "retry_with_ok (ors_retry_with_state st)"
  shows "retry_budget st' < retry_budget st \<and> retry_with_ok (ors_retry_with_state st')"
  using assms(1)
proof (rule after_attempt_nextE)
  fix action st1 s1
  assume act: "act ctx env store2 routing action st1 s1 = (NextAttempt st', s')"
    and adv: "\<And>t. next_state action = Some t \<Longrightarrow> advances (capture_pk_range_id outcome st) t"
  from act_next[OF act] obtain t where "next_state action = Some t" "retry_budget st' \<le> retry_budget t"
    "ors_retry_with_state st' = ors_retry_with_state t" by blast
  with advances_budget[OF adv[of t]] assms(2) show ?thesis by simp
qed

lemma round_next:
  assumes "pipeline_round ctx env st s = (NextAttempt st', s')" and "retry_with_ok (ors_retry_with_state st)"
  shows "retry_budget st' < retry_budget st \<and> retry_with_ok (ors_retry_with_state st')"
  using assms
  by (cases s)
    (auto simp: pipeline_round_def first_race_def Let_def dest: dispatch_race_next(2,3) after_attempt_next
      split: option.splits sum.splits transport_answer.splits if_splits)

definition pipeline_step :: "pipeline_context \<Rightarrow> operation_retry_state \<Rightarrow> operation_retry_state \<Rightarrow> bool" where
  "pipeline_step ctx st st' \<longleftrightarrow> (\<exists>env s s'. pipeline_round ctx env st s = (NextAttempt st', s'))"

interpretation pipeline_rounds: bounded_retries "pipeline_step ctx" "\<lambda>st. retry_with_ok (ors_retry_with_state st)" retry_budget
  for ctx
  by unfold_locales (auto simp: pipeline_step_def dest: round_next)

section \<open>The loop returns\<close>

lemma initial_budget:
  "retry_budget (initial_retry_state ctx location) =
     unat (unwrap_or (oo_max_failover_retry_count (pc_options ctx)) 3) +
     unat (unwrap_or (oo_max_session_retry_count (pc_options ctx)) (default_session_retries ctx (snap_account location))) + 174"
  by (simp add: initial_retry_state_def retry_state_initial_def retry_budget_def retries_left_def retry_with_left_def
      unwrap_or_def[of None] retry_with_new_def MAX_BACKEND_FAILOVER_RETRIES_def MAX_DTX_COORDINATOR_RETRIES_def
      MAX_DTX_INFRA_RETRIES_def Let_def)

lemma initial_fields [simp]:
  "ors_retry_with_state (initial_retry_state ctx location) = None"
  "ors_hedge_already_fired (initial_retry_state ctx location) = False"
  by (simp_all add: initial_retry_state_def retry_state_initial_def Let_def)

lemma running_steps:
  "pipeline_loop ctx envs st s = StillRunning \<Longrightarrow>
   \<forall>env \<in> set envs. \<forall>st s. fst (pipeline_round ctx env st s) \<noteq> RoundRunning \<Longrightarrow>
   \<exists>st'. (pipeline_step ctx ^^ length envs) st st'"
proof (induction envs arbitrary: st s)
  case (Cons env envs)
  from Cons.prems(2) have "fst (pipeline_round ctx env st s) \<noteq> RoundRunning" by (metis list.set_intros(1))
  with Cons.prems(1) obtain st1 s1 where r: "pipeline_round ctx env st s = (NextAttempt st1, s1)"
      "pipeline_loop ctx envs st1 s1 = StillRunning"
    by (auto split: prod.splits round_outcome.splits)
  from Cons.IH[OF r(2)] Cons.prems(2) obtain st' where "(pipeline_step ctx ^^ length envs) st1 st'"
    by (metis list.set_intros(2))
  moreover have "pipeline_step ctx st st1" using r(1) unfolding pipeline_step_def by blast
  ultimately show ?case by (metis length_Cons relpowp_Suc_I2)
qed auto

text \<open>The transport of a request ends when there are enough attempts, and panics only beyond 72 throttling retries.\<close>

lemma send_request_ends:
  "unat (max_throttle_attempts ctx) + 3 \<le> length (rnd_attempts env request) \<Longrightarrow> send_request ctx env request \<noteq> TransportRunning"
  using transport_ends by (simp add: send_request_def split: option.split loop_result.split)

lemma send_request_panics:
  "send_request ctx env request = TransportPanicked \<Longrightarrow> 72 < unat (max_throttle_attempts ctx)"
  using transport_loop_no_panic[of "with_limits (max_throttle_attempts ctx) (max_throttle_wait_time ctx)
      (snd (snd (default_throttle_budget (pc_is_data_plane ctx))))" "transport_context_of ctx" "rnd_attempts env request" 0]
  by (rule_tac ccontr) (auto simp: send_request_def execute_transport_pipeline_def default_fallback_def with_limits_def
      split: option.splits loop_result.splits)

text \<open>What other operations do keeps the shared state well-formed.\<close>

definition fair :: "round_env \<Rightarrow> bool" where
  "fair env \<longleftrightarrow> (\<forall>s. store_ok (fst s) \<longrightarrow> store_ok (fst (rnd_meanwhile env s))) \<and>
     (\<forall>s. sc_wf (snd s) \<longrightarrow> sc_wf (snd (rnd_meanwhile env s)))"

lemma fair_store: "fair env \<Longrightarrow> store_ok (fst s) \<Longrightarrow> store_ok (fst (rnd_meanwhile env s))"
  unfolding fair_def by blast

lemma loop_panics:
  "store_ok (fst s) \<Longrightarrow> \<forall>env \<in> set envs. fair env \<Longrightarrow> pipeline_loop ctx envs st s = RunPanicked \<Longrightarrow>
   72 < unat (max_throttle_attempts ctx)"
proof (induction envs arbitrary: st s)
  case (Cons env envs)
  obtain outcome s1 where r: "pipeline_round ctx env st s = (outcome, s1)" by (metis surj_pair)
  have "store_ok (fst s1)" "transport_blame ctx env outcome"
    using round_ok[OF Cons.prems(1) fair_store[OF _ Cons.prems(1)], of env ctx st] Cons.prems(2) r by simp_all
  then show ?case
    using Cons r send_request_panics by (cases outcome) (auto simp: transport_blame_def)
qed simp


section \<open>One race per operation\<close>

lemma inc_nonzero: "n < m \<Longrightarrow> n + 1 \<noteq> (0 :: u32)"
  by (metis nat.distinct(1) unat_0 unat_inc_below)

named_theorems advance_defs \<open>definitions of the transitions of a retry state\<close>

declare advance_failover_def [advance_defs] advance_backend_failover_def [advance_defs]
  advance_dtx_coordinator_retry_def [advance_defs] advance_dtx_infra_retry_def [advance_defs]
  advance_session_retry_def [advance_defs] advance_retry_with_delay_def [advance_defs]

lemma advances_fields:
  assumes "advances s t"
  shows "ors_hedge_already_fired t = ors_hedge_already_fired s"
    and "ors_pending_write_effects t = ors_pending_write_effects s"
    and "ors_failover_retry_count s \<noteq> 0 \<Longrightarrow> ors_failover_retry_count t \<noteq> 0"
proof -
  show "ors_hedge_already_fired t = ors_hedge_already_fired s"
    using assms by cases (simp_all add: advance_defs)
  show "ors_pending_write_effects t = ors_pending_write_effects s"
    using assms by cases (simp_all add: advance_defs)
  show "ors_failover_retry_count s \<noteq> 0 \<Longrightarrow> ors_failover_retry_count t \<noteq> 0"
    using assms by cases (simp_all add: advance_defs inc_nonzero can_retry_failover_def)
qed

text \<open>What the handlers of an attempt decide: never a hedge, and no handler completes the operation.\<close>

definition goes_on :: "operation_action \<Rightarrow> bool" where
  "goes_on a = (case a of Complete _ \<Rightarrow> False | Hedge _ _ _ \<Rightarrow> False | _ \<Rightarrow> True)"

lemma handler_goes_on:
  "try_handle_write_forbidden operation endpoint st status = Some (a, effects) \<Longrightarrow> goes_on a"
  "try_handle_database_account_not_found operation endpoint st status = Some (a, effects) \<Longrightarrow> goes_on a"
  "try_handle_read_session_not_available st status headers body = Some (a, effects) \<Longrightarrow> goes_on a"
  "try_handle_retry_trigger_group operation endpoint st status request_sent = Some (a, effects) \<Longrightarrow> goes_on a"
  "try_handle_retry_with random st status = Some (a, effects) \<Longrightarrow> goes_on a"
  "try_handle_server_error operation endpoint st status = Some (a, effects) \<Longrightarrow> goes_on a"
  by (auto simp: handler_defs goes_on_def Let_def split: if_splits option.splits)

lemma evaluate_http_goes_on:
  assumes "evaluate_http_outcome random operation endpoint st status headers body request_sent = (a, effects)"
  shows "goes_on a \<or> (op_resource_type operation = DistributedTransactionBatch \<and> a = Complete (TSuccess status headers body))"
  using assms
  by (auto simp: evaluate_http_outcome_def evaluate_dtx_http_outcome_def goes_on_def[of "Abort _"] goes_on_def[of "DtxRetry _ _"]
      dest: handler_goes_on split: option.splits if_splits)

lemma evaluate_goes_on:
  assumes "evaluate_transport_result random operation endpoint outcome st = (a, effects)"
  shows "goes_on a \<or> (\<exists>status headers body. a = Complete (TSuccess status headers body) \<and>
     (outcome = TSuccess status headers body \<or>
      (op_resource_type operation = DistributedTransactionBatch \<and> (\<exists>sent. outcome = HttpError status headers body sent))))"
  using assms
  by (cases outcome)
    (auto simp: goes_on_def evaluate_transport_layer_outcome_def evaluate_deadline_exceeded_outcome_def Let_def
      dest: evaluate_http_goes_on split: if_splits)

lemma evaluate_never_hedges: "fst (evaluate_transport_result random operation endpoint outcome st) \<noteq> Hedge r d t"
  by (cases "evaluate_transport_result random operation endpoint outcome st") (auto simp: goes_on_def dest: evaluate_goes_on)

text \<open>A round does not depend on the schedule of races unless it dispatches one.\<close>

lemma send_request_schedule [simp]: "send_request ctx (env\<lparr>rnd_race := sch\<rparr>) = send_request ctx env"
  by (simp add: send_request_def fun_eq_iff split: option.split)

lemma evaluate_attempt_schedule [simp]: "evaluate_attempt ctx (env\<lparr>rnd_race := sch\<rparr>) = evaluate_attempt ctx env"
  by (simp add: evaluate_attempt_def fun_eq_iff)

lemma act_schedule:
  assumes "act ctx env store2 routing action st s = (NextAttempt st', s')"
  shows "(ors_hedge_already_fired st' \<and> ors_failover_retry_count st' \<noteq> 0) \<or>
    act ctx (env\<lparr>rnd_race := sch\<rparr>) store2 routing action st s = (NextAttempt st', s')"
  using assms
  by (cases action; cases s)
    (auto simp: act_def Let_def dest: dispatch_race_next(4,5) split: prod.splits option.splits)

lemma act_schedule_plain:
  "\<forall>r d t. action \<noteq> Hedge r d t \<Longrightarrow> act ctx (env\<lparr>rnd_race := sch\<rparr>) store2 routing action st s = act ctx env store2 routing action st s"
  by (cases action; cases s) (auto simp: act_def Let_def)

lemma after_attempt_schedule:
  assumes "after_attempt ctx env store2 routing outcome st s = (NextAttempt st', s')"
  shows "(ors_hedge_already_fired st' \<and> ors_failover_retry_count st' \<noteq> 0) \<or>
    after_attempt ctx (env\<lparr>rnd_race := sch\<rparr>) store2 routing outcome st s = (NextAttempt st', s')"
  using assms act_schedule by (cases "evaluate_attempt ctx env store2 routing outcome st s") (simp add: after_attempt_def)

lemma after_attempt_schedule_fired:
  assumes "ors_hedge_already_fired st"
  shows "after_attempt ctx (env\<lparr>rnd_race := sch\<rparr>) store2 routing outcome st s = after_attempt ctx env store2 routing outcome st s"
proof -
  obtain action effects where ev: "evaluate_transport_result (rnd_random env) (pc_operation ctx) (rd_endpoint routing) outcome
      (capture_pk_range_id outcome st) = (action, effects)"
    by (metis surj_pair)
  with evaluate_never_hedges have "action \<noteq> Hedge r d t" for r d t by (metis fst_conv)
  then show ?thesis
    using assms ev by (simp add: after_attempt_def evaluate_attempt_def Let_def act_schedule_plain split: prod.split)
qed

lemma round_schedule:
  assumes "pipeline_round ctx env st s = (NextAttempt st', s')"
  shows "(ors_hedge_already_fired st' \<and> ors_failover_retry_count st' \<noteq> 0) \<or>
    pipeline_round ctx (env\<lparr>rnd_race := sch\<rparr>) st s = (NextAttempt st', s')"
  using assms
  by (cases s)
    (auto simp: pipeline_round_def Let_def dest: dispatch_race_next(4,5) after_attempt_schedule[where sch = sch]
      split: option.splits sum.splits transport_answer.splits)

lemma round_schedule_fired:
  "ors_hedge_already_fired st \<Longrightarrow> ors_failover_retry_count st \<noteq> 0 \<Longrightarrow>
   pipeline_round ctx (env\<lparr>rnd_race := sch\<rparr>) st s = pipeline_round ctx env st s"
  by (cases s) (simp add: pipeline_round_def first_race_def Let_def after_attempt_schedule_fired
      split: option.split sum.split transport_answer.split)

lemma act_fired:
  assumes "act ctx env store2 routing action st s = (NextAttempt st', s')"
  shows "(\<exists>t. next_state action = Some t \<and> ors_hedge_already_fired st' = ors_hedge_already_fired t \<and>
      ors_failover_retry_count st' = ors_failover_retry_count t) \<or>
    (ors_hedge_already_fired st' \<and> ors_failover_retry_count st' \<noteq> 0)"
  using assms
  by (cases action; cases s)
    (auto simp: act_def Let_def dest: dispatch_race_next(4,5) split: prod.splits option.splits)

lemma round_fired:
  assumes "pipeline_round ctx env st s = (NextAttempt st', s')" and "ors_hedge_already_fired st" and "ors_failover_retry_count st \<noteq> 0"
  shows "ors_hedge_already_fired st' \<and> ors_failover_retry_count st' \<noteq> 0"
proof -
  obtain routing outcome where after: "after_attempt ctx env (fst s) routing outcome st (rnd_meanwhile env s) = (NextAttempt st', s')"
    using assms by (cases s) (auto simp: pipeline_round_def first_race_def Let_def split: option.splits sum.splits transport_answer.splits)
  from after show ?thesis
  proof (rule after_attempt_nextE)
    fix action st1 s1
    assume act: "act ctx env (fst s) routing action st1 s1 = (NextAttempt st', s')"
      and adv: "\<And>t. next_state action = Some t \<Longrightarrow> advances (capture_pk_range_id outcome st) t"
    from advances_fields[OF adv] act_fired[OF act] assms(2,3) show ?thesis by auto
  qed
qed

lemma loop_schedule_fired:
  "ors_hedge_already_fired st \<Longrightarrow> ors_failover_retry_count st \<noteq> 0 \<Longrightarrow>
   pipeline_loop ctx (map (\<lambda>env. env\<lparr>rnd_race := sch env\<rparr>) envs) st s = pipeline_loop ctx envs st s"
  by (induction envs arbitrary: st s)
    (auto simp: round_schedule_fired dest: round_fired split: prod.split round_outcome.split)

text \<open>C26. An operation races at most once. When what a round does depends on how a race goes, so that it
  dispatched one, then nothing that the operation does after that round depends on the schedule of
  any race.\<close>

theorem one_race_per_operation:
  assumes "pipeline_round ctx env st s = (NextAttempt st', s')"
    and "pipeline_round ctx (env\<lparr>rnd_race := other\<rparr>) st s \<noteq> (NextAttempt st', s')"
  shows "pipeline_loop ctx (map (\<lambda>env. env\<lparr>rnd_race := sch env\<rparr>) envs) st' s' = pipeline_loop ctx envs st' s'"
  using round_schedule[OF assms(1), of other] assms(2) loop_schedule_fired by blast

section \<open>Deferred marks\<close>

lemma act_pending:
  assumes "act ctx env store2 routing action st s = (NextAttempt st', s')"
  shows "ors_pending_write_effects st' = ors_pending_write_effects st \<or>
    (\<exists>t. next_state action = Some t \<and> ors_pending_write_effects st' = ors_pending_write_effects t)"
  using assms
  by (cases action; cases s)
    (auto simp: act_def Let_def dest: dispatch_race_next(6) split: prod.splits option.splits)

text \<open>C12. The marks that a write defers are kept from round to round, in order, whichever way it goes
  on; only the end of the operation applies or drops them.\<close>

theorem deferred_marks_kept:
  assumes "pipeline_round ctx env st s = (NextAttempt st', s')"
  shows "\<exists>deferred. ors_pending_write_effects st' = ors_pending_write_effects st @ deferred"
proof (cases "\<exists>routing outcome. after_attempt ctx env (fst s) routing outcome st (rnd_meanwhile env s) = (NextAttempt st', s')")
  case False
  with assms show ?thesis
    by (cases s) (auto simp: pipeline_round_def Let_def dest: dispatch_race_next(6)
        split: option.splits sum.splits transport_answer.splits)
next
  case True
  then obtain routing outcome where after:
    "after_attempt ctx env (fst s) routing outcome st (rnd_meanwhile env s) = (NextAttempt st', s')" by blast
  from after show ?thesis
  proof (rule after_attempt_nextE)
    fix action st1 s1
    assume act: "act ctx env (fst s) routing action st1 s1 = (NextAttempt st', s')"
      and adv: "\<And>t. next_state action = Some t \<Longrightarrow> advances (capture_pk_range_id outcome st) t"
      and kept: "\<exists>d. ors_pending_write_effects st1 = ors_pending_write_effects st @ d"
    from advances_fields(2)[OF adv] act_pending[OF act] kept show ?thesis by auto
  qed
qed

section \<open>Responses and session tokens\<close>

text \<open>What a response stands for: a success, or an error of a distributed transaction, whose outcome
  the caller reads off the body.\<close>

definition answers :: "cosmos_operation \<Rightarrow> transport_outcome \<Rightarrow> cosmos_response \<Rightarrow> bool" where
  "answers operation outcome resp \<longleftrightarrow>
     outcome = TSuccess (cr_status resp) (cr_headers resp) (cr_body resp) \<or>
     (is_distributed_transaction_operation operation \<and>
      (\<exists>sent. outcome = HttpError (cr_status resp) (cr_headers resp) (cr_body resp) sent))"

lemma finalize_Inr: "finalize_hedge_attempt tr = Inr resp \<Longrightarrow> answers operation tr resp"
  by (cases tr) (auto simp: answers_def)

lemma evaluate_Complete:
  assumes "evaluate_transport_result random operation endpoint outcome st = (Complete r, effects)"
    and "build_cosmos_response r = Inr resp"
  shows "answers operation outcome resp"
  using evaluate_goes_on[OF assms(1)] assms(2)
  by (auto simp: goes_on_def answers_def is_distributed_transaction_operation_def)

lemma upgrade_Complete:
  "maybe_upgrade_to_hedge key a operation options account primary timeout = Complete r \<longleftrightarrow> a = Complete r"
  by (cases a) (auto simp: maybe_upgrade_to_hedge_def split: option.splits)

lemma capture_winner_wf: "sc_wf sc \<Longrightarrow> sc_wf (capture_session_token_for_winner active operation outcome sc)"
  by (auto simp: capture_session_token_for_winner_def capture_session_token_def set_session_token_wf split: option.splits)

text \<open>The requests whose answers a round waits for: the plain attempt, the legs of the race that it starts with, and
  those of a race that follows a failed attempt.\<close>

definition hedge_legs ::
  "pipeline_context \<Rightarrow> round_env \<Rightarrow> location_store \<Rightarrow> hedge_threshold \<Rightarrow> operation_retry_state \<Rightarrow> operation_retry_state \<Rightarrow>
   race_state \<Rightarrow> (attempt_request \<times> bool) list" where
  "hedge_legs ctx env store2 hedge_delay new_state st s =
     (let st = advance_to_next_attempt st new_state (fst s) (pc_operation ctx)
      in case resolve_endpoint (\<lambda>n. rnd_clock env (3 + n)) (pc_operation ctx) st (snapshot (fst s)) (pc_is_data_plane ctx)
                (pc_account_name_present ctx store2) (ls_endpoint_unavailability_ttl (fst s)) of
           None \<Rightarrow> []
         | Some primary \<Rightarrow>
             (case eligibility ctx (snapshot (fst s)) primary of
                None \<Rightarrow> []
              | Some upgrade \<Rightarrow>
                  race_legs (race_schedule_of ctx env) (attempt_context_of ctx st) primary (hu_secondary_routing upgrade) hedge_delay
                    (st\<lparr>ors_hedge_already_fired := True\<rparr>) s))"

inductive round_sends :: "pipeline_context \<Rightarrow> round_env \<Rightarrow> operation_retry_state \<Rightarrow> race_state \<Rightarrow> attempt_request \<Rightarrow> bool"
  for ctx env st s where
  plain: "resolve_for ctx (rnd_clock env) st (fst s) = Some routing \<Longrightarrow> first_race ctx st (snapshot (fst s)) routing = None \<Longrightarrow>
    round_sends ctx env st s (build_request ctx st routing (snapshot (fst s)) (snd s))"
| first: "resolve_for ctx (rnd_clock env) st (fst s) = Some routing \<Longrightarrow>
    first_race ctx st (snapshot (fst s)) routing = Some upgrade \<Longrightarrow>
    (request, True) \<in> set (race_legs (race_schedule_of ctx env) (attempt_context_of ctx st) routing (hu_secondary_routing upgrade)
      (hu_threshold upgrade) (st\<lparr>ors_hedge_already_fired := True\<rparr>) s) \<Longrightarrow>
    round_sends ctx env st s request"
| hedged: "resolve_for ctx (rnd_clock env) st (fst s) = Some routing \<Longrightarrow> first_race ctx st (snapshot (fst s)) routing = None \<Longrightarrow>
    send_request ctx env (build_request ctx st routing (snapshot (fst s)) (snd s)) = TransportAnswer (Inr outcome) \<Longrightarrow>
    evaluate_attempt ctx env (fst s) routing outcome st (rnd_meanwhile env s) = (Hedge r d t, st1, s1) \<Longrightarrow>
    (request, True) \<in> set (hedge_legs ctx env (fst s) d t st1 s1) \<Longrightarrow>
    round_sends ctx env st s request"

text \<open>How a part of a round may treat the session container and report a response.\<close>

definition round_reports ::
  "pipeline_context \<Rightarrow> round_env \<Rightarrow> (attempt_request \<Rightarrow> bool) \<Rightarrow> session_container \<Rightarrow> round_outcome \<Rightarrow> session_container \<Rightarrow> bool" where
  "round_reports ctx env sends sc outcome sc' \<longleftrightarrow>
     (fair env \<longrightarrow> sc_wf sc \<longrightarrow> sc_wf sc') \<and>
     (\<forall>resp. outcome = Finished (Inr resp) \<longrightarrow>
        (\<exists>request tr base. sends request \<and> send_request ctx env request = TransportAnswer (Inr tr) \<and>
           answers (pc_operation ctx) tr resp \<and> (fair env \<longrightarrow> sc_wf sc \<longrightarrow> sc_wf base) \<and>
           sc' = capture_session_token_for_winner (session_consistency_active ctx) (pc_operation ctx) tr base))"

lemma round_reports_mono:
  assumes "round_reports ctx env sends sc1 outcome sc'" and "\<And>request. sends request \<Longrightarrow> sends' request"
    and "fair env \<Longrightarrow> sc_wf sc \<Longrightarrow> sc_wf sc1"
  shows "round_reports ctx env sends' sc outcome sc'"
  using assms unfolding round_reports_def by blast

lemma round_reports_trivial:
  "round_reports ctx env sends sc (Finished (Inl e)) sc" "round_reports ctx env sends sc RoundPanicked sc"
  "round_reports ctx env sends sc RoundRunning sc" "round_reports ctx env sends sc (NextAttempt st) sc"
  "round_reports ctx env sends sc (enforce_deadline_or_timeout d now st) sc"
  by (simp_all add: round_reports_def enforce_deadline_or_timeout_def split: option.split)

lemma dispatch_reports:
  assumes "dispatch_race ctx env location p q d st (store, sc) = (outcome, store', sc')"
  shows "round_reports ctx env (\<lambda>request. (request, True) \<in> set (race_legs (race_schedule_of ctx env) (attempt_context_of ctx st)
    p q d (st\<lparr>ors_hedge_already_fired := True\<rparr>) (store, sc))) sc outcome sc'"
proof (cases "outcome = RoundPanicked \<or> outcome = RoundRunning")
  case False
  obtain latch where ends: "race_ends (leg_answer (race_schedule_of ctx env) (attempt_context_of ctx st) sc p q latch)
      (\<lambda>l. case l of PrimaryLeg \<Rightarrow> p | SecondaryLeg \<Rightarrow> q) (attempt_context_of ctx st) sc
      (fst (execute_hedged (race_schedule_of ctx env) (attempt_context_of ctx st) p q d (st\<lparr>ors_hedge_already_fired := True\<rparr>) (store, sc)))
      (snd (snd (execute_hedged (race_schedule_of ctx env) (attempt_context_of ctx st) p q d (st\<lparr>ors_hedge_already_fired := True\<rparr>) (store, sc))))"
    using execute_hedged_ends by blast
  show ?thesis
  proof (rule dispatch_race_result[OF assms])
    fix result diags
    assume race: "execute_hedged (race_schedule_of ctx env) (attempt_context_of ctx st) p q d
        (st\<lparr>ors_hedge_already_fired := True\<rparr>) (store, sc) = (RaceTerminal result diags, store', sc')"
      and "outcome = Finished result"
    moreover from ends have "sc_wf sc \<longrightarrow> sc_wf sc'"
      by cases (use race in \<open>auto simp: capture_winner_wf\<close>)
    moreover have "send_request ctx env request = TransportAnswer (Inr tr)"
      if "rs_transport (race_schedule_of ctx env) request = Inr tr" for request tr
      using that by (auto simp: race_schedule_of_def split: transport_answer.splits)
    ultimately show ?thesis
      using race_reports[of "race_schedule_of ctx env" "attempt_context_of ctx st" p q d _ store sc _ diags store' sc']
      by (fastforce simp: round_reports_def leg_reports_def attempt_context_of_def intro: finalize_Inr)
  next
    fix a c e k k' b
    assume race: "execute_hedged (race_schedule_of ctx env) (attempt_context_of ctx st) p q d
        (st\<lparr>ors_hedge_already_fired := True\<rparr>) (store, sc) = (RaceBothTransient a c e k b, store', sc')"
      and outcome: "outcome = (case try_advance_after_both_transient
           (propagate_hedge_session_unavailable (st\<lparr>ors_hedge_already_fired := True, ors_partition_key_range_id := k'\<rparr>) b) location
           (operation_is_read_only (pc_operation ctx)) a c e of
         Inl e \<Rightarrow> Finished (Inl (graft_diagnostics e))
       | Inr st \<Rightarrow> enforce_deadline_or_timeout (pc_deadline ctx) (rnd_after env) st)"
    from ends have "sc' = sc" by cases (use race in auto)
    then show ?thesis unfolding outcome by (simp add: round_reports_trivial split: sum.split)
  qed (use False in simp_all)
next
  case True
  with assms have "sc' = sc"
    by (auto simp: dispatch_race_def enforce_deadline_or_timeout_def Let_def
        split: if_splits prod.splits hedged_race_result.splits sum.splits option.splits)
  with True show ?thesis by (auto simp: round_reports_trivial)
qed

lemma act_reports:
  assumes "act ctx env store2 routing action st (store, sc) = (outcome, store', sc')"
    and "\<And>r resp. action = Complete r \<Longrightarrow> build_cosmos_response r = Inr resp \<Longrightarrow> answers (pc_operation ctx) tr resp"
    and "sc = capture_session_token_for_winner (session_consistency_active ctx) (pc_operation ctx) tr sc0"
    and "send_request ctx env request = TransportAnswer (Inr tr)" and "sends request"
    and "\<And>r d t req. action = Hedge r d t \<Longrightarrow> (req, True) \<in> set (hedge_legs ctx env store2 d t st (store, sc)) \<Longrightarrow> sends req"
  shows "round_reports ctx env sends sc0 outcome sc'"
proof (cases action)
  case (Complete r)
  then have "outcome = Finished (build_cosmos_response r)" "sc' = sc"
    using assms(1) by (auto simp: act_def Let_def split: prod.splits)
  then show ?thesis using Complete assms(2-5) by (fastforce simp: round_reports_def capture_winner_wf)
next
  case (Hedge r d t)
  have "round_reports ctx env sends sc outcome sc'"
    using Hedge assms(1) assms(6)[OF Hedge]
    by (auto simp: act_def hedge_legs_def Let_def round_reports_trivial dest!: dispatch_reports
        intro: round_reports_mono split: option.splits)
  then show ?thesis by (rule round_reports_mono) (simp_all add: capture_winner_wf assms(3))
qed (use assms(1,3) in \<open>auto simp: act_def round_reports_def enforce_deadline_or_timeout_def capture_winner_wf Let_def
       split: option.splits if_splits\<close>)

lemma after_attempt_reports:
  assumes "after_attempt ctx env store2 routing tr st (store, sc) = (outcome, store', sc')"
    and "send_request ctx env request = TransportAnswer (Inr tr)" and "sends request"
    and "\<And>r d t st1 s1 req. evaluate_attempt ctx env store2 routing tr st (store, sc) = (Hedge r d t, st1, s1) \<Longrightarrow>
      (req, True) \<in> set (hedge_legs ctx env store2 d t st1 s1) \<Longrightarrow> sends req"
  shows "round_reports ctx env sends sc outcome sc'"
proof (rule evaluate_attempt_eq[of env ctx routing tr st store2 "(store, sc)"])
  fix action effects deferred immediate
  let ?st = "capture_pk_range_id tr st"
  let ?action = "if ors_hedge_already_fired ?st then action
         else maybe_upgrade_to_hedge (pc_endpoint_key ctx) action (pc_operation ctx) (pc_options ctx)
           (ls_account store2) routing (oo_end_to_end_timeout (pc_options ctx))"
  assume ev: "evaluate_transport_result (rnd_random env) (pc_operation ctx) (rd_endpoint routing) tr ?st = (action, effects)"
    and eq: "evaluate_attempt ctx env store2 routing tr st (store, sc) =
      (?action, ?st\<lparr>ors_pending_write_effects := ors_pending_write_effects ?st @ deferred\<rparr>,
       apply_all (rnd_applies env 0) immediate (fst (store, sc)),
       capture_session_token_for_winner (session_consistency_active ctx) (pc_operation ctx) tr (snd (store, sc)))"
  have "answers (pc_operation ctx) tr resp" if "?action = Complete r" "build_cosmos_response r = Inr resp" for r resp
    using that evaluate_Complete ev by (auto simp: upgrade_Complete split: if_splits)
  then show ?thesis
    using assms(3) assms(4)[unfolded eq]
    by (intro act_reports[OF assms(1)[unfolded after_attempt_def eq prod.case], where tr = tr and request = request, OF _ _ assms(2)])
      simp_all
qed

lemma round_reports_ok:
  assumes "pipeline_round ctx env st s = (outcome, s')"
  shows "round_reports ctx env (round_sends ctx env st s) (snd s) outcome (snd s')"
proof -
  obtain store sc store' sc' where s: "s = (store, sc)" "s' = (store', sc')" by (metis surj_pair)
  obtain store1 sc1 where m: "rnd_meanwhile env s = (store1, sc1)" by (metis surj_pair)
  have wf: "fair env \<Longrightarrow> sc_wf sc \<Longrightarrow> sc_wf sc1" using s(1) m unfolding fair_def by (metis snd_conv)
  have after: "round_reports ctx env (round_sends ctx env st s) sc outcome sc'"
    if "resolve_for ctx (rnd_clock env) st store = Some routing" "first_race ctx st (snapshot store) routing = None"
      "send_request ctx env (build_request ctx st routing (snapshot store) sc) = TransportAnswer (Inr tr)"
      "after_attempt ctx env store routing tr st (store1, sc1) = (outcome, store', sc')" for routing tr
  proof -
    have "round_reports ctx env (round_sends ctx env st s) sc1 outcome sc'"
      using that round_sends.plain[of ctx env st s routing] round_sends.hedged[of ctx env st s routing tr] m
      by (intro after_attempt_reports[OF that(4,3)]) (auto simp: s)
    then show ?thesis by (rule round_reports_mono) (use wf in auto)
  qed
  have race: "round_reports ctx env (round_sends ctx env st s) sc outcome sc'"
    if "resolve_for ctx (rnd_clock env) st store = Some routing" "first_race ctx st (snapshot store) routing = Some upgrade"
      "dispatch_race ctx env (snapshot store) routing (hu_secondary_routing upgrade) (hu_threshold upgrade) st (store, sc) =
        (outcome, store', sc')" for routing upgrade
    using dispatch_reports[OF that(3)] by (rule round_reports_mono) (use that(1,2) in \<open>auto simp: s intro: round_sends.first\<close>)
  show ?thesis
    using assms m unfolding s snd_conv
    by (auto simp: pipeline_round_def Let_def round_reports_trivial intro: after[unfolded s] race[unfolded s]
        split: option.splits sum.splits transport_answer.splits)
qed

text \<open>The rounds that lead to a state.\<close>

inductive pipeline_reaches ::
  "pipeline_context \<Rightarrow> operation_retry_state \<Rightarrow> race_state \<Rightarrow> round_env list \<Rightarrow> operation_retry_state \<Rightarrow> race_state \<Rightarrow> bool"
  for ctx where
  start: "pipeline_reaches ctx st s [] st s"
| round: "pipeline_round ctx env st s = (NextAttempt st1, s1) \<Longrightarrow> pipeline_reaches ctx st1 s1 envs st' s' \<Longrightarrow>
    pipeline_reaches ctx st s (env # envs) st' s'"

lemma loop_ends:
  assumes "pipeline_loop ctx envs st s = Returned result s'"
  shows "\<exists>before env after st1 s1. envs = before @ env # after \<and> pipeline_reaches ctx st s before st1 s1 \<and>
    pipeline_round ctx env st1 s1 = (Finished result, s')"
  using assms
proof (induction envs arbitrary: st s)
  case (Cons env envs)
  obtain outcome s1 where r: "pipeline_round ctx env st s = (outcome, s1)" by (metis surj_pair)
  show ?case
  proof (cases outcome)
    case (Finished r)
    with Cons.prems r pipeline_reaches.start[of ctx st s] show ?thesis
      by (intro exI[of _ "[]"] exI[of _ env] exI[of _ envs] exI[of _ st] exI[of _ s]) simp
  next
    case (NextAttempt st1)
    then have "pipeline_loop ctx envs st1 s1 = Returned result s'" using Cons.prems r by simp
    from Cons.IH[OF this] obtain before env' after st2 s2 where "envs = before @ env' # after"
      "pipeline_reaches ctx st1 s1 before st2 s2" "pipeline_round ctx env' st2 s2 = (Finished result, s')" by blast
    then show ?thesis
      using pipeline_reaches.round[OF r[unfolded NextAttempt]]
      by (intro exI[of _ "env # before"] exI[of _ env'] exI[of _ after] exI[of _ st2] exI[of _ s2]) simp
  qed (use Cons.prems r in simp_all)
qed simp

lemma reaches_wf:
  "pipeline_reaches ctx st s envs st' s' \<Longrightarrow> \<forall>env \<in> set envs. fair env \<Longrightarrow> sc_wf (snd s) \<Longrightarrow> sc_wf (snd s')"
  by (induction rule: pipeline_reaches.induct) (auto dest!: round_reports_ok simp: round_reports_def)

text \<open>C5. An operation that returns a response returns one that the service gave. In the last of its rounds it waited
  for a request whose transport pipeline ended with this status, these headers and this body, and one of the
  attempts of that request got this answer. Only the outcome of a distributed transaction may be an
  HTTP error.\<close>

theorem response_is_genuine:
  assumes "execute_operation_pipeline start ctx envs s = Returned (Inr resp) s'"
  shows "\<exists>ctx' before env after st1 s1 request outcome.
    with_deadline start ctx = Some ctx' \<and> envs = before @ env # after \<and>
    pipeline_reaches ctx' (initial_retry_state ctx' (snapshot (fst s))) s before st1 s1 \<and>
    pipeline_round ctx' env st1 s1 = (Finished (Inr resp), s') \<and>
    round_sends ctx' env st1 s1 request \<and> send_request ctx' env request = TransportAnswer (Inr outcome) \<and>
    attempted (rnd_attempts env request) outcome \<and> answers (pc_operation ctx) outcome resp"
proof -
  from assms obtain ctx' where ctx': "with_deadline start ctx = Some ctx'"
      "pipeline_loop ctx' envs (initial_retry_state ctx' (snapshot (fst s))) s = Returned (Inr resp) s'"
    by (auto simp: execute_operation_pipeline_def split: if_splits option.splits)
  have op: "pc_operation ctx' = pc_operation ctx" by (rule with_deadline_Some[OF ctx'(1)]) simp
  from loop_ends[OF ctx'(2)] obtain before env after st1 s1 where r: "envs = before @ env # after"
    "pipeline_reaches ctx' (initial_retry_state ctx' (snapshot (fst s))) s before st1 s1"
    "pipeline_round ctx' env st1 s1 = (Finished (Inr resp), s')" by blast
  from round_reports_ok[OF r(3)] obtain request outcome where sent: "round_sends ctx' env st1 s1 request"
    "send_request ctx' env request = TransportAnswer (Inr outcome)" "answers (pc_operation ctx) outcome resp"
    unfolding round_reports_def op by blast
  moreover from sent(3) have "result_cosmos_headers outcome \<noteq> None" by (auto simp: answers_def)
  then have "attempted (rnd_attempts env request) outcome"
    using sent(2) by (auto simp: send_request_def execute_transport_pipeline_def dest: transport_loop_attempted
        split: option.splits loop_result.splits)
  ultimately show ?thesis using ctx'(1) r by blast
qed

text \<open>The token that a request on a container carries covers what the cache holds.\<close>

lemma composite_covers:
  assumes "sc_wf sc" and "cached sc (cref_container_rid c) pk = Some z"
  shows "\<exists>token segs g. resolve_session_token sc c = Some token \<and> token_segments token = Inr segs \<and> g \<in> set segs \<and>
    seg_pk_range_id g = pk \<and> stv_same (seg_value g) z"
proof -
  obtain m where m: "hm_get (sc_tokens sc) (cref_container_rid c) = Some m" "hm_get m pk = Some z"
    using assms(2) by (auto simp: cached_def split: option.splits)
  then have "m \<noteq> []" by auto
  from composite_token_segments[OF assms(1) m(1) this] obtain token segs where
    t: "build_composite_token sc (cref_container_rid c) = Some token" "token_segments token = Inr segs"
      "map seg_pk_range_id segs = map fst (sort_key fst m)"
      "\<forall>g \<in> set segs. \<exists>v. cached sc (cref_container_rid c) (seg_pk_range_id g) = Some v \<and> stv_same (seg_value g) v"
    by blast
  have "pk \<in> set (map seg_pk_range_id segs)"
    using m(2) by (auto simp: t(3) dest: map_of_SomeD intro: rev_image_eqI)
  then obtain g where "g \<in> set segs" "seg_pk_range_id g = pk" by auto
  with t assms(2) show ?thesis by (fastforce simp: resolve_session_token_def)
qed

text \<open>What later captures of tokens keep: none of them gives the path of the container another resource id.\<close>

fun keeps_container :: "string \<Rightarrow> session_container \<Rightarrow> (container_reference \<times> session_token) list \<Rightarrow> bool" where
  "keeps_container rid sc [] = True"
| "keeps_container rid sc ((d, token) # later) \<longleftrightarrow>
     (hm_get (sc_name_to_rid sc) (name_path d) = Some rid \<longrightarrow> cref_container_rid d = rid) \<and>
     keeps_container rid (set_session_token sc d token) later"

definition captures :: "(container_reference \<times> session_token) list \<Rightarrow> session_container \<Rightarrow> session_container" where
  "captures later sc = fold (\<lambda>(d, token) sc. set_session_token sc d token) later sc"

lemma captures_recent:
  "sc_wf sc \<Longrightarrow> keeps_container rid sc later \<Longrightarrow> cached sc rid pk = Some z \<Longrightarrow> stv_wf z \<Longrightarrow> stv_wf v \<Longrightarrow>
   stv_is_as_recent_as z v \<Longrightarrow>
   sc_wf (captures later sc) \<and> (\<exists>z. cached (captures later sc) rid pk = Some z \<and> stv_is_as_recent_as z v)"
proof (induction later arbitrary: sc z)
  case (Cons x later)
  obtain d token where x: "x = (d, token)" by (cases x)
  let ?sc = "set_session_token sc d token"
  have wf: "sc_wf ?sc" using Cons.prems(1) by (rule set_session_token_wf)
  have "\<exists>y. cached ?sc rid pk = Some y \<and> stv_wf y \<and> stv_is_as_recent_as y v"
  proof (cases "cref_container_rid d = rid")
    case True
    obtain y where "cached ?sc rid pk = Some y" "stv_wf y" "stv_is_as_recent_as y z"
      using set_session_token_recent[OF Cons.prems(1), of pk z token d] Cons.prems(3) True by auto
    then show ?thesis using stv_rec.recent_trans Cons.prems(4-6) by metis
  next
    case False
    then have "cached ?sc rid pk = Some z"
      using Cons.prems(1-3) by (simp add: x set_session_token_eq store_cached)
    then show ?thesis using Cons.prems(4,6) by blast
  qed
  then obtain y where y: "cached ?sc rid pk = Some y" "stv_wf y" "stv_is_as_recent_as y v" by blast
  have "keeps_container rid ?sc later" using Cons.prems(2) x by simp
  from Cons.IH[OF wf this y(1,2) Cons.prems(5) y(3)] show ?case by (simp add: captures_def x)
qed (auto simp: captures_def)

text \<open>A response to an operation on a container leaves the container with a token that covers it.\<close>

lemma response_captured:
  assumes "execute_operation_pipeline start ctx envs s = Returned (Inr resp) s'" and "\<forall>env \<in> set envs. fair env"
    and "sc_wf (snd s)" and "session_consistency_active ctx"
    and "\<not> is_reading_from_master (op_resource_type (pc_operation ctx)) (op_operation_type (pc_operation ctx))"
    and "\<not> is_distributed_transaction_operation (pc_operation ctx)"
    and "op_container (pc_operation ctx) = Some c" and "rh_session_token (cr_headers resp) = Some tok"
  obtains base where "sc_wf base" and "snd s' = set_session_token base c tok"
proof -
  from assms(1) obtain ctx' where ctx': "with_deadline start ctx = Some ctx'"
      "pipeline_loop ctx' envs (initial_retry_state ctx' (snapshot (fst s))) s = Returned (Inr resp) s'"
    by (auto simp: execute_operation_pipeline_def split: if_splits option.splits)
  from with_deadline_Some[OF ctx'(1)] obtain d where d: "ctx' = ctx\<lparr>pc_deadline := d\<rparr>" .
  from loop_ends[OF ctx'(2)] obtain before env after st1 s1 where r: "envs = before @ env # after"
    "pipeline_reaches ctx' (initial_retry_state ctx' (snapshot (fst s))) s before st1 s1"
    "pipeline_round ctx' env st1 s1 = (Finished (Inr resp), s')" by blast
  have "fair env" "sc_wf (snd s1)" using reaches_wf[OF r(2)] assms(2,3) r(1) by auto
  with round_reports_ok[OF r(3)] obtain tr base where tr: "answers (pc_operation ctx') tr resp" "sc_wf base"
      "snd s' = capture_session_token_for_winner (session_consistency_active ctx') (pc_operation ctx') tr base"
    unfolding round_reports_def by blast
  moreover have "snd s' = set_session_token base c tok"
    using tr assms(4-8)
    by (auto simp: d answers_def capture_session_token_for_winner_def should_capture_session_token_from_status_def
        capture_session_token_def)
  ultimately show thesis using that by blast
qed

text \<open>C2. Read your writes, end to end. When an operation under session consistency, neither a distributed transaction
  nor a read of the master partition, returns a response with a session token, then every later
  request on the same container of an operation under session consistency that brings no token of
  its own, sent plainly or as a leg of a race, carries a session token that is at least as recent for each
  partition key range of that response. Other operations may capture any tokens in between, as long as
  the container is not recreated. On Gateway 2.0, when the operation is known to go to that range, it is the
  token of the range; otherwise, and when no range is known, it is a composite token with a
  segment for the range.\<close>

theorem pipeline_read_your_writes:
  assumes "execute_operation_pipeline start ctx envs s = Returned (Inr resp) s'" and "\<forall>env \<in> set envs. fair env"
    and "sc_wf (snd s)" and "session_consistency_active ctx"
    and "\<not> is_reading_from_master (op_resource_type (pc_operation ctx)) (op_operation_type (pc_operation ctx))"
    and "\<not> is_distributed_transaction_operation (pc_operation ctx)"
    and "op_container (pc_operation ctx) = Some c" and "rh_session_token (cr_headers resp) = Some tok"
    and "(pk, v) \<in> set (accepted_segments tok)"
    and "keeps_container (cref_container_rid c) (snd s') later"
    and "session_consistency_active ctx2" and "pc_user_session_token ctx2 = None"
    and "op_container (pc_operation ctx2) = Some c"
    and "rd_transport_mode routing2 = Gateway \<or> ors_partition_key_range_id st2 \<in> {None, Some pk}"
    and "request2 \<in> {build_request ctx2 st2 routing2 location2 (captures later (snd s')),
      perform_single_attempt (attempt_context_of ctx2 st2) (captures later (snd s')) routing2 execution_context latch}"
  shows "\<exists>z. stv_is_as_recent_as z v \<and>
    (if rd_transport_mode routing2 = GatewayV2 \<and> ors_partition_key_range_id st2 = Some pk
     then arq_session_token request2 = Some (range_token pk z)
     else \<exists>token segs g. arq_session_token request2 = Some token \<and> token_segments token = Inr segs \<and>
       g \<in> set segs \<and> seg_pk_range_id g = pk \<and> stv_same (seg_value g) z)"
proof -
  let ?sc = "captures later (snd s')"
  from response_captured[OF assms(1-8)] obtain base where base: "sc_wf base" "snd s' = set_session_token base c tok" .
  obtain z0 where z0: "cached (snd s') (cref_container_rid c) pk = Some z0" "stv_wf z0" "stv_is_as_recent_as z0 v"
    using set_session_token_recent[OF base(1), of pk v tok c] assms(9) base(2) by auto
  have "sc_wf (snd s')" "stv_wf v" using base set_session_token_wf assms(9) accepted_segments_ok[of tok] by auto
  from captures_recent[OF this(1) assms(10) z0(1,2) this(2) z0(3)] obtain z where wf: "sc_wf ?sc"
    and z: "cached ?sc (cref_container_rid c) pk = Some z" "stv_is_as_recent_as z v" by blast
  have "arq_session_token request2 = manager_resolve_session_token ?sc (pc_operation ctx2) None
      (if rd_transport_mode routing2 = GatewayV2 then ors_partition_key_range_id st2 else None)"
    using assms(11,12,15)
    by (auto simp: build_request_def perform_single_attempt_def attempt_context_of_def scoped_session_token_def)
  with composite_covers[OF wf z(1)] resolve_for_range_cached[OF z(1)] z(2) assms(13,14) show ?thesis
    by (intro exI[of _ z]) (auto simp: manager_resolve_session_token_def)
qed

section \<open>Runs on the two-region account\<close>

definition no_options :: operation_options where
  "no_options = \<lparr>oo_max_failover_retry_count = None, oo_max_session_retry_count = None,
     oo_session_capturing_disabled = None, oo_read_consistency_strategy = None, oo_excluded_regions = None,
     oo_end_to_end_timeout = None, oo_max_throttle_retry_count = None, oo_max_throttle_wait_time = None,
     oo_hedging_enabled = Some False, oo_availability_strategy = None\<rparr>"

definition demo_container :: container_reference where
  "demo_container = \<lparr>cref_db_name = ''db'', cref_container_name = ''c'', cref_container_rid = ''rid''\<rparr>"

definition demo_context :: "operation_type \<Rightarrow> operation_options \<Rightarrow> pipeline_context" where
  "demo_context t options = \<lparr>pc_operation = (item_operation t)\<lparr>op_container := Some demo_container\<rparr>,
     pc_user_session_token = None, pc_options = options, pc_is_data_plane = True, pc_account_default_consistency = Session,
     pc_pre_resolved_pk_range_id = None, pc_account_name_present = (\<lambda>_. True), pc_endpoint_key = (\<lambda>u. u),
     pc_deadline = None\<rparr>"

text \<open>Every attempt of every request gets the same answer at once.\<close>

definition answered_attempt :: "transport_outcome \<Rightarrow> attempt_env" where
  "answered_attempt outcome = \<lparr>ae_now = 0, ae_result = Attempted outcome None False, ae_seed = 0, ae_decided_at = 0, ae_woken_at = 0\<rparr>"

definition demo_env :: "transport_outcome \<Rightarrow> timer_event \<Rightarrow> round_env" where
  "demo_env outcome event = \<lparr>rnd_clock = (\<lambda>_. 5), rnd_build_error = (\<lambda>_. None), rnd_attempts = (\<lambda>_. replicate 21 (answered_attempt outcome)),
     rnd_meanwhile = (\<lambda>s. s), rnd_random = 0, rnd_applies = (\<lambda>_ _. quiet_env), rnd_race = forbidden_race\<lparr>rs_stage2 := event\<rparr>,
     rnd_after = 6\<rparr>"

lemma demo_env_fields [simp]:
  "rnd_clock (demo_env outcome event) = (\<lambda>_. 5)" "rnd_meanwhile (demo_env outcome event) = (\<lambda>s. s)"
  "rnd_random (demo_env outcome event) = 0" "rnd_applies (demo_env outcome event) = (\<lambda>_ _. quiet_env)"
  "rnd_race (demo_env outcome event) = forbidden_race\<lparr>rs_stage2 := event\<rparr>" "rnd_after (demo_env outcome event) = 6"
  by (simp_all add: demo_env_def)

lemma demo_send:
  assumes "pc_deadline ctx = None"
    and "\<not> is_transport_throttle_retry_eligible outcome (is_distributed_transaction_operation (pc_operation ctx))"
  shows "send_request ctx (demo_env outcome event) request = TransportAnswer (Inr outcome)"
  using assms
  by (simp add: send_request_def demo_env_def execute_transport_pipeline_def transport_context_of_def numeral_eq_Suc
      transport_round_def answered_attempt_def deadline_passed_def evaluate_transport_retry_def throttle_propagate_def)

lemma list_ex_never [simp]: "\<not> list_ex (\<lambda>(request, _). False) xs"
  by (simp add: list_ex_iff split: prod.split)

definition created :: "session_token \<Rightarrow> cosmos_response" where
  "created token = \<lparr>cr_status = from_parts 201 None, cr_headers = response_headers_default\<lparr>rh_session_token := Some token\<rparr>,
     cr_body = ''{}''\<rparr>"

definition created_env :: "session_token \<Rightarrow> round_env" where
  "created_env token =
     demo_env (TSuccess (cr_status (created token)) (cr_headers (created token)) (cr_body (created token))) ThresholdElapsed"

lemma fair_demo [simp]: "fair (demo_env outcome event)" "fair (created_env token)"
  by (simp_all add: fair_def demo_env_def created_env_def)

lemmas round_eval = pipeline_round_def first_race_def resolve_for_def eligibility_def after_attempt_def evaluate_attempt_def act_def
  build_request_def demo_send is_transport_throttle_retry_eligible_def is_throttled_def
  capture_pk_range_id_def initial_retry_state_def demo_context_def no_options_def routing_defs two_region_defs
  evaluate_hedge_eligibility_def resolve_availability_strategy_def unwrap_or_def

lemma create_run:
  "execute_operation_pipeline 0 (demo_context Create no_options) [created_env token] (two_regions, sc) =
     Returned (Inr (created token)) (two_regions, set_session_token sc demo_container token)"
  by (simp add: round_eval created_env_def created_def execute_operation_pipeline_def with_deadline_def refuses_global_strong_def
      partition_effects_for_deferral_def apply_all_def flush_pending_write_effects_def try_cleanup_probe_candidate_def
      populate_hub_region_def hub_region_cache_populate_target_def maybe_upgrade_to_hedge_def
      capture_session_token_for_winner_def session_consistency_active_def is_session_effective_def is_session_def
      should_capture_session_token_from_status_def capture_session_token_def response_headers_default_def)


theorem deferred_marks_kept_witness:
  "\<exists>st' s'. pipeline_round (demo_context Create no_options)
        (demo_env (HttpError (from_parts 503 None) response_headers_default [] Sent) ThresholdElapsed)
        (write_retry_state [MarkPartitionUnavailable east_mark]) (two_regions, session_container_new) = (NextAttempt st', s') \<and>
     MarkPartitionUnavailable east_mark \<in> set (ors_pending_write_effects st')"
proof -
  let ?env = "demo_env (HttpError (from_parts 503 None) response_headers_default [] Sent) ThresholdElapsed"
  let ?st = "write_retry_state [MarkPartitionUnavailable east_mark]"
  have "\<exists>st' s'. pipeline_round (demo_context Create no_options) ?env ?st (two_regions, session_container_new) = (NextAttempt st', s')"
    by (simp add: round_eval east_mark_def status_defs evaluate_http_outcome_def handler_defs in_trigger_group_def
        from_parts_def enforce_deadline_or_timeout_def maybe_upgrade_to_hedge_def partition_effects_for_deferral_def
        definitely_not_sent_def can_retry_failover_def response_headers_default_def split: prod.split)
  then obtain st' s' where "pipeline_round (demo_context Create no_options) ?env ?st (two_regions, session_container_new) =
      (NextAttempt st', s')" by blast
  with deferred_marks_kept[OF this] show ?thesis by (auto simp: write_retry_state_def)
qed

theorem response_is_genuine_witness:
  "\<exists>ctx' st1 s1 request outcome. with_deadline 0 (demo_context Create no_options) = Some ctx' \<and>
     round_sends ctx' (created_env ''0:1#5'') st1 s1 request \<and>
     send_request ctx' (created_env ''0:1#5'') request = TransportAnswer (Inr outcome) \<and>
     attempted (rnd_attempts (created_env ''0:1#5'') request) outcome \<and>
     answers (pc_operation (demo_context Create no_options)) outcome (created ''0:1#5'')"
  using response_is_genuine[OF create_run, of "''0:1#5''" session_container_new]
  by (simp add: Cons_eq_append_conv) blast

theorem pipeline_read_your_writes_witness:
  "let s' = (two_regions, set_session_token session_container_new demo_container ''0:1#5'')
   in execute_operation_pipeline 0 (demo_context Create no_options) [created_env ''0:1#5''] (two_regions, session_container_new) =
        Returned (Inr (created ''0:1#5'')) s' \<and>
      (\<exists>z token segs g. stv_is_as_recent_as z (Vector \<lparr>vst_version = 1, vst_global_lsn = 5, vst_region_progress = []\<rparr>) \<and>
         arq_session_token (build_request (demo_context Read no_options) (write_retry_state []) (gateway_routing west)
           (snapshot two_regions) (captures [(demo_container, ''0:1#7'')] (snd s'))) = Some token \<and>
         token_segments token = Inr segs \<and> g \<in> set segs \<and> seg_pk_range_id g = ''0'' \<and> stv_same (seg_value g) z)"
proof -
  let ?v = "Vector \<lparr>vst_version = 1, vst_global_lsn = 5, vst_region_progress = []\<rparr>"
  have "(''0'', ?v) \<in> set (accepted_segments ''0:1#5'')" by (simp add: accepted_segments_def token_eval)
  moreover have "session_consistency_active (demo_context t no_options)" "pc_user_session_token (demo_context t no_options) = None"
    "op_container (pc_operation (demo_context t no_options)) = Some demo_container"
    "\<not> is_distributed_transaction_operation (pc_operation (demo_context t no_options))"
    "\<not> is_reading_from_master (op_resource_type (pc_operation (demo_context t no_options)))
      (op_operation_type (pc_operation (demo_context t no_options)))" for t
    by (simp_all add: demo_context_def item_operation_def no_options_def session_consistency_active_def is_session_effective_def
        is_session_def unwrap_or_def is_distributed_transaction_operation_def)
  moreover have "rh_session_token (cr_headers (created ''0:1#5'')) = Some ''0:1#5''" "rd_transport_mode (gateway_routing west) = Gateway"
    by (simp_all add: created_def gateway_routing_def)
  moreover have "keeps_container (cref_container_rid demo_container) sc [(demo_container, ''0:1#7'')]" for sc
    by simp
  ultimately show ?thesis
    using pipeline_read_your_writes[OF create_run[of "''0:1#5''" session_container_new], where c = demo_container and
        tok = "''0:1#5''" and pk = "''0''" and v = ?v and ?ctx2.0 = "demo_context Read no_options" and
        ?st2.0 = "write_retry_state []" and ?routing2.0 = "gateway_routing west" and ?location2.0 = "snapshot two_regions" and
        later = "[(demo_container, ''0:1#7'')]", OF _ _ _ _ _ _ _ _ _ _ _ _ _ insertI1]
    by (simp add: create_run sc_wf_new)
qed

lemmas race_eval = round_eval hedge_eval dispatch_race_def race_schedule_of_def execute_hedged_def race_from_first_def leg_wins_def
  finalize_both_transient_def try_advance_after_both_transient_def propagate_hedge_session_unavailable_def
  apply_hedge_leg_effects_def enforce_deadline_or_timeout_def forbidden_race_def attempt_context_of_def
  saturating_add_word_def route_reads_to_write_endpoints_def TIME_DURATION_MAX_def from_secs_def

theorem one_race_per_operation_witness:
  "\<exists>st' s'. pipeline_round (demo_context Read hedging_options) (demo_env (DeadlineExceeded Sent) ThresholdElapsed)
        (retry_state_initial 0 False [] 3 2) (two_regions, session_container_new) = (NextAttempt st', s') \<and>
     pipeline_loop (demo_context Read hedging_options)
       (map (\<lambda>env. env\<lparr>rnd_race := forbidden_race\<rparr>) [demo_env (DeadlineExceeded Sent) DeadlineFired]) st' s' =
     pipeline_loop (demo_context Read hedging_options) [demo_env (DeadlineExceeded Sent) DeadlineFired] st' s'"
proof -
  let ?run = "\<lambda>event. pipeline_round (demo_context Read hedging_options) (demo_env (DeadlineExceeded Sent) event)
        (retry_state_initial 0 False [] 3 2) (two_regions, session_container_new)"
  have "\<exists>st' s'. ?run ThresholdElapsed = (NextAttempt st', s')"
    by (simp add: race_eval)
  then obtain st' s' where go: "?run ThresholdElapsed = (NextAttempt st', s')" by blast
  have "?run DeadlineFired \<noteq> (NextAttempt st', s')" by (simp add: race_eval)
  then have "pipeline_round (demo_context Read hedging_options)
      ((demo_env (DeadlineExceeded Sent) ThresholdElapsed)\<lparr>rnd_race := forbidden_race\<lparr>rs_stage2 := DeadlineFired\<rparr>\<rparr>)
      (retry_state_initial 0 False [] 3 2) (two_regions, session_container_new) \<noteq> (NextAttempt st', s')"
    by (simp add: demo_env_def)
  from one_race_per_operation[OF go this, of "\<lambda>_. forbidden_race" "[demo_env (DeadlineExceeded Sent) DeadlineFired]"] go
  show ?thesis by blast
qed

end
