(* ===== verification/Murmur_Hash.thy ===== *)
theory Murmur_Hash
  imports Prelude
begin

unbundle bit_operations_syntax

text \<open>
  MurmurHash3, \<^verbatim>\<open>models/murmur_hash.rs\<close>, on machine words: the 128-bit x64 variant that V2 partition
  keys use and the 32-bit variant of V1. Additions and multiplications wrap as in the source.
\<close>

type_synonym u128 = "128 word"

text \<open>\<^verbatim>\<open>from_le_bytes\<close> and \<^verbatim>\<open>to_le_bytes\<close>.\<close>

fun le_word :: "u8 list \<Rightarrow> 'a::len word" where
  "le_word [] = 0"
| "le_word (b # bs) = push_bit 8 (le_word bs) OR ucast b"

fun le_bytes :: "nat \<Rightarrow> 'a::len word \<Rightarrow> u8 list" where
  "le_bytes 0 w = []"
| "le_bytes (Suc n) w = ucast w # le_bytes n (drop_bit 8 w)"

lemma length_le_bytes [simp]: "length (le_bytes n w) = n"
  by (induction n arbitrary: w) simp_all

section \<open>The 128-bit hash\<close>

definition low64 :: "u128 \<Rightarrow> u64" where
  "low64 v = ucast v"

definition high64 :: "u128 \<Rightarrow> u64" where
  "high64 v = ucast (drop_bit 64 v)"

definition mix :: "u64 \<Rightarrow> u64" where
  "mix value =
     (let value = value XOR drop_bit 33 value;
          value = value * 0xff51afd7ed558ccd;
          value = value XOR drop_bit 33 value;
          value = value * 0xc4ceb9fe1a85ec53
      in value XOR drop_bit 33 value)"

abbreviation m128_c1 :: u64 where "m128_c1 \<equiv> 0x87c37b91114253d5"
abbreviation m128_c2 :: u64 where "m128_c2 \<equiv> 0x4cf5ad432745937f"

definition scramble_k1 :: "u64 \<Rightarrow> u64" where
  "scramble_k1 k1 = word_rotl 31 (k1 * m128_c1) * m128_c2"

definition scramble_k2 :: "u64 \<Rightarrow> u64" where
  "scramble_k2 k2 = word_rotl 33 (k2 * m128_c2) * m128_c1"

function murmur128_blocks :: "u8 list \<Rightarrow> u64 \<Rightarrow> u64 \<Rightarrow> u64 \<times> u64 \<times> u8 list" where
  "murmur128_blocks span h1 h2 =
     (if 16 \<le> length span then
        let k1 = le_word (take 8 span);
            k2 = le_word (take 8 (drop 8 span));
            h1 = h1 XOR scramble_k1 k1;
            h1 = word_rotl 27 h1;
            h1 = h1 + h2;
            h1 = h1 * 5 + 0x52dce729;
            h2 = h2 XOR scramble_k2 k2;
            h2 = word_rotl 31 h2;
            h2 = h2 + h1;
            h2 = h2 * 5 + 0x38495ab5
        in murmur128_blocks (drop 16 span) h1 h2
      else (h1, h2, span))"
  by pat_completeness auto
termination
  by (relation "measure (\<lambda>(span, _, _). length span)") auto

definition tail_byte :: "u8 list \<Rightarrow> nat \<Rightarrow> nat \<Rightarrow> 'a::len word" where
  "tail_byte rest i shift = (if length rest \<ge> i + 1 then push_bit shift (ucast (rest ! i)) else 0)"

definition murmurhash3_128 :: "u8 list \<Rightarrow> u128 \<Rightarrow> u128" where
  "murmurhash3_128 span seed =
     (let (h1, h2, rest) = murmur128_blocks span (low64 seed) (high64 seed);
          k2 = tail_byte rest 14 48 XOR tail_byte rest 13 40 XOR tail_byte rest 12 32 XOR
               tail_byte rest 11 24 XOR tail_byte rest 10 16 XOR tail_byte rest 9 8 XOR
               tail_byte rest 8 0;
          h2 = (if k2 \<noteq> 0 then h2 XOR scramble_k2 k2 else h2);
          k1 = tail_byte rest 7 56 XOR tail_byte rest 6 48 XOR tail_byte rest 5 40 XOR
               tail_byte rest 4 32 XOR tail_byte rest 3 24 XOR tail_byte rest 2 16 XOR
               tail_byte rest 1 8 XOR tail_byte rest 0 0;
          h1 = (if length rest \<ge> 1 then h1 XOR scramble_k1 k1 else h1);
          h1 = h1 XOR of_nat (length span);
          h2 = h2 XOR of_nat (length span);
          h1 = h1 + h2;
          h2 = h2 + h1;
          h1 = mix h1;
          h2 = mix h2;
          h1 = h1 + h2;
          h2 = h2 + h1
      in push_bit 64 (ucast h2) OR ucast h1)"

section \<open>The 32-bit hash\<close>

definition murmur32_scramble :: "u32 \<Rightarrow> u32" where
  "murmur32_scramble k1 = word_rotl 15 (k1 * 0xcc9e2d51) * 0x1b873593"

fun murmur32_blocks :: "u8 list \<Rightarrow> u32 \<Rightarrow> u32" where
  "murmur32_blocks (b0 # b1 # b2 # b3 # rest) h1 =
     (let k1 = ucast b0 OR push_bit 8 (ucast b1) OR push_bit 16 (ucast b2) OR push_bit 24 (ucast b3);
          h1 = h1 XOR murmur32_scramble k1;
          h1 = word_rotl 13 h1;
          h1 = h1 * 5 + 0xe6546b64
      in murmur32_blocks rest h1)"
| "murmur32_blocks _ h1 = h1"

definition murmurhash3_32 :: "u8 list \<Rightarrow> u32 \<Rightarrow> u32" where
  "murmurhash3_32 data seed =
     (let len = (of_nat (length data) :: u32);
          rounded_end = unat (len AND 0xfffffffc);
          h1 = murmur32_blocks (take rounded_end data) seed;
          tail_len = unat (len AND 3);
          rest = take tail_len (drop rounded_end data);
          k1_tail = tail_byte rest 2 16 XOR tail_byte rest 1 8 XOR tail_byte rest 0 0;
          h1 = (if tail_len \<ge> 1 then h1 XOR murmur32_scramble k1_tail else h1);
          h1 = h1 XOR len;
          h1 = h1 XOR drop_bit 16 h1;
          h1 = h1 * 0x85ebca6b;
          h1 = h1 XOR drop_bit 13 h1;
          h1 = h1 * 0xc2b2ae35
      in h1 XOR drop_bit 16 h1)"

section \<open>Facts\<close>

declare murmur128_blocks.simps [simp del]

lemma murmur128_blocks_rest:
  "\<exists>h1' h2' rest. murmur128_blocks span h1 h2 = (h1', h2', rest) \<and> length rest = length span mod 16"
proof (induction span h1 h2 rule: murmur128_blocks.induct)
  case (1 span h1 h2)
  show ?case
  proof (cases "16 \<le> length span")
    case True
    then have "length (drop 16 span) mod 16 = length span mod 16"
      by (simp add: le_mod_geq)
    with 1 True show ?thesis
      by (subst murmur128_blocks.simps) (simp add: Let_def)
  next
    case False
    then show ?thesis by (subst murmur128_blocks.simps) simp
  qed
qed

text \<open>A vector of the test suite.\<close>

lemma murmurhash3_32_hello: "murmurhash3_32 (map of_char ''hello'') 0 = 613153351"
  by code_simp

text \<open>Both halves of the finaliser are invertible: an xor-shift by more than half the width undoes
  itself, and the multipliers are odd.\<close>

lemma xorshift_involution: "(v XOR drop_bit 33 v) XOR drop_bit 33 (v XOR drop_bit 33 v) = (v :: u64)"
proof (rule bit_eqI)
  fix n
  have "\<not> bit v (33 + (33 + n))"
    using bit_imp_le_length [of v "33 + (33 + n)"] by auto
  then show "bit ((v XOR drop_bit 33 v) XOR drop_bit 33 (v XOR drop_bit 33 v)) n = bit v n"
    by (simp add: bit_xor_iff bit_drop_bit_eq) blast
qed

lemma xorshift_inj: "v XOR drop_bit 33 v = w XOR drop_bit 33 w \<Longrightarrow> v = (w :: u64)"
  using xorshift_involution [of v] xorshift_involution [of w] by simp

lemma mult_inj:
  assumes "c * d = (1 :: u64)" "v * c = w * c"
  shows "v = w"
proof -
  have "v * (c * d) = w * (c * d)" using assms(2) by (metis mult.assoc)
  then show ?thesis by (simp add: assms(1))
qed

lemma mix_inj: "mix v = mix w \<Longrightarrow> v = w"
proof -
  assume eq: "mix v = mix w"
  have c1: "(0xff51afd7ed558ccd :: u64) * 0x4f74430c22a54005 = 1" by simp
  have c2: "(0xc4ceb9fe1a85ec53 :: u64) * 0x9cb4b2f8129337db = 1" by simp
  let ?s = "\<lambda>v :: u64. v XOR drop_bit 33 v"
  have "?s (?s (?s v * 0xff51afd7ed558ccd) * 0xc4ceb9fe1a85ec53) =
      ?s (?s (?s w * 0xff51afd7ed558ccd) * 0xc4ceb9fe1a85ec53)"
    using eq by (simp only: mix_def Let_def)
  then have "?s (?s v * 0xff51afd7ed558ccd) * 0xc4ceb9fe1a85ec53 =
      ?s (?s w * 0xff51afd7ed558ccd) * 0xc4ceb9fe1a85ec53"
    by (rule xorshift_inj)
  then have "?s (?s v * 0xff51afd7ed558ccd) = ?s (?s w * 0xff51afd7ed558ccd)"
    by (rule mult_inj [OF c2])
  then have "?s v * 0xff51afd7ed558ccd = ?s w * 0xff51afd7ed558ccd"
    by (rule xorshift_inj)
  then have "?s v = ?s w"
    by (rule mult_inj [OF c1])
  then show "v = w"
    by (rule xorshift_inj)
qed

end
