(* ===== verification/Partition_Key.thy ===== *)
theory Partition_Key
  imports Murmur_Hash
begin

unbundle bit_operations_syntax

text \<open>
  Partition key values and their byte encodings, \<^verbatim>\<open>models/partition_key.rs\<close>, and partition key
  definitions, \<^verbatim>\<open>models/mod.rs\<close>. A string is its UTF-8 bytes and a number the bit pattern of its
  IEEE double, which is what the encodings read. Slicing a string inside a character panics, which
  is the result \<^term>\<open>None\<close>.
\<close>

section \<open>Values\<close>

datatype partition_key_value =
    PkNull | PkString "u8 list" | PkNumber u64 | PkBool bool | PkUndefined | PkInfinity

datatype partition_key_kind = KHash | KMultiHash | KRange

datatype partition_key_version = V1 | V2

record partition_key_definition =
  pkd_paths :: "string list"
  pkd_kind :: partition_key_kind
  pkd_version :: partition_key_version

abbreviation max_string_bytes_to_append :: nat where
  "max_string_bytes_to_append \<equiv> 100"

definition is_infinity :: "partition_key_value \<Rightarrow> bool" where
  "is_infinity v \<longleftrightarrow> v = PkInfinity"

section \<open>Definitions\<close>

fun pk_version_value :: "partition_key_version \<Rightarrow> u32" where
  "pk_version_value V1 = 1"
| "pk_version_value V2 = 2"

definition pk_version_try_from :: "u32 \<Rightarrow> partition_key_version option" where
  "pk_version_try_from value = (if value = 1 then Some V1 else if value = 2 then Some V2 else None)"

definition default_pk_version :: partition_key_version where
  "default_pk_version = V1"

text \<open>\<^verbatim>\<open>PartitionKeyDefinition::deserialize\<close> after the field-by-field step; \<^verbatim>\<open>None\<close> for the version
  is a missing field, and the result \<^term>\<open>None\<close> is the MultiHash error.\<close>

definition pk_definition_from_wire ::
  "string list \<Rightarrow> partition_key_kind \<Rightarrow> partition_key_version option \<Rightarrow> partition_key_definition option" where
  "pk_definition_from_wire paths kind version =
     (case version of
        None \<Rightarrow> Some \<lparr>pkd_paths = paths, pkd_kind = KHash, pkd_version = default_pk_version\<rparr>
      | Some v \<Rightarrow>
          if kind = KMultiHash \<and> v \<noteq> V2 then None
          else Some \<lparr>pkd_paths = paths, pkd_kind = kind, pkd_version = v\<rparr>)"

definition pk_definition_new :: "string list \<Rightarrow> partition_key_definition" where
  "pk_definition_new paths =
     (let kind = (if length paths > 1 then KMultiHash else KHash)
      in \<lparr>pkd_paths = paths, pkd_kind = kind, pkd_version = V2\<rparr>)"

definition pk_is_complete :: "partition_key_definition \<Rightarrow> partition_key_value list \<Rightarrow> bool" where
  "pk_is_complete self pk \<longleftrightarrow> length pk = length (pkd_paths self)"

section \<open>Hashing encodings\<close>

fun write_for_hashing_core :: "partition_key_value \<Rightarrow> u8 \<Rightarrow> bool \<Rightarrow> u8 list" where
  "write_for_hashing_core (PkBool b) string_suffix trunc = [if b then 0x03 else 0x02]"
| "write_for_hashing_core PkNull string_suffix trunc = [0x01]"
| "write_for_hashing_core (PkNumber n) string_suffix trunc = 0x05 # le_bytes 8 n"
| "write_for_hashing_core (PkString bytes) string_suffix trunc =
     0x08 # (if trunc \<and> length bytes > max_string_bytes_to_append
             then take max_string_bytes_to_append bytes else bytes) @ [string_suffix]"
| "write_for_hashing_core PkInfinity string_suffix trunc = [0xFF]"
| "write_for_hashing_core PkUndefined string_suffix trunc = [0x00]"

definition write_for_hashing_v2 :: "partition_key_value \<Rightarrow> u8 list" where
  "write_for_hashing_v2 v = write_for_hashing_core v 0xFF False"

definition write_for_hashing_v1 :: "partition_key_value \<Rightarrow> u8 list" where
  "write_for_hashing_v1 v = write_for_hashing_core v 0x00 True"

definition encode_double_as_uint64 :: "u64 \<Rightarrow> u64" where
  "encode_double_as_uint64 value_in_uint64 =
     (let mask = 0x8000000000000000 in
      if value_in_uint64 < mask then value_in_uint64 XOR mask else NOT value_in_uint64 + 1)"

text \<open>The loop of \<^verbatim>\<open>write_number_v1_binary\<close>. The payload is shifted left by seven bits per round, so
  after eight rounds from a payload that was already shifted by eight bits it is zero: eight rounds
  of fuel are enough, which \<^verbatim>\<open>number_loop_fuel\<close> proves.\<close>

fun write_number_loop :: "nat \<Rightarrow> u64 \<Rightarrow> bool \<Rightarrow> u8 \<Rightarrow> u8 list \<times> u8" where
  "write_number_loop 0 payload first byte_to_write = ([], byte_to_write)"
| "write_number_loop (Suc fuel) payload first byte_to_write =
     (if payload \<noteq> 0 then
        let (out, last_byte) =
              write_number_loop fuel (push_bit 7 payload) False (ucast (drop_bit 56 payload) OR 1)
        in (if \<not> first then byte_to_write # out else out, last_byte)
      else ([], byte_to_write))"

definition write_number_v1_binary :: "u64 \<Rightarrow> u8 list" where
  "write_number_v1_binary value =
     (let payload = encode_double_as_uint64 value;
          (out, byte_to_write) = write_number_loop 8 (push_bit 8 payload) True 0
      in [0x05, ucast (drop_bit 56 payload)] @ out @ [byte_to_write AND 0xFE])"

fun write_for_binary_encoding_v1 :: "partition_key_value \<Rightarrow> u8 list" where
  "write_for_binary_encoding_v1 (PkBool b) = [if b then 0x03 else 0x02]"
| "write_for_binary_encoding_v1 PkInfinity = [0xFF]"
| "write_for_binary_encoding_v1 (PkNumber n) = write_number_v1_binary n"
| "write_for_binary_encoding_v1 (PkString utf8) =
     (let short = (length utf8 \<le> max_string_bytes_to_append);
          write_len = (if short then length utf8
                       else min (length utf8) (max_string_bytes_to_append + 1))
      in 0x08 # map (\<lambda>item. item + 1) (take write_len utf8) @ (if short then [0x00] else []))"
| "write_for_binary_encoding_v1 PkNull = [0x01]"
| "write_for_binary_encoding_v1 PkUndefined = [0x00]"

text \<open>\<^verbatim>\<open>str::is_char_boundary\<close>: a position at an end, or before a byte that is not a UTF-8
  continuation byte. Slicing elsewhere panics.\<close>

definition is_char_boundary :: "u8 list \<Rightarrow> nat \<Rightarrow> bool" where
  "is_char_boundary bytes i \<longleftrightarrow>
     i = 0 \<or> i = length bytes \<or> (i < length bytes \<and> (bytes ! i) AND 0xC0 \<noteq> 0x80)"

definition str_prefix :: "u8 list \<Rightarrow> nat \<Rightarrow> u8 list option" where
  "str_prefix bytes i = (if is_char_boundary bytes i then Some (take i bytes) else None)"

fun truncated_for_v1_encoding :: "partition_key_value \<Rightarrow> partition_key_value option" where
  "truncated_for_v1_encoding (PkString s) =
     (if length s > max_string_bytes_to_append
      then map_option PkString (str_prefix s max_string_bytes_to_append)
      else Some (PkString s))"
| "truncated_for_v1_encoding v = Some v"

section \<open>Facts\<close>

lemma pk_version_round_trip: "pk_version_try_from (pk_version_value v) = Some v"
  by (cases v) (simp_all add: pk_version_try_from_def)

lemma number_loop_zero: "write_number_loop fuel 0 first b = ([], b)"
  by (cases fuel) simp_all

lemma push_bit_out: "64 \<le> n \<Longrightarrow> push_bit n (w :: u64) = 0"
  by (simp add: bit_eq_iff bit_push_bit_iff)

lemma number_loop_fuel:
  "64 \<le> k + 7 * fuel \<Longrightarrow>
   write_number_loop (fuel + extra) (push_bit k p) first b = write_number_loop fuel (push_bit k p) first b"
proof (induction fuel arbitrary: k first b)
  case 0
  then show ?case by (simp add: push_bit_out number_loop_zero)
next
  case (Suc fuel)
  have "push_bit 7 (push_bit k p) = push_bit (k + 7) p" by (simp add: push_bit_push_bit add.commute)
  then show ?case using Suc by simp
qed

lemma number_loop_enough:
  "write_number_loop (8 + extra) (push_bit 8 p) first b = write_number_loop 8 (push_bit 8 p) first b"
  by (rule number_loop_fuel) simp

lemma truncated_panics_iff:
  "truncated_for_v1_encoding v = None \<longleftrightarrow>
     (\<exists>s. v = PkString s \<and> 100 < length s \<and> (s ! 100) AND 0xC0 = 0x80)"
  by (cases v) (auto simp: str_prefix_def is_char_boundary_def)

end
