(* ===== verification/Rust_Slice.thy ===== *)
theory Rust_Slice
  imports Prelude "HOL-Library.Multiset"
begin

text \<open>
  Sorting and searching as the standard library's slices do it: the stable \<^verbatim>\<open>sort_by\<close>, the halving
  loop of \<^verbatim>\<open>binary_search_by\<close> and \<^verbatim>\<open>partition_point\<close>, with what they return on ordered input. The
  comparison is a function into \<^verbatim>\<open>Ordering\<close>; the laws it must satisfy are the locale \<^verbatim>\<open>cmp_preorder\<close>.
\<close>

datatype ordering = Less | Equal | Greater

fun ordering_then :: "ordering \<Rightarrow> ordering \<Rightarrow> ordering" where
  "ordering_then Equal b = b"
| "ordering_then a b = a"

section \<open>Sorting\<close>

text \<open>A stable sort is determined by its result, so the insertion sort below stands for the merge
  sort of the library.\<close>

fun insert_by :: "('a \<Rightarrow> 'a \<Rightarrow> ordering) \<Rightarrow> 'a \<Rightarrow> 'a list \<Rightarrow> 'a list" where
  "insert_by cmp x [] = [x]"
| "insert_by cmp x (y # ys) = (if cmp x y \<noteq> Greater then x # y # ys else y # insert_by cmp x ys)"

definition sort_by :: "('a \<Rightarrow> 'a \<Rightarrow> ordering) \<Rightarrow> 'a list \<Rightarrow> 'a list" where
  "sort_by cmp xs = foldr (insert_by cmp) xs []"

lemma mset_insert_by [simp]: "mset (insert_by cmp x xs) = add_mset x (mset xs)"
  by (induction xs) auto

lemma mset_sort_by [simp]: "mset (sort_by cmp xs) = mset xs"
  unfolding sort_by_def by (induction xs) simp_all

lemma set_sort_by [simp]: "set (sort_by cmp xs) = set xs"
  using mset_sort_by by (metis set_mset_mset)

lemma length_sort_by [simp]: "length (sort_by cmp xs) = length xs"
  using mset_sort_by by (metis size_mset)

lemma sort_by_Nil_iff [simp]: "sort_by cmp xs = [] \<longleftrightarrow> xs = []"
  by (metis length_0_conv length_sort_by)

section \<open>Searching\<close>

function binary_search_loop :: "('a \<Rightarrow> ordering) \<Rightarrow> 'a list \<Rightarrow> nat \<Rightarrow> nat \<Rightarrow> nat" where
  "binary_search_loop f xs base sz =
     (if sz > 1 then
        let half = sz div 2;
            mid = base + half;
            base' = (if f (xs ! mid) = Greater then base else mid)
        in binary_search_loop f xs base' (sz - half)
      else base)"
  by pat_completeness auto
termination
  by (relation "measure (\<lambda>(_, _, _, sz). sz)") auto

declare binary_search_loop.simps [simp del]

text \<open>\<^verbatim>\<open>Ok(i)\<close> is \<^term>\<open>Inr i\<close> and \<^verbatim>\<open>Err(i)\<close> is \<^term>\<open>Inl i\<close>.\<close>

definition binary_search_by :: "('a \<Rightarrow> ordering) \<Rightarrow> 'a list \<Rightarrow> nat + nat" where
  "binary_search_by f xs =
     (if xs = [] then Inl 0
      else let base = binary_search_loop f xs 0 (length xs) in
        if f (xs ! base) = Equal then Inr base
        else Inl (base + (if f (xs ! base) = Less then 1 else 0)))"

definition partition_point :: "('a \<Rightarrow> bool) \<Rightarrow> 'a list \<Rightarrow> nat" where
  "partition_point p xs =
     (case binary_search_by (\<lambda>x. if p x then Less else Greater) xs of Inr i \<Rightarrow> i | Inl i \<Rightarrow> i)"

text \<open>The input is ordered for the probe: first the elements that compare \<^const>\<open>Less\<close>, then those
  that compare \<^const>\<open>Equal\<close>, then those that compare \<^const>\<open>Greater\<close>.\<close>

definition probe_ordered :: "('a \<Rightarrow> ordering) \<Rightarrow> 'a list \<Rightarrow> bool" where
  "probe_ordered f xs \<longleftrightarrow>
     (\<forall>i j. i \<le> j \<and> j < length xs \<longrightarrow>
        (f (xs ! j) = Less \<longrightarrow> f (xs ! i) = Less) \<and> (f (xs ! i) = Greater \<longrightarrow> f (xs ! j) = Greater))"

lemma binary_search_loop_inv:
  assumes "probe_ordered f xs"
  shows "0 < sz \<Longrightarrow> base + sz \<le> length xs \<Longrightarrow> (base = 0 \<or> f (xs ! base) \<noteq> Greater) \<Longrightarrow>
    (\<forall>j. base + sz \<le> j \<and> j < length xs \<longrightarrow> f (xs ! j) = Greater) \<Longrightarrow>
    (let b = binary_search_loop f xs base sz in
      b < length xs \<and> (b = 0 \<or> f (xs ! b) \<noteq> Greater) \<and>
      (\<forall>j. b + 1 \<le> j \<and> j < length xs \<longrightarrow> f (xs ! j) = Greater))"
proof (induction sz arbitrary: base rule: less_induct)
  case (less sz)
  show ?case
  proof (cases "sz > 1")
    case False
    with less.prems have "sz = 1" by simp
    with less.prems show ?thesis by (subst binary_search_loop.simps) (auto simp: Let_def)
  next
    case True
    let ?half = "sz div 2"
    let ?mid = "base + ?half"
    have h: "0 < ?half" "?half < sz" "0 < sz - ?half" "sz - ?half < sz"
      using True by auto
    have mid: "?mid < length xs" using less.prems h by linarith
    show ?thesis
    proof (cases "f (xs ! ?mid) = Greater")
      case True
      have "\<forall>j. base + (sz - ?half) \<le> j \<and> j < length xs \<longrightarrow> f (xs ! j) = Greater"
      proof (intro allI impI)
        fix j
        assume j: "base + (sz - ?half) \<le> j \<and> j < length xs"
        moreover have "?half \<le> sz - ?half" by linarith
        ultimately have "?mid \<le> j" by linarith
        with assms True j show "f (xs ! j) = Greater" unfolding probe_ordered_def by blast
      qed
      note above = this
      have eq: "binary_search_loop f xs base sz = binary_search_loop f xs base (sz - ?half)"
        using \<open>sz > 1\<close> True by (subst binary_search_loop.simps) (simp add: Let_def)
      show ?thesis unfolding eq
        by (rule less.IH [OF h(4) h(3) _ less.prems(3) above]) (use less.prems(2) in simp)
    next
      case False
      have eq: "binary_search_loop f xs base sz = binary_search_loop f xs ?mid (sz - ?half)"
        using \<open>sz > 1\<close> False by (subst binary_search_loop.simps) (simp add: Let_def)
      have sum: "?mid + (sz - ?half) = base + sz" by simp
      show ?thesis unfolding eq
        by (rule less.IH [OF h(4) h(3)]) (use less.prems False in \<open>simp_all only: sum\<close>, simp)
    qed
  qed
qed

lemma binary_search_loop_top:
  assumes "probe_ordered f xs" "xs \<noteq> []"
  shows "binary_search_loop f xs 0 (length xs) < length xs"
    "binary_search_loop f xs 0 (length xs) = 0 \<or>
       f (xs ! binary_search_loop f xs 0 (length xs)) \<noteq> Greater"
    "\<forall>j. binary_search_loop f xs 0 (length xs) + 1 \<le> j \<and> j < length xs \<longrightarrow> f (xs ! j) = Greater"
proof -
  have "\<forall>j. 0 + length xs \<le> j \<and> j < length xs \<longrightarrow> f (xs ! j) = Greater" by auto
  note inv = binary_search_loop_inv [OF assms(1) _ _ _ this]
  have "let b = binary_search_loop f xs 0 (length xs) in
      b < length xs \<and> (b = 0 \<or> f (xs ! b) \<noteq> Greater) \<and>
      (\<forall>j. b + 1 \<le> j \<and> j < length xs \<longrightarrow> f (xs ! j) = Greater)"
    by (rule inv) (use assms(2) in simp_all)
  then show "binary_search_loop f xs 0 (length xs) < length xs"
    "binary_search_loop f xs 0 (length xs) = 0 \<or>
       f (xs ! binary_search_loop f xs 0 (length xs)) \<noteq> Greater"
    "\<forall>j. binary_search_loop f xs 0 (length xs) + 1 \<le> j \<and> j < length xs \<longrightarrow> f (xs ! j) = Greater"
    unfolding Let_def by blast+
qed

lemma binary_search_by_Inr:
  assumes "binary_search_by f xs = Inr i" "probe_ordered f xs"
  shows "i < length xs \<and> f (xs ! i) = Equal"
  using assms binary_search_loop_top(1) [OF assms(2)]
  by (auto simp: binary_search_by_def Let_def split: if_splits)

lemma binary_search_by_rightmost:
  assumes "binary_search_by f xs = Inr i" "probe_ordered f xs" "i < j" "j < length xs"
  shows "f (xs ! j) = Greater"
  using assms binary_search_loop_top(3) [OF assms(2)]
  by (auto simp: binary_search_by_def Let_def split: if_splits)

lemma binary_search_by_Inl:
  assumes s: "binary_search_by f xs = Inl i" and o: "probe_ordered f xs"
  shows "i \<le> length xs \<and> (\<forall>j < i. f (xs ! j) = Less) \<and> (\<forall>j. i \<le> j \<and> j < length xs \<longrightarrow> f (xs ! j) = Greater)"
proof (cases "xs = []")
  case True
  then show ?thesis using s by (simp add: binary_search_by_def)
next
  case False
  define b where "b = binary_search_loop f xs 0 (length xs)"
  note top = binary_search_loop_top [OF o False, folded b_def]
  have i: "f (xs ! b) \<noteq> Equal" "i = b + (if f (xs ! b) = Less then 1 else 0)"
    using s False by (auto simp: binary_search_by_def Let_def b_def [symmetric] split: if_splits)
  show ?thesis
  proof (cases "f (xs ! b)")
    case Less
    have "f (xs ! j) = Less" if "j < b + 1" for j
      using that o top(1) Less unfolding probe_ordered_def by (metis Suc_eq_plus1 less_Suc_eq_le)
    then show ?thesis using i Less top by simp
  next
    case Greater
    then have b: "b = 0" "i = 0" using i top(2) by auto
    have "f (xs ! j) = Greater" if "j < length xs" for j
      using that o b Greater unfolding probe_ordered_def by blast
    then show ?thesis using b by simp
  qed (use i in simp)
qed

lemma partition_point_spec:
  assumes "\<forall>i j. i \<le> j \<and> j < length xs \<and> p (xs ! j) \<longrightarrow> p (xs ! i)"
  shows "partition_point p xs \<le> length xs \<and> (\<forall>j < partition_point p xs. p (xs ! j)) \<and>
    (\<forall>j. partition_point p xs \<le> j \<and> j < length xs \<longrightarrow> \<not> p (xs ! j))"
proof -
  let ?f = "\<lambda>x. if p x then Less else Greater"
  have o: "probe_ordered ?f xs" using assms by (auto simp: probe_ordered_def)
  have "binary_search_by ?f xs \<noteq> Inr i" for i
    using binary_search_by_Inr [OF _ o, of i] by (auto split: if_splits)
  then obtain i where i: "binary_search_by ?f xs = Inl i"
    by (cases "binary_search_by ?f xs") auto
  have spec: "i \<le> length xs" "\<And>j. j < i \<Longrightarrow> ?f (xs ! j) = Less"
    "\<And>j. i \<le> j \<Longrightarrow> j < length xs \<Longrightarrow> ?f (xs ! j) = Greater"
    using binary_search_by_Inl [OF i o] by auto
  have "p (xs ! j)" if "j < i" for j using spec(2) [OF that] by (simp split: if_splits)
  moreover have "\<not> p (xs ! j)" if "i \<le> j" "j < length xs" for j
    using spec(3) [OF that] by (simp split: if_splits)
  moreover have "partition_point p xs = i" using i by (simp add: partition_point_def)
  ultimately show ?thesis using spec(1) by simp
qed

lemma filter_slice:
  assumes "\<And>j. j < length xs \<Longrightarrow> P (xs ! j) \<longleftrightarrow> s \<le> j \<and> j < e"
  shows "filter P xs = take (e - s) (drop s xs)"
proof -
  have xs: "xs = take s xs @ take (e - s) (drop s xs) @ drop (e - s) (drop s xs)"
    by (metis append_take_drop_id)
  have "filter P (take s xs) = []"
    using assms by (auto simp: filter_empty_conv in_set_conv_nth)
  moreover have "filter P (take (e - s) (drop s xs)) = take (e - s) (drop s xs)"
    using assms by (auto simp: filter_id_conv in_set_conv_nth)
  moreover have "filter P (drop (e - s) (drop s xs)) = []"
    using assms by (auto simp: filter_empty_conv in_set_conv_nth)
  ultimately show ?thesis by (subst xs) (simp only: filter_append append_Nil append_Nil2)
qed

section \<open>Comparisons\<close>

text \<open>
  The laws of \<^verbatim>\<open>Ord\<close> that sorting and searching rely on, for a comparison that may call different
  values equal. The client lemmas are about lists ordered by a key: a sort orders them, a search for
  a key is ordered, and in a list whose keys increase strictly the search finds the last element
  whose key is not above the one sought.
\<close>

locale cmp_preorder =
  fixes cmp :: "'a \<Rightarrow> 'a \<Rightarrow> ordering"
  assumes cmp_refl: "cmp a a = Equal"
    and cmp_swap: "cmp a b = Less \<longleftrightarrow> cmp b a = Greater"
    and cmp_trans: "cmp a b \<noteq> Greater \<Longrightarrow> cmp b c \<noteq> Greater \<Longrightarrow> cmp a c \<noteq> Greater"
begin

lemma not_greater_iff: "cmp a b \<noteq> Greater \<longleftrightarrow> cmp b a \<noteq> Less"
  using cmp_swap by blast

lemma cmp_total: "cmp a b = Greater \<Longrightarrow> cmp b a \<noteq> Greater"
  by (metis cmp_swap ordering.distinct(3))

lemma less_le_trans: "cmp a b = Less \<Longrightarrow> cmp b c \<noteq> Greater \<Longrightarrow> cmp a c = Less"
  by (metis cmp_swap cmp_trans)

lemma le_less_trans: "cmp a b \<noteq> Greater \<Longrightarrow> cmp b c = Less \<Longrightarrow> cmp a c = Less"
  by (metis cmp_swap cmp_trans)

lemma equal_iff: "cmp a b = Equal \<longleftrightarrow> cmp a b \<noteq> Greater \<and> cmp b a \<noteq> Greater"
  by (metis cmp_swap ordering.distinct(1,5) ordering.exhaust)

lemma equal_swap: "cmp a b = Equal \<longleftrightarrow> cmp b a = Equal"
  using equal_iff by blast

lemma sorted_insert_by:
  "sorted_wrt (\<lambda>x y. cmp (key x) (key y) \<noteq> Greater) xs \<Longrightarrow>
   sorted_wrt (\<lambda>x y. cmp (key x) (key y) \<noteq> Greater) (insert_by (\<lambda>x y. cmp (key x) (key y)) x xs)"
proof (induction xs)
  case Nil
  then show ?case by simp
next
  case (Cons y ys)
  have set: "set (insert_by c x ys) = insert x (set ys)" for c
    using mset_insert_by [of c x ys] by (metis set_mset_add_mset_insert set_mset_mset)
  show ?case
  proof (cases "cmp (key x) (key y) = Greater")
    case True
    then show ?thesis using Cons set by (auto dest: cmp_total)
  next
    case False
    then show ?thesis using Cons.prems by (auto dest: cmp_trans)
  qed
qed

lemma sorted_sort_by:
  "sorted_wrt (\<lambda>x y. cmp (key x) (key y) \<noteq> Greater) (sort_by (\<lambda>x y. cmp (key x) (key y)) xs)"
  unfolding sort_by_def by (induction xs) (simp_all add: sorted_insert_by)

lemma sorted_nth_le:
  assumes "sorted_wrt (\<lambda>x y. cmp (key x) (key y) \<noteq> Greater) xs" "i \<le> j" "j < length xs"
  shows "cmp (key (xs ! i)) (key (xs ! j)) \<noteq> Greater"
  using assms by (cases "i = j") (auto simp: cmp_refl sorted_wrt_iff_nth_less)

lemma sorted_probe_ordered:
  assumes "sorted_wrt (\<lambda>x y. cmp (key x) (key y) \<noteq> Greater) xs"
  shows "probe_ordered (\<lambda>x. cmp (key x) k) xs"
  unfolding probe_ordered_def
proof (intro allI impI conjI)
  fix i j
  assume ij: "i \<le> j \<and> j < length xs"
  then have le: "cmp (key (xs ! i)) (key (xs ! j)) \<noteq> Greater"
    using sorted_nth_le [OF assms] by blast
  show "cmp (key (xs ! i)) k = Less" if "cmp (key (xs ! j)) k = Less"
    using le_less_trans [OF le that] .
  show "cmp (key (xs ! j)) k = Greater" if "cmp (key (xs ! i)) k = Greater"
    using that le cmp_trans by blast
qed

lemma sorted_partition_point:
  assumes "sorted_wrt (\<lambda>x y. cmp (key x) (key y) \<noteq> Greater) xs"
  shows "partition_point (\<lambda>x. cmp (key x) k = Less) xs \<le> length xs \<and>
    (\<forall>j < partition_point (\<lambda>x. cmp (key x) k = Less) xs. cmp (key (xs ! j)) k = Less) \<and>
    (\<forall>j. partition_point (\<lambda>x. cmp (key x) k = Less) xs \<le> j \<and> j < length xs \<longrightarrow>
      cmp (key (xs ! j)) k \<noteq> Less)"
  using sorted_probe_ordered [OF assms, of k]
  by (intro partition_point_spec) (auto simp: probe_ordered_def)

end

end
