(* ===== verification/Epk.thy ===== *)
theory Epk
  imports Partition_Key Rust_Slice Rust_Strings
begin

unbundle bit_operations_syntax

text \<open>
  Effective partition keys, \<^verbatim>\<open>models/effective_partition_key.rs\<close>: their hexadecimal form, the
  length-aware comparison, the big-endian successor, and their computation from partition key
  values. Every comparison is related to a comparison of numbers: the key read as a big-endian
  number of some common width, zero-extended on the right.
\<close>

section \<open>Keys\<close>

type_synonym epk = "u8 list"

abbreviation epk_MIN :: epk where "epk_MIN \<equiv> []"
abbreviation epk_MAX :: epk where "epk_MAX \<equiv> [0xFF]"

text \<open>\<^verbatim>\<open><[u8] as Ord>::cmp\<close>, the lexicographic comparison of slices.\<close>

fun bytes_cmp :: "u8 list \<Rightarrow> u8 list \<Rightarrow> ordering" where
  "bytes_cmp [] [] = Equal"
| "bytes_cmp [] (b # bs) = Less"
| "bytes_cmp (a # as) [] = Greater"
| "bytes_cmp (a # as) (b # bs) =
     (if a < b then Less else if b < a then Greater else bytes_cmp as bs)"

definition epk_cmp :: "epk \<Rightarrow> epk \<Rightarrow> ordering" where
  "epk_cmp a b =
     (let common = min (length a) (length b) in
      case bytes_cmp (take common a) (take common b) of
        Equal \<Rightarrow>
          (let tail = (if length a > length b then drop common a else drop common b) in
           if list_all (\<lambda>byte. byte = 0) tail then Equal
           else if length a > length b then Greater else Less)
      | other \<Rightarrow> other)"

definition epk_le :: "epk \<Rightarrow> epk \<Rightarrow> bool" where
  "epk_le a b \<longleftrightarrow> epk_cmp a b \<noteq> Greater"

definition epk_lt :: "epk \<Rightarrow> epk \<Rightarrow> bool" where
  "epk_lt a b \<longleftrightarrow> epk_cmp a b = Less"

section \<open>Hexadecimal\<close>

definition hex_digit :: "u8 \<Rightarrow> char" where
  "hex_digit n = (if n < 10 then char_of (48 + unat n) else char_of (55 + unat n))"

definition bytes_to_hex_upper :: "u8 list \<Rightarrow> string" where
  "bytes_to_hex_upper bytes = concat (map (\<lambda>b. [hex_digit (drop_bit 4 b), hex_digit (b AND 0x0F)]) bytes)"

definition hex_nibble :: "char \<Rightarrow> u8 option" where
  "hex_nibble c =
     (let n = (of_char c :: nat) in
      if 48 \<le> n \<and> n \<le> 57 then Some (of_nat (n - 48))
      else if 97 \<le> n \<and> n \<le> 102 then Some (of_nat (n - 97 + 10))
      else if 65 \<le> n \<and> n \<le> 70 then Some (of_nat (n - 65 + 10))
      else None)"

fun hex_to_bytes :: "string \<Rightarrow> u8 list" where
  "hex_to_bytes (a # b # rest) =
     (case (hex_nibble a, hex_nibble b) of
        (Some hi, Some lo) \<Rightarrow> (push_bit 4 hi OR lo) # hex_to_bytes rest
      | _ \<Rightarrow> [])"
| "hex_to_bytes _ = []"

definition epk_to_hex :: "epk \<Rightarrow> string" where
  "epk_to_hex e = bytes_to_hex_upper e"

definition epk_from_str :: "string \<Rightarrow> epk" where
  "epk_from_str s = hex_to_bytes s"

section \<open>Successors\<close>

text \<open>The loop of \<^verbatim>\<open>increment_be\<close> over the bytes from the last to the first.\<close>

fun increment_rev :: "u8 list \<Rightarrow> u8 list option" where
  "increment_rev [] = None"
| "increment_rev (b # bs) =
     (if b \<noteq> 0xFF then Some ((b + 1) # bs) else map_option (\<lambda>r. 0x00 # r) (increment_rev bs))"

definition increment_be :: "u8 list \<Rightarrow> epk" where
  "increment_be bytes =
     (if bytes = [] then epk_from_str ''00''
      else case increment_rev (rev bytes) of
        Some r \<Rightarrow> epk_from_str (bytes_to_hex_upper (rev r))
      | None \<Rightarrow> epk_MAX)"

definition epk_successor :: "epk \<Rightarrow> epk" where
  "epk_successor self = increment_be self"

definition normalized_successor :: "epk \<Rightarrow> nat \<Rightarrow> epk" where
  "normalized_successor self normalized_len_bytes =
     (let bytes = (if length self < normalized_len_bytes
                   then self @ replicate (normalized_len_bytes - length self) 0x00 else self)
      in increment_be bytes)"

section \<open>Computation\<close>

definition hash_v2_raw_bytes :: "u8 list \<Rightarrow> u8 list" where
  "hash_v2_raw_bytes data =
     (let hash_bytes = rev (le_bytes 16 (murmurhash3_128 data 0))
      in hash_bytes[0 := (hash_bytes ! 0) AND 0x3F])"

definition normalized_epk_len :: "partition_key_definition \<Rightarrow> nat option" where
  "normalized_epk_len definition =
     (if pkd_version definition = V2 \<and> (pkd_kind definition = KHash \<or> pkd_kind definition = KMultiHash)
      then Some (16 * max (length (pkd_paths definition)) 1) else None)"

definition effective_partition_key_v2_binary :: "partition_key_value list \<Rightarrow> u8 list" where
  "effective_partition_key_v2_binary pk_values =
     hash_v2_raw_bytes (concat (map write_for_hashing_v2 pk_values))"

definition effective_partition_key_multi_hash_v2_binary :: "partition_key_value list \<Rightarrow> u8 list" where
  "effective_partition_key_multi_hash_v2_binary pk_values =
     concat (map (\<lambda>v. hash_v2_raw_bytes (write_for_hashing_v2 v)) pk_values)"

text \<open>\<^verbatim>\<open>u32 as f64\<close>: the bit pattern of the double that represents a 32-bit number exactly. The
  exponent is the position of the highest set bit.\<close>

fun highest_bit :: "nat \<Rightarrow> u32 \<Rightarrow> nat" where
  "highest_bit 0 w = 0"
| "highest_bit (Suc k) w = (if bit w (Suc k) then Suc k else highest_bit k w)"

definition f64_of_u32 :: "u32 \<Rightarrow> u64" where
  "f64_of_u32 w =
     (if w = 0 then 0
      else let e = highest_bit 31 w
           in push_bit 52 (of_nat (1023 + e)) OR push_bit (52 - e) (take_bit e (ucast w)))"

fun collect_options :: "'a option list \<Rightarrow> 'a list option" where
  "collect_options [] = Some []"
| "collect_options (x # xs) =
     (case (x, collect_options xs) of (Some a, Some as) \<Rightarrow> Some (a # as) | _ \<Rightarrow> None)"

definition effective_partition_key_v1_binary :: "partition_key_value list \<Rightarrow> u8 list option" where
  "effective_partition_key_v1_binary pk_values =
     (let hashing_bytes = concat (map write_for_hashing_v1 pk_values);
          hash32 = murmurhash3_32 hashing_bytes 0
      in case collect_options (map truncated_for_v1_encoding pk_values) of
           None \<Rightarrow> None
         | Some vs \<Rightarrow>
             Some (write_number_v1_binary (f64_of_u32 hash32) @
                   concat (map write_for_binary_encoding_v1 vs)))"

text \<open>\<^verbatim>\<open>compute\<close>; the result \<^term>\<open>None\<close> is a panic, of the assertion on MultiHash keys or of the
  string slice in the V1 encoding.\<close>

definition epk_compute ::
  "partition_key_value list \<Rightarrow> partition_key_kind \<Rightarrow> partition_key_version \<Rightarrow> epk option" where
  "epk_compute pk_values kind version =
     (if pk_values = [] then Some epk_MIN
      else if length pk_values = 1 \<and> is_infinity (pk_values ! 0) then Some epk_MAX
      else case kind of
        KHash \<Rightarrow>
          (case version of
             V1 \<Rightarrow> effective_partition_key_v1_binary pk_values
           | V2 \<Rightarrow> Some (effective_partition_key_v2_binary pk_values))
      | KMultiHash \<Rightarrow>
          if version = V2 then Some (effective_partition_key_multi_hash_v2_binary pk_values) else None
      | KRange \<Rightarrow> Some (effective_partition_key_v2_binary pk_values))"

datatype compute_range_error =
    EmptyPartitionKey | TooManyComponents nat nat | ArityMismatch nat nat

definition epk_compute_range ::
  "partition_key_value list \<Rightarrow> partition_key_definition \<Rightarrow> (compute_range_error + epk \<times> epk) option" where
  "epk_compute_range pk_values pk_definition =
     (let paths = length (pkd_paths pk_definition); kind = pkd_kind pk_definition in
      if pk_values = [] then Some (Inl EmptyPartitionKey)
      else if length pk_values > paths then Some (Inl (TooManyComponents (length pk_values) paths))
      else case epk_compute pk_values kind (pkd_version pk_definition) of
        None \<Rightarrow> None
      | Some epk \<Rightarrow>
          if kind \<noteq> KMultiHash \<and> length pk_values \<noteq> paths then
            Some (Inl (ArityMismatch (length pk_values) paths))
          else if kind = KMultiHash \<and> length pk_values < paths then
            Some (Inr (epk, epk @ [0xFF]))
          else Some (Inr (epk, epk)))"

section \<open>Keys as numbers\<close>

fun be_val :: "u8 list \<Rightarrow> nat" where
  "be_val [] = 0"
| "be_val (b # bs) = unat b * 256 ^ length bs + be_val bs"

definition epk_val :: "nat \<Rightarrow> epk \<Rightarrow> nat" where
  "epk_val n e = be_val e * 256 ^ (n - length e)"

definition nat_cmp :: "nat \<Rightarrow> nat \<Rightarrow> ordering" where
  "nat_cmp a b = (if a < b then Less else if b < a then Greater else Equal)"

lemma u8_unat_less: "unat (b :: u8) < 256"
proof -
  have "(unsigned b :: nat) < 2 ^ LENGTH(8)" by (rule unsigned_less)
  then show ?thesis by simp
qed

lemma be_val_append: "be_val (a @ b) = be_val a * 256 ^ length b + be_val b"
  by (induction a) (simp_all add: power_add algebra_simps)

lemma be_val_less: "be_val a < 256 ^ length a"
proof (induction a)
  case Nil
  then show ?case by simp
next
  case (Cons b bs)
  have "Suc (unat b) * 256 ^ length bs \<le> 256 * 256 ^ length bs"
    using u8_unat_less [of b] by (intro mult_le_mono1) simp
  then have "unat b * 256 ^ length bs + 256 ^ length bs \<le> 256 * 256 ^ length bs"
    by (simp only: mult_Suc add.commute)
  with Cons show ?case unfolding be_val.simps list.size power_Suc One_nat_def add_Suc_right add_0_right
    by linarith
qed

lemma be_val_zero_iff: "be_val a = 0 \<longleftrightarrow> list_all (\<lambda>b. b = 0) a"
  by (induction a) (simp_all add: unat_eq_zero)

lemma be_val_replicate_zero [simp]: "be_val (replicate n 0) = 0"
  by (induction n) simp_all

lemma bytes_cmp_val: "length a = length b \<Longrightarrow> bytes_cmp a b = nat_cmp (be_val a) (be_val b)"
proof (induction a b rule: bytes_cmp.induct)
  case (4 a as b bs)
  then have len: "length as = length bs" and va: "be_val as < 256 ^ length bs"
    and vb: "be_val bs < 256 ^ length bs"
    using be_val_less [of as] be_val_less [of bs] by auto
  have step: "x * m + u < y * m + v" if "x < y" "u < m" for x y m u v :: nat
  proof -
    have "Suc x * m \<le> y * m" using that(1) by (intro mult_le_mono1) simp
    then show ?thesis using that(2) by simp
  qed
  consider "a < b" | "b < a" | "a = b" by (rule linorder_cases)
  then show ?case
  proof cases
    case 1
    then show ?thesis using step [of "unat a" "unat b"] va len by (simp add: nat_cmp_def word_less_nat_alt)
  next
    case 2
    then have "\<not> a < b" by simp
    with 2 show ?thesis
      using step [of "unat b" "unat a" "be_val bs" "256 ^ length bs" "be_val as"] vb len
      by (simp add: nat_cmp_def word_less_nat_alt)
  next
    case 3
    then show ?thesis using 4 len by (simp add: nat_cmp_def)
  qed
qed (simp_all add: nat_cmp_def)

lemma nat_cmp_swap: "nat_cmp a b = Less \<longleftrightarrow> nat_cmp b a = Greater"
  by (simp add: nat_cmp_def)

lemma nat_cmp_mult: "0 < k \<Longrightarrow> nat_cmp (a * k) (b * k) = nat_cmp a b"
  by (simp add: nat_cmp_def)

lemma nat_cmp_shift:
  assumes "v < m"
  shows "nat_cmp (x * m) (y * m + v) =
    (case nat_cmp x y of Equal \<Rightarrow> (if v = 0 then Equal else Less) | other \<Rightarrow> other)"
proof -
  have "Suc y * m \<le> x * m" if "y < x" using that by (intro mult_le_mono1) simp
  moreover have "x * m \<le> y * m" if "x \<le> y" using that by (rule mult_le_mono1)
  moreover have "Suc x * m \<le> y * m" if "x < y" using that by (intro mult_le_mono1) simp
  ultimately show ?thesis using assms by (auto simp: nat_cmp_def)
qed

lemma nat_cmp_shift':
  assumes "v < m"
  shows "nat_cmp (y * m + v) (x * m) =
    (case nat_cmp y x of Equal \<Rightarrow> (if v = 0 then Equal else Greater) | other \<Rightarrow> other)"
proof -
  have "Suc y * m \<le> x * m" if "y < x" using that by (intro mult_le_mono1) simp
  moreover have "x * m \<le> y * m" if "x \<le> y" using that by (rule mult_le_mono1)
  moreover have "Suc x * m \<le> y * m" if "x < y" using that by (intro mult_le_mono1) simp
  ultimately show ?thesis using assms by (auto simp: nat_cmp_def)
qed

lemma epk_val_split:
  assumes "l \<le> length e" "length e \<le> n"
  shows "epk_val n e =
    (be_val (take l e) * 256 ^ (length e - l) + be_val (drop l e)) * 256 ^ (n - length e)"
proof -
  have "be_val e = be_val (take l e @ drop l e)" by simp
  then show ?thesis unfolding epk_val_def be_val_append using assms by simp
qed

lemma epk_val_extend:
  "length a \<le> m \<Longrightarrow> m \<le> n \<Longrightarrow> epk_val n a = (be_val a * 256 ^ (m - length a)) * 256 ^ (n - m)"
  by (simp add: epk_val_def power_add [symmetric])

lemma epk_cmp_val:
  assumes a: "length a \<le> n" and b: "length b \<le> n"
  shows "epk_cmp a b = nat_cmp (epk_val n a) (epk_val n b)"
proof (cases "length a \<le> length b")
  case True
  let ?l = "length a" and ?m = "256 ^ (length b - length a)"
  have v: "be_val (drop ?l b) < ?m" using be_val_less [of "drop ?l b"] by simp
  have "nat_cmp (epk_val n a) (epk_val n b) =
      nat_cmp (be_val a * ?m) (be_val (take ?l b) * ?m + be_val (drop ?l b))"
    using epk_val_extend [OF True b] epk_val_split [OF True b] by (simp add: nat_cmp_mult)
  also have "\<dots> = (case bytes_cmp a (take ?l b) of
      Equal \<Rightarrow> (if list_all (\<lambda>x. x = 0) (drop ?l b) then Equal else Less) | other \<Rightarrow> other)"
    using True by (simp add: nat_cmp_shift [OF v] bytes_cmp_val be_val_zero_iff)
  finally show ?thesis
    using True by (simp add: epk_cmp_def Let_def min_absorb1 not_less split: ordering.split)
next
  case False
  then have le: "length b \<le> length a" by simp
  let ?l = "length b" and ?m = "256 ^ (length a - length b)"
  have v: "be_val (drop ?l a) < ?m" using be_val_less [of "drop ?l a"] by simp
  have "nat_cmp (epk_val n a) (epk_val n b) =
      nat_cmp (be_val (take ?l a) * ?m + be_val (drop ?l a)) (be_val b * ?m)"
    using epk_val_extend [OF le a] epk_val_split [OF le a] by (simp add: nat_cmp_mult)
  also have "\<dots> = (case bytes_cmp (take ?l a) b of
      Equal \<Rightarrow> (if list_all (\<lambda>x. x = 0) (drop ?l a) then Equal else Greater) | other \<Rightarrow> other)"
    using le by (simp add: nat_cmp_shift' [OF v] bytes_cmp_val be_val_zero_iff)
  finally show ?thesis
    using False le by (simp add: epk_cmp_def Let_def min_absorb2 split: ordering.split)
qed

lemma epk_lt_val: "length a \<le> n \<Longrightarrow> length b \<le> n \<Longrightarrow> epk_lt a b \<longleftrightarrow> epk_val n a < epk_val n b"
  by (simp add: epk_lt_def epk_cmp_val nat_cmp_def)

lemma epk_le_val: "length a \<le> n \<Longrightarrow> length b \<le> n \<Longrightarrow> epk_le a b \<longleftrightarrow> epk_val n a \<le> epk_val n b"
  by (auto simp: epk_le_def epk_cmp_val nat_cmp_def)

interpretation epk_ord: cmp_preorder epk_cmp
proof
  show "epk_cmp a a = Equal" for a
    by (simp add: epk_cmp_val [of a "length a"] nat_cmp_def)
  show "epk_cmp a b = Less \<longleftrightarrow> epk_cmp b a = Greater" for a b
    by (simp add: epk_cmp_val [of _ "max (length a) (length b)"] nat_cmp_def)
  show "epk_cmp a c \<noteq> Greater" if "epk_cmp a b \<noteq> Greater" "epk_cmp b c \<noteq> Greater" for a b c
    using that
    by (simp add: epk_cmp_val [of _ "max (length a) (max (length b) (length c))"] nat_cmp_def
        split: if_splits)
qed

lemma epk_le_refl [simp]: "epk_le a a"
  by (simp add: epk_le_def epk_ord.cmp_refl)

lemma epk_le_trans: "epk_le a b \<Longrightarrow> epk_le b c \<Longrightarrow> epk_le a c"
  unfolding epk_le_def by (rule epk_ord.cmp_trans)

lemma epk_lt_le_trans: "epk_lt a b \<Longrightarrow> epk_le b c \<Longrightarrow> epk_lt a c"
  unfolding epk_le_def epk_lt_def by (rule epk_ord.less_le_trans)

lemma epk_le_lt_trans: "epk_le a b \<Longrightarrow> epk_lt b c \<Longrightarrow> epk_lt a c"
  unfolding epk_le_def epk_lt_def by (rule epk_ord.le_less_trans)

lemma epk_not_le: "\<not> epk_le a b \<longleftrightarrow> epk_lt b a"
  by (simp add: epk_le_def epk_lt_def epk_ord.cmp_swap)

lemma epk_lt_imp_le: "epk_lt a b \<Longrightarrow> epk_le a b"
  by (simp add: epk_le_def epk_lt_def)

lemma epk_MIN_least [simp]: "epk_le epk_MIN a"
  by (simp add: epk_le_val [of _ "length a"] epk_val_def)

section \<open>Hexadecimal round trip\<close>

lemma hex_nibble_digit:
  assumes "unat n < 16"
  shows "hex_nibble (hex_digit n) = Some n"
proof (cases "unat n < 10")
  case True
  then have "n < 10" by (simp add: word_less_nat_alt)
  moreover have "(of_char (char_of (48 + unat n) :: char) :: nat) = 48 + unat n"
    using True by simp
  ultimately show ?thesis using True by (simp add: hex_nibble_def hex_digit_def)
next
  case False
  then have "\<not> n < 10" by (simp add: word_less_nat_alt)
  moreover have "(of_char (char_of (55 + unat n) :: char) :: nat) = 55 + unat n"
    using assms by simp
  ultimately show ?thesis using assms False by (simp add: hex_nibble_def hex_digit_def)
qed

lemma nibble_bounds: "unat (drop_bit 4 (b :: u8)) < 16" "unat ((b :: u8) AND 0x0F) < 16"
proof -
  show "unat (drop_bit 4 b) < 16"
    using u8_unat_less [of b] by (simp add: drop_bit_eq_div unat_div)
  have "b AND 0x0F = take_bit 4 b" by (simp add: take_bit_eq_mask mask_eq_exp_minus_1)
  then show "unat (b AND 0x0F) < 16"
    by (simp add: take_bit_eq_mod unat_mod)
qed

lemma nibbles_combine: "push_bit 4 (drop_bit 4 (b :: u8)) OR (b AND 0x0F) = b"
proof -
  have "b AND 0x0F = take_bit 4 b" by (simp add: take_bit_eq_mask mask_eq_exp_minus_1)
  then show ?thesis
    by (auto simp: bit_eq_iff bit_simps)
qed

lemma hex_to_bytes_to_hex [simp]: "hex_to_bytes (bytes_to_hex_upper bs) = bs"
proof (induction bs)
  case Nil
  then show ?case by (simp add: bytes_to_hex_upper_def)
next
  case (Cons b bs)
  then show ?case
    by (simp add: bytes_to_hex_upper_def hex_nibble_digit nibble_bounds nibbles_combine)
qed

lemma epk_from_to_hex: "epk_from_str (epk_to_hex e) = e"
  by (simp add: epk_from_str_def epk_to_hex_def)

section \<open>Successors\<close>

lemma increment_rev_val:
  "increment_rev r = Some r' \<Longrightarrow> length r' = length r \<and> be_val (rev r') = be_val (rev r) + 1"
proof (induction r arbitrary: r')
  case Nil
  then show ?case by simp
next
  case (Cons b bs)
  show ?case
  proof (cases "b = 0xFF")
    case True
    with Cons.prems obtain r where r: "increment_rev bs = Some r" "r' = 0 # r" by auto
    from Cons.IH [OF r(1)] True r(2) show ?thesis by (simp add: be_val_append)
  next
    case False
    then have "unat b \<noteq> 255" by (simp add: word_unat_eq_iff)
    then have "unat b + 1 < 256" using u8_unat_less [of b] by simp
    then have "unat (b + 1) = unat b + 1"
      by (simp add: unat_word_ariths)
    with Cons.prems False show ?thesis by (auto simp: be_val_append)
  qed
qed

lemma increment_rev_None: "increment_rev r = None \<longleftrightarrow> (\<forall>b \<in> set r. b = 0xFF)"
  by (induction r) auto

lemma increment_be_spec:
  assumes "\<exists>b \<in> set e. b \<noteq> 0xFF"
  shows "length (increment_be e) = length e \<and> be_val (increment_be e) = be_val e + 1"
proof -
  have "e \<noteq> []" using assms by auto
  moreover obtain r where r: "increment_rev (rev e) = Some r"
    using assms increment_rev_None [of "rev e"] by (cases "increment_rev (rev e)") auto
  ultimately show ?thesis
    using increment_rev_val [OF r] by (simp add: increment_be_def epk_from_str_def)
qed

lemma increment_be_tight:
  assumes "\<exists>b \<in> set e. b \<noteq> 0xFF"
  shows "epk_lt e (increment_be e) \<and>
    (\<forall>x. length x \<le> length e \<and> epk_lt e x \<longrightarrow> epk_le (increment_be e) x)"
  using increment_be_spec [OF assms]
  by (auto simp: epk_lt_val [of _ "length e"] epk_le_val [of _ "length e"] epk_val_def)

lemma epk_pad_equal: "epk_cmp (e @ replicate k 0) e = Equal"
  by (simp add: epk_cmp_val [of _ "length e + k"] epk_val_def be_val_append nat_cmp_def)

lemma epk_equal_lt: "epk_cmp a b = Equal \<Longrightarrow> epk_lt a c \<longleftrightarrow> epk_lt b c"
  by (metis epk_le_lt_trans epk_le_def epk_ord.equal_iff)

section \<open>Widths and prefixes\<close>

lemma hash_v2_shape:
  "\<exists>b bs. hash_v2_raw_bytes d = b # bs \<and> length bs = 15 \<and> unat b \<le> 63"
proof -
  let ?h = "rev (le_bytes 16 (murmurhash3_128 d 0))"
  obtain b bs where h: "?h = b # bs" "length bs = 15"
    by (cases ?h) (auto dest: arg_cong [where f = length])
  have "b AND 0x3F = take_bit 6 b" by (simp add: take_bit_eq_mask mask_eq_exp_minus_1)
  then have "unat (b AND 0x3F) < 64"
    by (simp add: take_bit_eq_mod unat_mod)
  with h show ?thesis by (simp add: hash_v2_raw_bytes_def)
qed

lemma length_hash_v2 [simp]: "length (hash_v2_raw_bytes d) = 16"
  using hash_v2_shape [of d] by auto

lemma multi_hash_append:
  "effective_partition_key_multi_hash_v2_binary (vs @ ws) =
     effective_partition_key_multi_hash_v2_binary vs @ effective_partition_key_multi_hash_v2_binary ws"
  by (simp add: effective_partition_key_multi_hash_v2_binary_def)

lemma length_multi_hash [simp]:
  "length (effective_partition_key_multi_hash_v2_binary vs) = 16 * length vs"
  by (induction vs) (simp_all add: effective_partition_key_multi_hash_v2_binary_def)

lemma multi_hash_head:
  assumes "ws \<noteq> []"
  shows "\<exists>b bs. effective_partition_key_multi_hash_v2_binary ws = b # bs \<and> unat b \<le> 63"
proof -
  obtain w ws' where "ws = w # ws'" using assms by (cases ws) auto
  then show ?thesis
    using hash_v2_shape [of "write_for_hashing_v2 w"]
    by (auto simp: effective_partition_key_multi_hash_v2_binary_def)
qed

lemma prefix_le: "epk_le p (p @ r)"
  by (simp add: epk_le_val [of _ "length p + length r"] epk_val_def be_val_append)

lemma prefix_below_sentinel:
  assumes "unat b < 255"
  shows "epk_lt (p @ b # bs) (p @ [0xFF])"
proof -
  let ?n = "Suc (length p + length bs)" and ?k = "256 ^ length bs"
  have "be_val bs < ?k" by (rule be_val_less)
  moreover have "Suc (unat b) * ?k \<le> 255 * ?k" using assms by (intro mult_le_mono1) simp
  ultimately have "unat b * ?k + be_val bs < 255 * ?k" by (simp only: mult_Suc)
  moreover have "be_val (p @ [0xFF]) = be_val p * 256 + 255"
    by (simp add: be_val_append)
  moreover have "be_val (p @ b # bs) = be_val p * (256 * ?k) + (unat b * ?k + be_val bs)"
    by (simp add: be_val_append)
  ultimately have "be_val (p @ b # bs) < be_val (p @ [0xFF]) * ?k"
    by (simp add: algebra_simps)
  then show ?thesis
    by (simp only: epk_lt_val [of _ ?n] epk_val_def length_append list.size) simp
qed

lemma epk_compute_multi_hash:
  "vs \<noteq> [] \<Longrightarrow> vs \<noteq> [PkInfinity] \<Longrightarrow>
   epk_compute vs KMultiHash V2 = Some (effective_partition_key_multi_hash_v2_binary vs)"
  by (cases vs) (auto simp: epk_compute_def is_infinity_def)

section \<open>Properties\<close>

text \<open>C33. The comparison of effective partition keys is the comparison of their big-endian values at
  any common width, the shorter key being extended with zero bytes on the right: keys that differ in
  trailing zeros only are equal, and the comparison is a total preorder.\<close>

theorem epk_cmp_zero_extended:
  assumes "length a \<le> n" and "length b \<le> n"
  shows "epk_cmp a b = nat_cmp (be_val (a @ replicate (n - length a) 0)) (be_val (b @ replicate (n - length b) 0))"
  using epk_cmp_val [OF assms] by (simp add: epk_val_def be_val_append)

theorem epk_cmp_zero_extended_witness:
  "epk_cmp [0x06, 0xAB] [0x06, 0xAB, 0, 0] = nat_cmp (be_val [0x06, 0xAB, 0, 0]) (be_val [0x06, 0xAB, 0, 0]) \<and>
   epk_cmp [0x06, 0xAB] [0x06, 0xAB, 0, 0] = Equal"
  using epk_cmp_zero_extended [of "[0x06, 0xAB]" 4 "[0x06, 0xAB, 0, 0]"]
  by (simp add: epk_cmp_def numeral_2_eq_2 nat_cmp_def)

text \<open>Decoding undoes encoding: the bytes of a key survive its upper-case hexadecimal form, the
  canonical routing string, for keys of every length.\<close>

theorem epk_hex_round_trip: "epk_from_str (epk_to_hex e) = e \<and> length (epk_to_hex e) = 2 * length e"
  by (simp add: epk_from_to_hex) (simp add: epk_to_hex_def bytes_to_hex_upper_def length_concat comp_def sum_list_triv)

text \<open>The normalised successor makes point ranges tight: for a key that is not all ones at the
  requested width, it has exactly that width, lies strictly above the key, and no key of at most that
  width lies strictly between the two.\<close>

theorem normalized_successor_tight:
  assumes "(\<exists>b \<in> set e. b \<noteq> 0xFF) \<or> length e < n"
  shows "length (normalized_successor e n) = max (length e) n \<and>
    epk_lt e (normalized_successor e n) \<and>
    (\<forall>x. length x \<le> max (length e) n \<and> epk_lt e x \<longrightarrow> epk_le (normalized_successor e n) x)"
proof -
  let ?e = "e @ replicate (n - length e) 0"
  have ns: "normalized_successor e n = increment_be ?e"
    by (simp add: normalized_successor_def Let_def)
  have ex: "\<exists>b \<in> set ?e. b \<noteq> 0xFF" using assms by auto
  have eq: "epk_lt ?e x \<longleftrightarrow> epk_lt e x" for x by (rule epk_equal_lt [OF epk_pad_equal])
  have "length ?e = max (length e) n" by simp
  then show ?thesis
    using increment_be_tight [OF ex] increment_be_spec [OF ex] unfolding ns eq by simp
qed

theorem normalized_successor_tight_witness:
  "normalized_successor [0x12, 0xFF] 3 = [0x12, 0xFF, 0x01] \<and> epk_lt [0x12, 0xFF] (normalized_successor [0x12, 0xFF] 3)"
  using normalized_successor_tight [of "[0x12, 0xFF]" 3]
  by (simp add: normalized_successor_def increment_be_def epk_from_str_def)

text \<open>The successor of the minimum key is not above it: \<^verbatim>\<open>successor\<close> of the empty key is the one
  byte \<^verbatim>\<open>00\<close>, which the comparison calls equal to the empty key, so the half-open range from the
  minimum key to its successor is empty.\<close>

theorem successor_of_min_not_greater:
  "epk_successor epk_MIN = [0x00] \<and> epk_cmp epk_MIN (epk_successor epk_MIN) = Equal \<and>
   \<not> epk_lt epk_MIN (epk_successor epk_MIN)"
  by (simp add: epk_successor_def increment_be_def epk_from_str_def hex_nibble_def epk_cmp_def epk_lt_def)

text \<open>C34. A prefix of a hierarchical key covers its completions: for a MultiHash definition of version 2, the range
  computed from the first components contains the key computed from all components, whatever the
  missing components are. The prefix has at least one component, lacks at least one, and is not the
  infinity value alone.\<close>

theorem prefix_range_covers_completions:
  assumes "pkd_kind d = KMultiHash" and "pkd_version d = V2"
    and "vs \<noteq> []" and "vs \<noteq> [PkInfinity]" and "ws \<noteq> []"
    and "length vs + length ws = length (pkd_paths d)"
  shows "\<exists>lo hi full. epk_compute_range vs d = Some (Inr (lo, hi)) \<and>
    epk_compute (vs @ ws) KMultiHash V2 = Some full \<and> length full = 16 * length (pkd_paths d) \<and>
    epk_le lo full \<and> epk_lt full hi"
proof -
  let ?m = effective_partition_key_multi_hash_v2_binary
  obtain b bs where w: "?m ws = b # bs" "unat b \<le> 63" using multi_hash_head [OF assms(5)] by blast
  have "epk_compute_range vs d = Some (Inr (?m vs, ?m vs @ [0xFF]))"
  proof -
    have "length vs < length (pkd_paths d)" using assms(5,6) by (cases ws) auto
    then show ?thesis using assms by (simp add: epk_compute_range_def Let_def epk_compute_multi_hash)
  qed
  moreover have "epk_compute (vs @ ws) KMultiHash V2 = Some (?m vs @ ?m ws)"
    using assms by (subst epk_compute_multi_hash) (auto simp: multi_hash_append append_eq_Cons_conv)
  moreover have "epk_lt (?m vs @ ?m ws) (?m vs @ [0xFF])"
    using prefix_below_sentinel [of b "?m vs" bs] w by simp
  ultimately show ?thesis using assms(6) prefix_le by force
qed

theorem prefix_range_covers_completions_witness:
  "\<exists>lo hi full. epk_compute_range [PkNull] (pk_definition_new [''/a'', ''/b'']) = Some (Inr (lo, hi)) \<and>
     epk_compute [PkNull, PkBool True] KMultiHash V2 = Some full \<and> epk_le lo full \<and> epk_lt full hi"
  using prefix_range_covers_completions [of "pk_definition_new [''/a'', ''/b'']" "[PkNull]" "[PkBool True]"]
  by (auto simp: pk_definition_new_def)

text \<open>C40. Computing a V1 key panics exactly on strings that are cut inside a character: the computation
  for a single string value has no result if and only if the string has more than one hundred bytes
  and byte one hundred continues a UTF-8 character.\<close>

theorem v1_truncation_panics:
  "epk_compute [PkString s] KHash V1 = None \<longleftrightarrow> 100 < length s \<and> (s ! 100) AND 0xC0 = 0x80"
  using truncated_panics_iff [of "PkString s"]
  by (auto simp: epk_compute_def is_infinity_def effective_partition_key_v1_binary_def Let_def
      split: option.splits)

end
