(* ===== verification/Ranges.thy ===== *)
theory Ranges
  imports Epk
begin

text \<open>
  Ranges of the key space: the generic \<^verbatim>\<open>EpkRange\<close> of \<^verbatim>\<open>models/range.rs\<close>, the partition key ranges of
  \<^verbatim>\<open>models/partition_key_range.rs\<close> and the feed ranges of \<^verbatim>\<open>models/feed_range.rs\<close>. The source derives
  equality of keys byte by byte but orders them with zero extension; the model keeps the two apart,
  HOL equality for \<^verbatim>\<open>==\<close> and \<^verbatim>\<open>epk_cmp\<close> for the order.
\<close>

section \<open>Generic ranges\<close>

record 'a epk_range =
  er_min :: 'a
  er_max :: 'a
  er_is_min_inclusive :: bool
  er_is_max_inclusive :: bool

definition epk_range_new :: "'a \<Rightarrow> 'a \<Rightarrow> bool \<Rightarrow> bool \<Rightarrow> 'a epk_range" where
  "epk_range_new min_v max_v is_min is_max =
     \<lparr>er_min = min_v, er_max = max_v, er_is_min_inclusive = is_min, er_is_max_inclusive = is_max\<rparr>"

definition epk_range_from_point :: "'a \<Rightarrow> 'a epk_range" where
  "epk_range_from_point value =
     \<lparr>er_min = value, er_max = value, er_is_min_inclusive = True, er_is_max_inclusive = True\<rparr>"

definition epk_range_from_empty :: "'a \<Rightarrow> 'a epk_range" where
  "epk_range_from_empty value =
     \<lparr>er_min = value, er_max = value, er_is_min_inclusive = True, er_is_max_inclusive = False\<rparr>"

definition epk_range_is_single_value :: "'a epk_range \<Rightarrow> bool" where
  "epk_range_is_single_value self \<longleftrightarrow>
     er_is_min_inclusive self \<and> er_is_max_inclusive self \<and> er_min self = er_max self"

definition epk_range_is_empty :: "'a epk_range \<Rightarrow> bool" where
  "epk_range_is_empty self \<longleftrightarrow>
     er_min self = er_max self \<and> \<not> (er_is_min_inclusive self \<and> er_is_max_inclusive self)"

definition epk_range_contains :: "('a \<Rightarrow> 'a \<Rightarrow> ordering) \<Rightarrow> 'a epk_range \<Rightarrow> 'a \<Rightarrow> bool" where
  "epk_range_contains cmp self value =
     (let min_satisfied = (if er_is_min_inclusive self then cmp (er_min self) value \<noteq> Greater
                           else cmp (er_min self) value = Less);
          max_satisfied = (if er_is_max_inclusive self then cmp (er_max self) value \<noteq> Less
                           else cmp (er_max self) value = Greater)
      in min_satisfied \<and> max_satisfied)"

definition check_overlapping :: "('a \<Rightarrow> 'a \<Rightarrow> ordering) \<Rightarrow> 'a epk_range \<Rightarrow> 'a epk_range \<Rightarrow> bool" where
  "check_overlapping cmp range1 range2 =
     (if epk_range_is_empty range1 \<or> epk_range_is_empty range2 then False
      else
        let cmp1 = cmp (er_min range1) (er_max range2);
            cmp2 = cmp (er_min range2) (er_max range1)
        in if cmp1 \<noteq> Greater \<and> cmp2 \<noteq> Greater then
             \<not> ((cmp1 = Equal \<and> \<not> (er_is_min_inclusive range1 \<and> er_is_max_inclusive range2)) \<or>
                (cmp2 = Equal \<and> \<not> (er_is_min_inclusive range2 \<and> er_is_max_inclusive range1)))
           else False)"

section \<open>Partition key ranges\<close>

datatype partition_key_range_status = Online | Splitting | Offline | Split

text \<open>The throughput fraction is the bit pattern of its double.\<close>

record partition_key_range =
  pkr_id :: string
  pkr_min_inclusive :: epk
  pkr_max_exclusive :: epk
  pkr_status :: partition_key_range_status
  pkr_throughput_fraction :: u64
  pkr_parents :: "string list option"

definition partition_key_range_new :: "string \<Rightarrow> epk \<Rightarrow> epk \<Rightarrow> partition_key_range" where
  "partition_key_range_new i min_inclusive max_exclusive =
     \<lparr>pkr_id = i, pkr_min_inclusive = min_inclusive, pkr_max_exclusive = max_exclusive,
      pkr_status = Online, pkr_throughput_fraction = 0, pkr_parents = None\<rparr>"

definition pkr_as_range :: "partition_key_range \<Rightarrow> epk epk_range" where
  "pkr_as_range self =
     \<lparr>er_min = pkr_min_inclusive self, er_max = pkr_max_exclusive self,
      er_is_min_inclusive = True, er_is_max_inclusive = False\<rparr>"

definition get_parent_ids :: "partition_key_range \<Rightarrow> string set" where
  "get_parent_ids self = (case pkr_parents self of None \<Rightarrow> {} | Some parents \<Rightarrow> set parents)"

definition pkr_eq :: "partition_key_range \<Rightarrow> partition_key_range \<Rightarrow> bool" where
  "pkr_eq self other \<longleftrightarrow>
     pkr_id self = pkr_id other \<and> pkr_min_inclusive self = pkr_min_inclusive other \<and>
     pkr_max_exclusive self = pkr_max_exclusive other"

definition pkr_cmp :: "partition_key_range \<Rightarrow> partition_key_range \<Rightarrow> ordering" where
  "pkr_cmp self other = epk_cmp (pkr_min_inclusive self) (pkr_min_inclusive other)"

section \<open>Feed ranges\<close>

datatype feed_range =
    LogicalPartition "partition_key_value list" epk epk
  | FeedEpkRange epk epk

datatype feed_range_error =
    MinAboveMax | NotHalfOpen | InvalidBase64 | InvalidJson

definition feed_range_new :: "epk \<Rightarrow> epk \<Rightarrow> feed_range_error + feed_range" where
  "feed_range_new min_inclusive max_exclusive =
     (if epk_lt max_exclusive min_inclusive then Inl MinAboveMax
      else Inr (FeedEpkRange min_inclusive max_exclusive))"

definition feed_range_full :: feed_range where
  "feed_range_full = FeedEpkRange epk_MIN epk_MAX"

text \<open>\<^verbatim>\<open>for_partition\<close>; \<^term>\<open>None\<close> where computing the key panics.\<close>

definition feed_range_for_partition ::
  "partition_key_value list \<Rightarrow> partition_key_definition \<Rightarrow> feed_range option" where
  "feed_range_for_partition partition_key definition =
     (case epk_compute_range partition_key definition of
        None \<Rightarrow> None
      | Some (Inr (lo, hi)) \<Rightarrow> Some (LogicalPartition partition_key lo hi)
      | Some (Inl _) \<Rightarrow>
          map_option (\<lambda>epk. LogicalPartition partition_key epk epk)
            (epk_compute partition_key (pkd_kind definition) (pkd_version definition)))"

fun feed_range_partition_key :: "feed_range \<Rightarrow> partition_key_value list option" where
  "feed_range_partition_key (LogicalPartition partition_key _ _) = Some partition_key"
| "feed_range_partition_key (FeedEpkRange _ _) = None"

fun is_logical_partition :: "feed_range \<Rightarrow> bool" where
  "is_logical_partition (LogicalPartition _ _ _) = True"
| "is_logical_partition (FeedEpkRange _ _) = False"

fun fr_min_inclusive :: "feed_range \<Rightarrow> epk" where
  "fr_min_inclusive (LogicalPartition _ min_inclusive _) = min_inclusive"
| "fr_min_inclusive (FeedEpkRange min_inclusive _) = min_inclusive"

fun fr_max_exclusive :: "feed_range \<Rightarrow> epk" where
  "fr_max_exclusive (LogicalPartition _ _ max_exclusive) = max_exclusive"
| "fr_max_exclusive (FeedEpkRange _ max_exclusive) = max_exclusive"

definition is_subset_of :: "feed_range \<Rightarrow> feed_range \<Rightarrow> bool" where
  "is_subset_of self other \<longleftrightarrow>
     epk_le (fr_min_inclusive other) (fr_min_inclusive self) \<and>
     epk_le (fr_max_exclusive self) (fr_max_exclusive other)"

definition overlaps :: "feed_range \<Rightarrow> feed_range \<Rightarrow> bool" where
  "overlaps self other \<longleftrightarrow>
     epk_lt (fr_min_inclusive self) (fr_max_exclusive other) \<and>
     epk_lt (fr_min_inclusive other) (fr_max_exclusive self)"

record range_json =
  rj_min :: string
  rj_max :: string
  rj_is_min_inclusive :: bool
  rj_is_max_inclusive :: bool

definition feed_range_to_json :: "feed_range \<Rightarrow> range_json" where
  "feed_range_to_json self =
     \<lparr>rj_min = epk_to_hex (fr_min_inclusive self), rj_max = epk_to_hex (fr_max_exclusive self),
      rj_is_min_inclusive = True, rj_is_max_inclusive = False\<rparr>"

definition feed_range_from_json :: "range_json \<Rightarrow> feed_range_error + feed_range" where
  "feed_range_from_json json =
     (if \<not> rj_is_min_inclusive json \<or> rj_is_max_inclusive json then Inl NotHalfOpen
      else
        let min_v = epk_from_str (rj_min json); max_v = epk_from_str (rj_max json) in
        if epk_lt max_v min_v then Inl MinAboveMax else Inr (FeedEpkRange min_v max_v))"

definition feed_range_try_from :: "partition_key_range \<Rightarrow> feed_range_error + feed_range" where
  "feed_range_try_from pkr =
     (if epk_lt (pkr_max_exclusive pkr) (pkr_min_inclusive pkr) then Inl MinAboveMax
      else Inr (FeedEpkRange (pkr_min_inclusive pkr) (pkr_max_exclusive pkr)))"

text \<open>The text form: the JSON codec and the base64 codec are parameters.\<close>

definition feed_range_fmt :: "(range_json \<Rightarrow> string) \<Rightarrow> (string \<Rightarrow> string) \<Rightarrow> feed_range \<Rightarrow> string" where
  "feed_range_fmt to_string encode self = encode (to_string (feed_range_to_json self))"

definition feed_range_from_str ::
  "(string \<Rightarrow> range_json option) \<Rightarrow> (string \<Rightarrow> string option) \<Rightarrow> string \<Rightarrow> feed_range_error + feed_range" where
  "feed_range_from_str from_slice decode s =
     (case decode s of
        None \<Rightarrow> Inl InvalidBase64
      | Some decoded_bytes \<Rightarrow>
          (case from_slice decoded_bytes of
             None \<Rightarrow> Inl InvalidJson
           | Some json \<Rightarrow> feed_range_from_json json))"

section \<open>Overlap and containment\<close>

context cmp_preorder
begin

lemma range_empty_no_value:
  "epk_range_is_empty r \<Longrightarrow> \<not> epk_range_contains cmp r v"
  by (auto simp: epk_range_is_empty_def epk_range_contains_def Let_def split: if_splits)

lemma common_value_overlaps:
  assumes "epk_range_contains cmp r v" "epk_range_contains cmp s v"
  shows "check_overlapping cmp r s"
proof -
  have le: "cmp (er_min x) v \<noteq> Greater" "cmp v (er_max x) \<noteq> Greater"
    and mn: "\<not> er_is_min_inclusive x \<Longrightarrow> cmp (er_min x) v = Less"
    and mx: "\<not> er_is_max_inclusive x \<Longrightarrow> cmp v (er_max x) = Less"
    if "epk_range_contains cmp x v" for x
    using that cmp_swap [of v "er_max x"] cmp_swap [of "er_max x" v]
    by (auto simp: epk_range_contains_def Let_def split: if_splits)
  have "cmp (er_min x) (er_max y) \<noteq> Greater \<and>
      (cmp (er_min x) (er_max y) = Equal \<longrightarrow> er_is_min_inclusive x \<and> er_is_max_inclusive y)"
    if x: "epk_range_contains cmp x v" and y: "epk_range_contains cmp y v" for x y
    using le(1) [OF x] le(2) [OF y] mn [OF x] mx [OF y]
    by (metis cmp_trans le_less_trans less_le_trans ordering.distinct(1))
  then show ?thesis
    using assms range_empty_no_value by (auto simp: check_overlapping_def Let_def)
qed

end

lemma half_open_overlap_iff:
  assumes "epk_lt (pkr_min_inclusive a) (pkr_max_exclusive a)"
    and "epk_lt (pkr_min_inclusive b) (pkr_max_exclusive b)"
  shows "check_overlapping epk_cmp (pkr_as_range a) (pkr_as_range b) \<longleftrightarrow>
    epk_lt (pkr_min_inclusive a) (pkr_max_exclusive b) \<and> epk_lt (pkr_min_inclusive b) (pkr_max_exclusive a)"
proof -
  have "pkr_min_inclusive x \<noteq> pkr_max_exclusive x"
    if "epk_lt (pkr_min_inclusive x) (pkr_max_exclusive x)" for x
    using that epk_ord.cmp_refl by (auto simp: epk_lt_def)
  with assms show ?thesis
    by (auto simp: check_overlapping_def pkr_as_range_def epk_range_is_empty_def Let_def epk_lt_def)
      (metis ordering.exhaust)+
qed

lemma pkr_contains_iff:
  "epk_range_contains epk_cmp (pkr_as_range r) v \<longleftrightarrow>
     epk_le (pkr_min_inclusive r) v \<and> epk_lt v (pkr_max_exclusive r)"
  by (simp add: epk_range_contains_def pkr_as_range_def epk_le_def epk_lt_def epk_ord.cmp_swap Let_def)

lemma from_json_to_json:
  assumes "\<not> epk_lt (fr_max_exclusive fr) (fr_min_inclusive fr)"
  shows "feed_range_from_json (feed_range_to_json fr) =
    Inr (FeedEpkRange (fr_min_inclusive fr) (fr_max_exclusive fr))"
  using assms by (simp add: feed_range_from_json_def feed_range_to_json_def epk_from_to_hex)

lemma overlaps_sym: "overlaps a b \<longleftrightarrow> overlaps b a"
  by (auto simp: overlaps_def)

lemma is_subset_of_trans: "is_subset_of a b \<Longrightarrow> is_subset_of b c \<Longrightarrow> is_subset_of a c"
  by (auto simp: is_subset_of_def intro: epk_le_trans)

section \<open>Properties\<close>

text \<open>The overlap test of half-open partition key ranges is exact: for two non-empty ranges it
  reports an overlap if and only if some key lies in both.\<close>

theorem check_overlapping_exact:
  assumes "epk_lt (pkr_min_inclusive a) (pkr_max_exclusive a)"
    and "epk_lt (pkr_min_inclusive b) (pkr_max_exclusive b)"
  shows "check_overlapping epk_cmp (pkr_as_range a) (pkr_as_range b) \<longleftrightarrow>
    (\<exists>v. epk_range_contains epk_cmp (pkr_as_range a) v \<and> epk_range_contains epk_cmp (pkr_as_range b) v)"
proof
  assume o: "check_overlapping epk_cmp (pkr_as_range a) (pkr_as_range b)"
  let ?v = "if epk_le (pkr_min_inclusive a) (pkr_min_inclusive b) then pkr_min_inclusive b
            else pkr_min_inclusive a"
  have "epk_range_contains epk_cmp (pkr_as_range a) ?v \<and> epk_range_contains epk_cmp (pkr_as_range b) ?v"
    using o assms half_open_overlap_iff [OF assms]
    by (auto simp: pkr_contains_iff epk_not_le intro: epk_lt_imp_le)
  then show "\<exists>v. epk_range_contains epk_cmp (pkr_as_range a) v \<and>
      epk_range_contains epk_cmp (pkr_as_range b) v" by blast
qed (use epk_ord.common_value_overlaps in blast)

theorem check_overlapping_exact_witness:
  "let a = partition_key_range_new ''0'' [] [0x3F]; b = partition_key_range_new ''1'' [0x3F] [0xFF]
   in \<not> check_overlapping epk_cmp (pkr_as_range a) (pkr_as_range b) \<and>
      \<not> (\<exists>v. epk_range_contains epk_cmp (pkr_as_range a) v \<and> epk_range_contains epk_cmp (pkr_as_range b) v)"
proof -
  let ?a = "partition_key_range_new ''0'' [] [0x3F]" and ?b = "partition_key_range_new ''1'' [0x3F] [0xFF]"
  have "epk_lt (pkr_min_inclusive ?a) (pkr_max_exclusive ?a)" "epk_lt (pkr_min_inclusive ?b) (pkr_max_exclusive ?b)"
    by (simp_all add: partition_key_range_new_def epk_lt_def epk_cmp_def)
  note exact = check_overlapping_exact [OF this]
  have "\<not> check_overlapping epk_cmp (pkr_as_range ?a) (pkr_as_range ?b)"
    by (simp add: check_overlapping_def pkr_as_range_def partition_key_range_new_def
        epk_range_is_empty_def epk_cmp_def)
  with exact show ?thesis by (simp add: Let_def)
qed

text \<open>A feed range survives its text form: given codecs that decode what they encode, parsing the
  text of a feed range that is not inverted gives the range with the same bounds.\<close>

theorem feed_range_text_round_trip:
  assumes "\<And>x. decode (encode x) = Some x" and "\<And>j. from_slice (to_string j) = Some j"
    and "epk_le (fr_min_inclusive fr) (fr_max_exclusive fr)"
  shows "feed_range_from_str from_slice decode (feed_range_fmt to_string encode fr) =
    Inr (FeedEpkRange (fr_min_inclusive fr) (fr_max_exclusive fr))"
proof -
  have "\<not> epk_lt (fr_max_exclusive fr) (fr_min_inclusive fr)"
    using assms(3) epk_not_le by blast
  from from_json_to_json [OF this] show ?thesis
    by (simp add: feed_range_from_str_def feed_range_fmt_def assms(1,2))
qed

text \<open>A concrete codec for the witness: a record printed field by field, separated by commas.\<close>

definition plain_json :: "range_json \<Rightarrow> string" where
  "plain_json j = (if rj_is_min_inclusive j then ''1'' else ''0'') @ (if rj_is_max_inclusive j then ''1'' else ''0'') @
     show_nat (length (rj_min j)) @ '','' @ rj_min j @ rj_max j"

definition plain_unjson :: "string \<Rightarrow> range_json option" where
  "plain_unjson s =
     (case s of
        a # b # rest \<Rightarrow>
          (case split_once CHR '','' rest of
             None \<Rightarrow> None
           | Some (n, body) \<Rightarrow>
               map_option (\<lambda>k. \<lparr>rj_min = take k body, rj_max = drop k body,
                 rj_is_min_inclusive = (a = CHR ''1''), rj_is_max_inclusive = (b = CHR ''1'')\<rparr>)
                 (digits_val 0 n))
      | _ \<Rightarrow> None)"

lemma plain_json_codec: "plain_unjson (plain_json j) = Some j"
  using split_once_append [of "CHR '',''" "show_nat (length (rj_min j))" "rj_min j @ rj_max j"]
  by (simp add: plain_json_def plain_unjson_def str_simps)

theorem feed_range_text_round_trip_witness:
  "feed_range_from_str plain_unjson Some (feed_range_fmt plain_json id feed_range_full) = Inr feed_range_full"
proof -
  have le: "epk_le (fr_min_inclusive feed_range_full) (fr_max_exclusive feed_range_full)"
    by (simp add: feed_range_full_def)
  have "feed_range_from_str plain_unjson Some (feed_range_fmt plain_json id feed_range_full) =
      Inr (FeedEpkRange (fr_min_inclusive feed_range_full) (fr_max_exclusive feed_range_full))"
    by (rule feed_range_text_round_trip [OF _ _ le]) (simp_all add: plain_json_codec)
  then show ?thesis by (simp add: feed_range_full_def)
qed

text \<open>A point feed range is not reported as overlapping the range that starts at its key: for a
  single logical partition whose key is the lower bound of a feed range, \<^verbatim>\<open>overlaps\<close> is false, although
  the key lies in that range, while for a key strictly inside it is true.\<close>

theorem point_feed_range_overlap:
  assumes "epk_lt (fr_min_inclusive r) (fr_max_exclusive r)"
    and "epk_le (fr_min_inclusive r) e" and "epk_lt e (fr_max_exclusive r)"
  shows "overlaps (LogicalPartition pk e e) r \<longleftrightarrow> epk_cmp e (fr_min_inclusive r) \<noteq> Equal"
proof -
  have "overlaps (LogicalPartition pk e e) r \<longleftrightarrow> epk_lt (fr_min_inclusive r) e"
    using assms(3) by (simp add: overlaps_def)
  also have "\<dots> \<longleftrightarrow> epk_cmp (fr_min_inclusive r) e \<noteq> Equal"
    using assms(2) by (cases "epk_cmp (fr_min_inclusive r) e") (auto simp: epk_lt_def epk_le_def)
  finally show ?thesis using epk_ord.equal_swap by blast
qed

theorem point_feed_range_overlap_witness:
  "\<not> overlaps (LogicalPartition [] [0x10] [0x10]) (FeedEpkRange [0x10] [0x20])"
  using point_feed_range_overlap [of "FeedEpkRange [0x10] [0x20]" "[0x10]" "[]"]
  by (simp add: epk_lt_def epk_cmp_def)

end
