(* ===== verification/Routing_Map.thy ===== *)
theory Routing_Map
  imports Ranges
begin

text \<open>
  The container routing map, \<^verbatim>\<open>driver/cache/container_routing_map.rs\<close>: which partition key range owns
  an effective partition key. The constructor validates that the sorted ranges are contiguous from
  the minimum to the maximum key; the lemmas show that under that invariant the binary searches
  return the owner of a key and the overlapping slice of a range, and that an incremental refresh
  keeps the invariant.
\<close>

section \<open>The map\<close>

datatype routing_map_error = OverlappingRanges | IncompleteRanges

record container_routing_map =
  crm_range_by_id :: "(string, partition_key_range) hashmap"
  crm_ordered_ranges :: "partition_key_range list"
  crm_gone_ranges :: "string set"
  crm_highest_non_offline_pk_range_id :: int
  crm_etag :: "string option"
  crm_change_feed_next_if_none_match :: "string option"

abbreviation INVALID_PK_RANGE_ID :: int where "INVALID_PK_RANGE_ID \<equiv> - 1"

definition routing_map_empty :: container_routing_map where
  "routing_map_empty =
     \<lparr>crm_range_by_id = [], crm_ordered_ranges = [], crm_gone_ranges = {},
      crm_highest_non_offline_pk_range_id = INVALID_PK_RANGE_ID, crm_etag = None,
      crm_change_feed_next_if_none_match = None\<rparr>"

section \<open>Validation\<close>

fun validate_loop :: "partition_key_range list \<Rightarrow> epk \<Rightarrow> routing_map_error + epk" where
  "validate_loop [] expected_min = Inr expected_min"
| "validate_loop (rng # rest) expected_min =
     (case epk_cmp (pkr_min_inclusive rng) expected_min of
        Greater \<Rightarrow> Inl IncompleteRanges
      | Less \<Rightarrow> Inl OverlappingRanges
      | Equal \<Rightarrow> validate_loop rest (pkr_max_exclusive rng))"

definition highest_id :: "partition_key_range list \<Rightarrow> int" where
  "highest_id ordered =
     (let ids = List.map_filter (\<lambda>r. if pkr_status r \<noteq> Offline then parse_i32 (pkr_id r) else None) ordered
      in if ids = [] then INVALID_PK_RANGE_ID else foldl max (hd ids) (tl ids))"

definition validate_and_build_index ::
  "partition_key_range list \<Rightarrow> routing_map_error + int \<times> (string, partition_key_range) hashmap" where
  "validate_and_build_index ordered =
     (case validate_loop ordered epk_MIN of
        Inl e \<Rightarrow> Inl e
      | Inr expected_min \<Rightarrow>
          if expected_min \<noteq> epk_MAX then Inl IncompleteRanges
          else Inr (highest_id ordered, fold (\<lambda>r. hm_insert (pkr_id r) r) ordered []))"

definition parent_ids :: "partition_key_range list \<Rightarrow> string set" where
  "parent_ids ranges = set (concat (List.map_filter pkr_parents ranges))"

definition try_create ::
  "partition_key_range list \<Rightarrow> string option \<Rightarrow> string option \<Rightarrow>
   routing_map_error + container_routing_map option" where
  "try_create ranges etag next_if_none_match =
     (if ranges = [] then Inr None
      else
        let gone = parent_ids ranges;
            filtered = filter (\<lambda>r. pkr_id r \<notin> gone) ranges
        in if filtered = [] then Inr None
           else
             let sorted = sort_by pkr_cmp filtered in
             case validate_and_build_index sorted of
               Inl e \<Rightarrow> Inl e
             | Inr (highest, range_by_id) \<Rightarrow>
                 Inr (Some \<lparr>crm_range_by_id = range_by_id, crm_ordered_ranges = sorted,
                   crm_gone_ranges = gone, crm_highest_non_offline_pk_range_id = highest,
                   crm_etag = etag, crm_change_feed_next_if_none_match = next_if_none_match\<rparr>))"

definition try_combine ::
  "container_routing_map \<Rightarrow> partition_key_range list \<Rightarrow> string option \<Rightarrow>
   routing_map_error + container_routing_map option" where
  "try_combine self new_ranges next_if_none_match =
     (let combined_gone = parent_ids new_ranges \<union> crm_gone_ranges self;
          kept = hm_retain (\<lambda>i r. i \<notin> combined_gone) (crm_range_by_id self);
          merged = fold (\<lambda>range m. if pkr_id range \<notin> combined_gone
                                   then hm_insert (pkr_id range) range m else m) new_ranges kept;
          sorted = sort_by pkr_cmp (map snd merged)
      in if sorted = [] then Inr None
         else case validate_and_build_index sorted of
           Inl IncompleteRanges \<Rightarrow> Inr None
         | Inl e \<Rightarrow> Inl e
         | Inr (highest, range_by_id) \<Rightarrow>
             Inr (Some \<lparr>crm_range_by_id = range_by_id, crm_ordered_ranges = sorted,
               crm_gone_ranges = combined_gone, crm_highest_non_offline_pk_range_id = highest,
               crm_etag = crm_etag self, crm_change_feed_next_if_none_match = next_if_none_match\<rparr>))"

section \<open>Lookups\<close>

text \<open>\<^verbatim>\<open>find_range_index\<close>; \<^term>\<open>None\<close> is the \<^verbatim>\<open>unreachable!\<close> panic.\<close>

definition find_range_index :: "container_routing_map \<Rightarrow> epk \<Rightarrow> nat option" where
  "find_range_index self epk =
     (case binary_search_by (\<lambda>r. epk_cmp (pkr_min_inclusive r) epk) (crm_ordered_ranges self) of
        Inr i \<Rightarrow> Some i
      | Inl i \<Rightarrow> if i > 0 then Some (i - 1) else None)"

text \<open>A lookup may panic, so its result has two layers: \<^term>\<open>None\<close> is the panic and
  \<^term>\<open>Some None\<close> the answer that no range was found.\<close>

definition get_range_by_effective_partition_key ::
  "container_routing_map \<Rightarrow> epk \<Rightarrow> partition_key_range option option" where
  "get_range_by_effective_partition_key self epk =
     (if crm_ordered_ranges self = [] then Some None
      else if epk = [] then Some (Some (crm_ordered_ranges self ! 0))
      else case find_range_index self epk of
        None \<Rightarrow> None
      | Some idx \<Rightarrow>
          (let range = crm_ordered_ranges self ! idx in
           if epk_le (pkr_min_inclusive range) epk \<and> epk_lt epk (pkr_max_exclusive range)
           then Some (Some range) else Some None))"

definition routing_map_range :: "container_routing_map \<Rightarrow> string \<Rightarrow> partition_key_range option" where
  "routing_map_range self i = hm_get (crm_range_by_id self) i"

definition is_gone :: "container_routing_map \<Rightarrow> string \<Rightarrow> bool" where
  "is_gone self i \<longleftrightarrow> i \<in> crm_gone_ranges self"

definition overlapping_range_bounds :: "container_routing_map \<Rightarrow> epk \<Rightarrow> epk \<Rightarrow> (nat \<times> nat) option option" where
  "overlapping_range_bounds self min_epk max_epk =
     (if crm_ordered_ranges self = [] then Some None
      else case find_range_index self min_epk of
        None \<Rightarrow> None
      | Some start_idx \<Rightarrow>
          Some (Some (start_idx,
            partition_point (\<lambda>r. epk_lt (pkr_min_inclusive r) max_epk)
              (drop start_idx (crm_ordered_ranges self)) + start_idx)))"

definition get_overlapping_ranges ::
  "container_routing_map \<Rightarrow> epk \<Rightarrow> epk \<Rightarrow> partition_key_range list option" where
  "get_overlapping_ranges self min_epk max_epk =
     (case overlapping_range_bounds self min_epk max_epk of
        None \<Rightarrow> None
      | Some None \<Rightarrow> Some []
      | Some (Some (start_idx, end_idx)) \<Rightarrow>
          Some (take (end_idx - start_idx) (drop start_idx (crm_ordered_ranges self))))"

text \<open>In a release build the debug assertion of the multi-partition case is absent.\<close>

definition single_overlapping_range_id :: "container_routing_map \<Rightarrow> epk \<Rightarrow> epk \<Rightarrow> string option option" where
  "single_overlapping_range_id self min_epk max_epk =
     (case overlapping_range_bounds self min_epk max_epk of
        None \<Rightarrow> None
      | Some None \<Rightarrow> Some None
      | Some (Some (start_idx, end_idx)) \<Rightarrow>
          if end_idx - start_idx = 0 then Some None
          else if end_idx - start_idx = 1 then Some (Some (pkr_id (crm_ordered_ranges self ! start_idx)))
          else Some None)"

section \<open>The invariant\<close>

text \<open>What a successful constructor guarantees: a non-empty list, ordered by lower bound, that tiles
  the key space from the minimum to the maximum key; an index that knows exactly the listed ranges;
  and no listed range that is a parent of another.\<close>

definition routing_wf :: "container_routing_map \<Rightarrow> bool" where
  "routing_wf m \<longleftrightarrow>
     crm_ordered_ranges m \<noteq> [] \<and>
     sorted_wrt (\<lambda>x y. pkr_cmp x y \<noteq> Greater) (crm_ordered_ranges m) \<and>
     validate_loop (crm_ordered_ranges m) epk_MIN = Inr epk_MAX \<and>
     crm_range_by_id m = fold (\<lambda>r. hm_insert (pkr_id r) r) (crm_ordered_ranges m) [] \<and>
     (\<forall>r \<in> set (crm_ordered_ranges m). pkr_id r \<notin> crm_gone_ranges m)"

lemma pkr_sorted: "sorted_wrt (\<lambda>x y. pkr_cmp x y \<noteq> Greater) (sort_by pkr_cmp rs)"
  using epk_ord.sorted_sort_by [of pkr_min_inclusive rs] by (simp add: pkr_cmp_def [abs_def])

lemma validate_and_build_index_Inr:
  "validate_and_build_index rs = Inr (h, idx) \<Longrightarrow>
   validate_loop rs epk_MIN = Inr epk_MAX \<and> h = highest_id rs \<and> idx = fold (\<lambda>r. hm_insert (pkr_id r) r) rs []"
  by (auto simp: validate_and_build_index_def split: sum.splits if_splits)

lemma try_create_wf:
  assumes "try_create rs etag nxt = Inr (Some m)"
  shows "routing_wf m \<and> set (crm_ordered_ranges m) = {r \<in> set rs. pkr_id r \<notin> parent_ids rs} \<and>
    crm_gone_ranges m = parent_ids rs"
proof -
  let ?f = "filter (\<lambda>r. pkr_id r \<notin> parent_ids rs) rs"
  obtain h idx where v: "validate_and_build_index (sort_by pkr_cmp ?f) = Inr (h, idx)" and ne: "?f \<noteq> []"
    and m: "m = \<lparr>crm_range_by_id = idx, crm_ordered_ranges = sort_by pkr_cmp ?f,
      crm_gone_ranges = parent_ids rs, crm_highest_non_offline_pk_range_id = h, crm_etag = etag,
      crm_change_feed_next_if_none_match = nxt\<rparr>"
    using assms by (auto simp: try_create_def Let_def split: if_splits sum.splits)
  from validate_and_build_index_Inr [OF v] ne pkr_sorted [of ?f] show ?thesis
    by (auto simp: routing_wf_def m simp del: filter_empty_conv)
qed

lemma fold_insert_new_wf:
  "hm_wf m \<Longrightarrow> hm_wf (fold (\<lambda>rng m. if P rng then hm_insert (pkr_id rng) rng m else m) rs m)"
  by (induction rs arbitrary: m) auto

lemma fold_insert_new_get:
  "hm_get (fold (\<lambda>rng m. if P rng then hm_insert (pkr_id rng) rng m else m) rs m) i = Some r \<Longrightarrow>
   (r \<in> set rs \<and> P r \<and> pkr_id r = i) \<or> hm_get m i = Some r"
proof (induction rs arbitrary: m)
  case Nil
  then show ?case by simp
next
  case (Cons x rs)
  then show ?case by (fastforce simp: hm_simps split: if_splits)
qed

lemma index_get_mem:
  "hm_get (fold (\<lambda>r. hm_insert (pkr_id r) r) rs []) i = Some r \<Longrightarrow> r \<in> set rs \<and> pkr_id r = i"
  using fold_insert_new_get [of "\<lambda>_. True" rs "[]" i r] by simp

lemma index_hm_wf: "hm_wf (fold (\<lambda>r. hm_insert (pkr_id r) r) rs [])"
  using fold_insert_new_wf [of "[]" "\<lambda>_. True" rs] by simp

lemma try_combine_wf:
  assumes m: "routing_wf m" and c: "try_combine m new nxt = Inr (Some m')"
  shows "routing_wf m' \<and> crm_gone_ranges m' = parent_ids new \<union> crm_gone_ranges m \<and>
    set (crm_ordered_ranges m') \<subseteq> set (crm_ordered_ranges m) \<union> set new"
proof -
  let ?gone = "parent_ids new \<union> crm_gone_ranges m"
  let ?kept = "hm_retain (\<lambda>i r. i \<notin> ?gone) (crm_range_by_id m)"
  let ?merged = "fold (\<lambda>rng m. if pkr_id rng \<notin> ?gone then hm_insert (pkr_id rng) rng m else m) new ?kept"
  obtain h idx where v: "validate_and_build_index (sort_by pkr_cmp (map snd ?merged)) = Inr (h, idx)"
    and ne: "map snd ?merged \<noteq> []"
    and m': "m' = \<lparr>crm_range_by_id = idx, crm_ordered_ranges = sort_by pkr_cmp (map snd ?merged),
      crm_gone_ranges = ?gone, crm_highest_non_offline_pk_range_id = h, crm_etag = crm_etag m,
      crm_change_feed_next_if_none_match = nxt\<rparr>"
    using c by (auto simp: try_combine_def Let_def split: if_splits sum.splits routing_map_error.splits)
  have byid: "crm_range_by_id m = fold (\<lambda>r. hm_insert (pkr_id r) r) (crm_ordered_ranges m) []"
    using m by (simp add: routing_wf_def)
  have kept: "hm_wf ?kept" unfolding byid by (rule hm_wf_retain [OF index_hm_wf])
  have mem: "r \<in> set (crm_ordered_ranges m) \<union> set new \<and> pkr_id r \<notin> ?gone"
    if "r \<in> set (map snd ?merged)" for r
  proof -
    from that obtain i where "(i, r) \<in> set ?merged" by auto
    then have "hm_get ?merged i = Some r"
      by (rule hm_get_iff_mem [OF fold_insert_new_wf [OF kept], THEN iffD2])
    from fold_insert_new_get [OF this] show ?thesis
    proof
      assume "hm_get ?kept i = Some r"
      then have "hm_get (crm_range_by_id m) i = Some r" "i \<notin> ?gone"
        unfolding byid hm_get_retain [OF index_hm_wf] by (auto split: option.splits if_splits)
      then show ?thesis using index_get_mem [of "crm_ordered_ranges m" i r] by (simp add: byid)
    qed blast
  qed
  define rs where "rs = map snd ?merged"
  have "r \<in> set (crm_ordered_ranges m) \<union> set new \<and> pkr_id r \<notin> ?gone" if "r \<in> set rs" for r
    using mem that unfolding rs_def .
  then show ?thesis
    using validate_and_build_index_Inr [OF v] ne pkr_sorted [of rs]
    unfolding routing_wf_def m' rs_def [symmetric] by auto
qed

section \<open>Tiling\<close>

lemma validate_loop_adjacent:
  "validate_loop rs e = Inr mx \<Longrightarrow> Suc i < length rs \<Longrightarrow>
   epk_cmp (pkr_min_inclusive (rs ! Suc i)) (pkr_max_exclusive (rs ! i)) = Equal"
proof (induction rs e arbitrary: i rule: validate_loop.induct)
  case (2 r rest e)
  have rest: "validate_loop rest (pkr_max_exclusive r) = Inr mx"
    and eq: "epk_cmp (pkr_min_inclusive r) e = Equal"
    using "2.prems"(1) by (auto split: ordering.splits)
  show ?case
  proof (cases i)
    case 0
    with "2.prems"(2) obtain r' rest' where "rest = r' # rest'" by (cases rest) auto
    with rest 0 show ?thesis by (auto split: ordering.splits)
  next
    case (Suc k)
    with "2.IH" [OF eq rest] "2.prems"(2) show ?thesis by simp
  qed
qed simp

lemma validate_loop_first:
  "validate_loop rs e = Inr mx \<Longrightarrow> rs \<noteq> [] \<Longrightarrow> epk_cmp (pkr_min_inclusive (rs ! 0)) e = Equal"
  by (cases rs) (auto split: ordering.splits)

lemma validate_loop_last:
  "validate_loop rs e = Inr mx \<Longrightarrow> rs \<noteq> [] \<Longrightarrow> pkr_max_exclusive (rs ! (length rs - 1)) = mx"
proof (induction rs e rule: validate_loop.induct)
  case (2 r rest e)
  have rest: "validate_loop rest (pkr_max_exclusive r) = Inr mx"
    and eq: "epk_cmp (pkr_min_inclusive r) e = Equal"
    using "2.prems"(1) by (auto split: ordering.splits)
  show ?case
  proof (cases "rest = []")
    case True
    with rest show ?thesis by simp
  next
    case False
    with "2.IH" [OF eq rest] show ?thesis by (cases rest) simp_all
  qed
qed simp

lemma epk_equal_le: "epk_cmp a b = Equal \<Longrightarrow> epk_le a b \<and> epk_le b a"
  by (simp add: epk_le_def epk_ord.equal_iff)

text \<open>The facts about a well-formed map that the searches need, by index.\<close>

lemma routing_min_mono:
  assumes "routing_wf m" "i \<le> j" "j < length (crm_ordered_ranges m)"
  shows "epk_le (pkr_min_inclusive (crm_ordered_ranges m ! i)) (pkr_min_inclusive (crm_ordered_ranges m ! j))"
  using epk_ord.sorted_nth_le [of pkr_min_inclusive "crm_ordered_ranges m" i j] assms
  by (simp add: routing_wf_def pkr_cmp_def epk_le_def)

lemma routing_max_le_min:
  assumes m: "routing_wf m" and ij: "i < j" "j < length (crm_ordered_ranges m)"
  shows "epk_le (pkr_max_exclusive (crm_ordered_ranges m ! i)) (pkr_min_inclusive (crm_ordered_ranges m ! j))"
proof -
  have "epk_cmp (pkr_min_inclusive (crm_ordered_ranges m ! Suc i)) (pkr_max_exclusive (crm_ordered_ranges m ! i)) = Equal"
    using m ij validate_loop_adjacent [of "crm_ordered_ranges m" epk_MIN epk_MAX i] by (simp add: routing_wf_def)
  moreover have "epk_le (pkr_min_inclusive (crm_ordered_ranges m ! Suc i)) (pkr_min_inclusive (crm_ordered_ranges m ! j))"
    using routing_min_mono [OF m, of "Suc i" j] ij by simp
  ultimately show ?thesis using epk_equal_le epk_le_trans by blast
qed

lemma routing_first_min:
  "routing_wf m \<Longrightarrow> epk_le (pkr_min_inclusive (crm_ordered_ranges m ! 0)) e"
  using validate_loop_first [of "crm_ordered_ranges m" epk_MIN epk_MAX] epk_equal_le epk_le_trans epk_MIN_least
  unfolding routing_wf_def by blast

text \<open>The searched index: every range up to it starts at or below the key, every later one above it,
  and the key is below the upper bound of the range found and of every later one.\<close>

lemma find_range_index_spec:
  assumes m: "routing_wf m"
  shows "\<exists>s. find_range_index m e = Some s \<and> s < length (crm_ordered_ranges m) \<and>
    (\<forall>j \<le> s. epk_le (pkr_min_inclusive (crm_ordered_ranges m ! j)) e) \<and>
    (\<forall>j. s < j \<and> j < length (crm_ordered_ranges m) \<longrightarrow>
      epk_lt e (pkr_min_inclusive (crm_ordered_ranges m ! j)))"
proof -
  let ?rs = "crm_ordered_ranges m" and ?f = "\<lambda>r. epk_cmp (pkr_min_inclusive r) e"
  have ord: "probe_ordered ?f ?rs"
    using m epk_ord.sorted_probe_ordered [of pkr_min_inclusive ?rs e]
    by (simp add: routing_wf_def pkr_cmp_def)
  have gt: "?f r = Greater \<longleftrightarrow> epk_lt e (pkr_min_inclusive r)" for r
    by (simp add: epk_lt_def epk_ord.cmp_swap)
  have le: "epk_le (pkr_min_inclusive (?rs ! j)) e"
    if "j \<le> s" "s < length ?rs" "epk_le (pkr_min_inclusive (?rs ! s)) e" for j s
    using routing_min_mono [OF m that(1,2)] that(3) by (rule epk_le_trans)
  show ?thesis
  proof (cases "binary_search_by ?f ?rs")
    case (Inr i)
    have "i < length ?rs" "epk_le (pkr_min_inclusive (?rs ! i)) e"
      using binary_search_by_Inr [OF Inr ord] by (auto simp: epk_le_def)
    moreover have "epk_lt e (pkr_min_inclusive (?rs ! j))" if "i < j" "j < length ?rs" for j
      by (rule gt [THEN iffD1, OF binary_search_by_rightmost [OF Inr ord that]])
    ultimately show ?thesis using Inr le by (auto simp: find_range_index_def)
  next
    case (Inl i)
    note spec = binary_search_by_Inl [OF Inl ord]
    have "i > 0"
    proof (rule ccontr)
      assume "\<not> i > 0"
      moreover have "0 < length ?rs" using m by (simp add: routing_wf_def)
      ultimately have "epk_lt e (pkr_min_inclusive (?rs ! 0))" using spec by (intro gt [THEN iffD1]) simp
      with routing_first_min [OF m, of e] show False using epk_not_le by blast
    qed
    moreover have "epk_le (pkr_min_inclusive (?rs ! (i - 1))) e"
      using spec \<open>i > 0\<close> by (simp add: epk_le_def)
    moreover have "epk_lt e (pkr_min_inclusive (?rs ! j))" if "i - 1 < j" "j < length ?rs" for j
      using spec that by (intro gt [THEN iffD1]) simp
    ultimately show ?thesis using Inl le spec by (auto simp: find_range_index_def)
  qed
qed

lemma above_search_index:
  assumes m: "routing_wf m" and e: "epk_lt e epk_MAX"
    and s: "\<forall>j. s < j \<and> j < length (crm_ordered_ranges m) \<longrightarrow>
      epk_lt e (pkr_min_inclusive (crm_ordered_ranges m ! j))"
    and j: "s \<le> j" "j < length (crm_ordered_ranges m)"
  shows "epk_lt e (pkr_max_exclusive (crm_ordered_ranges m ! j))"
proof (cases "Suc j < length (crm_ordered_ranges m)")
  case True
  then have "epk_cmp (pkr_min_inclusive (crm_ordered_ranges m ! Suc j)) (pkr_max_exclusive (crm_ordered_ranges m ! j)) = Equal"
    using m validate_loop_adjacent [of "crm_ordered_ranges m" epk_MIN epk_MAX j] by (simp add: routing_wf_def)
  moreover have "epk_lt e (pkr_min_inclusive (crm_ordered_ranges m ! Suc j))" using s True j by simp
  ultimately show ?thesis using epk_equal_le epk_lt_le_trans by blast
next
  case False
  then have "j = length (crm_ordered_ranges m) - 1" using j by simp
  then have "pkr_max_exclusive (crm_ordered_ranges m ! j) = epk_MAX"
    using m validate_loop_last [of "crm_ordered_ranges m" epk_MIN epk_MAX] by (simp add: routing_wf_def)
  then show ?thesis using e by simp
qed

lemma routing_owner_unique:
  assumes m: "routing_wf m" and ij: "i < length (crm_ordered_ranges m)" "j < length (crm_ordered_ranges m)"
    and i: "epk_range_contains epk_cmp (pkr_as_range (crm_ordered_ranges m ! i)) e"
    and j: "epk_range_contains epk_cmp (pkr_as_range (crm_ordered_ranges m ! j)) e"
  shows "i = j"
proof (rule ccontr)
  assume "i \<noteq> j"
  then consider "i < j" | "j < i" by linarith
  then show False
  proof cases
    case 1
    then show ?thesis
      using routing_max_le_min [OF m 1 ij(2)] i j
      by (metis epk_le_lt_trans epk_le_trans epk_not_le pkr_contains_iff epk_le_refl)
  next
    case 2
    then show ?thesis
      using routing_max_le_min [OF m 2 ij(1)] i j
      by (metis epk_le_lt_trans epk_le_trans epk_not_le pkr_contains_iff epk_le_refl)
  qed
qed

lemma overlapping_slice:
  assumes m: "routing_wf m" and a: "epk_lt a epk_MAX" and ab: "epk_lt a b"
  shows "\<exists>s e. overlapping_range_bounds m a b = Some (Some (s, e)) \<and> s < e \<and>
    e \<le> length (crm_ordered_ranges m) \<and>
    (\<forall>j < length (crm_ordered_ranges m).
      (epk_lt (pkr_min_inclusive (crm_ordered_ranges m ! j)) b \<and>
       epk_lt a (pkr_max_exclusive (crm_ordered_ranges m ! j))) \<longleftrightarrow> s \<le> j \<and> j < e)"
proof -
  let ?rs = "crm_ordered_ranges m"
  obtain s where s: "find_range_index m a = Some s" "s < length ?rs"
    and lo: "\<forall>j \<le> s. epk_le (pkr_min_inclusive (?rs ! j)) a"
    and hi: "\<forall>j. s < j \<and> j < length ?rs \<longrightarrow> epk_lt a (pkr_min_inclusive (?rs ! j))"
    using find_range_index_spec [OF m, of a] by blast
  let ?p = "partition_point (\<lambda>r. epk_lt (pkr_min_inclusive r) b) (drop s ?rs)"
  have "sorted_wrt (\<lambda>x y. epk_cmp (pkr_min_inclusive x) (pkr_min_inclusive y) \<noteq> Greater) (drop s ?rs)"
    using m by (simp add: routing_wf_def pkr_cmp_def sorted_wrt_drop)
  from epk_ord.sorted_partition_point [OF this, of b]
  have p: "?p \<le> length ?rs - s" "\<forall>j < ?p. epk_lt (pkr_min_inclusive (?rs ! (s + j))) b"
    "\<forall>j. ?p \<le> j \<and> j < length ?rs - s \<longrightarrow> \<not> epk_lt (pkr_min_inclusive (?rs ! (s + j))) b"
    using s(2) by (simp_all add: epk_lt_def)
  have p0: "0 < ?p"
  proof (rule ccontr)
    assume "\<not> 0 < ?p"
    with p(3) s(2) have "\<not> epk_lt (pkr_min_inclusive (?rs ! s)) b" by (metis add_0_right not_gr_zero le_refl zero_less_diff)
    moreover have "epk_lt (pkr_min_inclusive (?rs ! s)) b" using lo ab epk_le_lt_trans by blast
    ultimately show False by blast
  qed
  have "(epk_lt (pkr_min_inclusive (?rs ! j)) b \<and> epk_lt a (pkr_max_exclusive (?rs ! j))) \<longleftrightarrow>
      s \<le> j \<and> j < ?p + s" if j: "j < length ?rs" for j
  proof (cases "s \<le> j")
    case True
    then obtain k where k: "j = s + k" by (auto simp: le_iff_add)
    have "epk_lt a (pkr_max_exclusive (?rs ! j))" by (rule above_search_index [OF m a hi True j])
    moreover have "epk_lt (pkr_min_inclusive (?rs ! j)) b \<longleftrightarrow> k < ?p"
      using p(2,3) j k by (metis add.commute less_diff_conv not_le)
    ultimately show ?thesis using True k by auto
  next
    case False
    then have "epk_le (pkr_max_exclusive (?rs ! j)) (pkr_min_inclusive (?rs ! s))"
      using routing_max_le_min [OF m _ s(2)] by simp
    then have "epk_le (pkr_max_exclusive (?rs ! j)) a" using lo epk_le_trans by blast
    then have "\<not> epk_lt a (pkr_max_exclusive (?rs ! j))" using epk_not_le by blast
    with False show ?thesis by simp
  qed
  moreover have "overlapping_range_bounds m a b = Some (Some (s, ?p + s))"
    using s m by (simp add: overlapping_range_bounds_def routing_wf_def)
  moreover have "?p + s \<le> length ?rs" using p(1) s(2) by simp
  ultimately show ?thesis using p0 by (intro exI conjI) auto
qed

section \<open>Properties\<close>

lemma overlapping_filter:
  assumes "routing_wf m" and "epk_lt a epk_MAX" and "epk_lt a b"
  shows "get_overlapping_ranges m a b =
      Some (filter (\<lambda>r. epk_lt (pkr_min_inclusive r) b \<and> epk_lt a (pkr_max_exclusive r)) (crm_ordered_ranges m)) \<and>
    get_overlapping_ranges m a b \<noteq> Some []"
proof -
  obtain s e where b: "overlapping_range_bounds m a b = Some (Some (s, e))" "s < e"
      "e \<le> length (crm_ordered_ranges m)"
    and P: "\<forall>j < length (crm_ordered_ranges m).
      (epk_lt (pkr_min_inclusive (crm_ordered_ranges m ! j)) b \<and>
       epk_lt a (pkr_max_exclusive (crm_ordered_ranges m ! j))) \<longleftrightarrow> s \<le> j \<and> j < e"
    using overlapping_slice [OF assms] by blast
  have "filter (\<lambda>r. epk_lt (pkr_min_inclusive r) b \<and> epk_lt a (pkr_max_exclusive r)) (crm_ordered_ranges m) =
      take (e - s) (drop s (crm_ordered_ranges m))"
    by (rule filter_slice) (use P in blast)
  then show ?thesis using b by (simp add: get_overlapping_ranges_def)
qed

lemmas try_create_eval = try_create_def parent_ids_def List.map_filter_simps partition_key_range_new_def
  sort_by_def pkr_cmp_def epk_cmp_def validate_and_build_index_def Let_def

text \<open>C28. A routing map that the constructor accepts is well formed: its ranges are exactly the input
  ranges that no other input range names as a parent, ordered and tiling the key space from the
  minimum to the maximum key without gap or overlap.\<close>

theorem try_create_tiles:
  assumes "try_create rs etag nxt = Inr (Some m)"
  shows "routing_wf m \<and> set (crm_ordered_ranges m) = {r \<in> set rs. pkr_id r \<notin> parent_ids rs} \<and>
    pkr_max_exclusive (last (crm_ordered_ranges m)) = epk_MAX \<and>
    epk_cmp (pkr_min_inclusive (hd (crm_ordered_ranges m))) epk_MIN = Equal \<and>
    (\<forall>i. Suc i < length (crm_ordered_ranges m) \<longrightarrow>
       epk_cmp (pkr_min_inclusive (crm_ordered_ranges m ! Suc i)) (pkr_max_exclusive (crm_ordered_ranges m ! i)) = Equal)"
proof -
  have wf: "routing_wf m" using try_create_wf [OF assms] by simp
  then have v: "validate_loop (crm_ordered_ranges m) epk_MIN = Inr epk_MAX" "crm_ordered_ranges m \<noteq> []"
    by (simp_all add: routing_wf_def)
  show ?thesis
    using wf try_create_wf [OF assms] validate_loop_adjacent [OF v(1)] validate_loop_first [OF v]
      validate_loop_last [OF v] v(2) by (simp add: last_conv_nth hd_conv_nth)
qed

theorem try_create_tiles_witness:
  "\<exists>m. try_create [partition_key_range_new ''1'' [0x20] [0xFF], partition_key_range_new ''0'' [] [0x20]] None None = Inr (Some m) \<and>
     routing_wf m \<and> map pkr_id (crm_ordered_ranges m) = [''0'', ''1'']"
proof -
  let ?rs = "[partition_key_range_new ''1'' [0x20] [0xFF], partition_key_range_new ''0'' [] [0x20]]"
  have "\<exists>m. try_create ?rs None None = Inr (Some m) \<and> map pkr_id (crm_ordered_ranges m) = [''0'', ''1'']"
    by (simp add: try_create_eval)
  then show ?thesis
  proof (elim exE conjE)
    fix m
    assume m: "try_create ?rs None None = Inr (Some m)" "map pkr_id (crm_ordered_ranges m) = [''0'', ''1'']"
    show ?thesis by (intro exI [of _ m] conjI m try_create_tiles [OF m(1), THEN conjunct1])
  qed
qed

text \<open>C29. Every key has exactly one owner and the lookup returns it: in a well-formed map, for every key
  below the maximum, the binary search neither panics nor fails, the range it returns contains the
  key, and no other range of the map does. (For the empty key the first range must not be empty.)\<close>

theorem lookup_returns_unique_owner:
  assumes "routing_wf m" and "epk_lt e epk_MAX"
    and "e = [] \<longrightarrow> epk_lt [] (pkr_max_exclusive (hd (crm_ordered_ranges m)))"
  shows "\<exists>i < length (crm_ordered_ranges m).
    get_range_by_effective_partition_key m e = Some (Some (crm_ordered_ranges m ! i)) \<and>
    epk_range_contains epk_cmp (pkr_as_range (crm_ordered_ranges m ! i)) e \<and>
    (\<forall>j < length (crm_ordered_ranges m).
       epk_range_contains epk_cmp (pkr_as_range (crm_ordered_ranges m ! j)) e \<longrightarrow> j = i)"
proof -
  let ?rs = "crm_ordered_ranges m"
  have ne: "?rs \<noteq> []" using assms(1) by (simp add: routing_wf_def)
  have "\<exists>i < length ?rs. get_range_by_effective_partition_key m e = Some (Some (?rs ! i)) \<and>
      epk_range_contains epk_cmp (pkr_as_range (?rs ! i)) e"
  proof (cases "e = []")
    case True
    then show ?thesis
      using ne assms(3) routing_first_min [OF assms(1), of e]
      by (intro exI [of _ 0])
        (simp add: get_range_by_effective_partition_key_def pkr_contains_iff hd_conv_nth)
  next
    case False
    obtain s where s: "find_range_index m e = Some s" "s < length ?rs"
      "\<forall>j \<le> s. epk_le (pkr_min_inclusive (?rs ! j)) e"
      "\<forall>j. s < j \<and> j < length ?rs \<longrightarrow> epk_lt e (pkr_min_inclusive (?rs ! j))"
      using find_range_index_spec [OF assms(1), of e] by blast
    have "epk_lt e (pkr_max_exclusive (?rs ! s))"
      by (rule above_search_index [OF assms(1,2) s(4) le_refl s(2)])
    then show ?thesis
      using s ne False
      by (intro exI [of _ s])
        (simp add: get_range_by_effective_partition_key_def pkr_contains_iff Let_def)
  qed
  then show ?thesis using routing_owner_unique [OF assms(1)] by metis
qed

theorem lookup_returns_unique_owner_witness:
  "\<exists>m r. try_create [partition_key_range_new ''1'' [0x20] [0xFF], partition_key_range_new ''0'' [] [0x20]] None None = Inr (Some m) \<and>
     get_range_by_effective_partition_key m [0x21, 0x05] = Some (Some r)"
proof -
  let ?rs = "[partition_key_range_new ''1'' [0x20] [0xFF], partition_key_range_new ''0'' [] [0x20]]"
  obtain m where m: "try_create ?rs None None = Inr (Some m)"
    by (simp add: try_create_eval)
  moreover have "epk_lt [0x21, 0x05] epk_MAX" by (simp add: epk_lt_def epk_cmp_def)
  ultimately show ?thesis
    using lookup_returns_unique_owner [of m "[0x21, 0x05]"] try_create_wf [OF m] by blast
qed

text \<open>C30. The two binary searches compute the overlapping ranges: in a well-formed map, for a non-empty key range
  that starts below the maximum, \<^verbatim>\<open>get_overlapping_ranges\<close> does not panic and returns, in order, exactly the
  ranges of the map that a linear scan with the overlap test would select, at least one.\<close>

theorem overlapping_ranges_equiv_scan:
  assumes "routing_wf m" and "epk_lt a epk_MAX" and "epk_lt a b"
  shows "get_overlapping_ranges m a b =
      Some (filter (\<lambda>r. epk_lt (pkr_min_inclusive r) b \<and> epk_lt a (pkr_max_exclusive r)) (crm_ordered_ranges m)) \<and>
    get_overlapping_ranges m a b \<noteq> Some []"
  by (rule overlapping_filter [OF assms])

theorem overlapping_ranges_equiv_scan_witness:
  "\<exists>m. try_create [partition_key_range_new ''1'' [0x20] [0xFF], partition_key_range_new ''0'' [] [0x20]] None None = Inr (Some m) \<and>
     get_overlapping_ranges m [0x10] [0x30] =
       Some (filter (\<lambda>r. epk_lt (pkr_min_inclusive r) [0x30] \<and> epk_lt [0x10] (pkr_max_exclusive r)) (crm_ordered_ranges m))"
proof -
  let ?rs = "[partition_key_range_new ''1'' [0x20] [0xFF], partition_key_range_new ''0'' [] [0x20]]"
  obtain m where m: "try_create ?rs None None = Inr (Some m)"
    by (simp add: try_create_eval)
  moreover have "epk_lt [0x10] epk_MAX" "epk_lt [0x10] [0x30]" by (simp_all add: epk_lt_def epk_cmp_def)
  ultimately show ?thesis
    using overlapping_ranges_equiv_scan [of m "[0x10]" "[0x30]"] try_create_wf [OF m] by blast
qed

text \<open>C31. An incremental refresh keeps the map valid: when the change-feed ranges combine with a
  well-formed map into a new map, the new map is well formed, its ranges come from the old map or
  from the refresh, and no range known to be split, before or now, is among them.\<close>

theorem try_combine_keeps_invariant:
  assumes "routing_wf m" and "try_combine m new_ranges nxt = Inr (Some m')"
  shows "routing_wf m' \<and> set (crm_ordered_ranges m') \<subseteq> set (crm_ordered_ranges m) \<union> set new_ranges \<and>
    (\<forall>i. is_gone m i \<or> i \<in> parent_ids new_ranges \<longrightarrow> is_gone m' i \<and> routing_map_range m' i = None)"
proof -
  note c = try_combine_wf [OF assms]
  have "routing_map_range m' i = None" if "i \<in> crm_gone_ranges m'" for i
  proof (rule ccontr)
    assume "routing_map_range m' i \<noteq> None"
    then obtain r where "hm_get (crm_range_by_id m') i = Some r" by (auto simp: routing_map_range_def)
    then have "r \<in> set (crm_ordered_ranges m')" "pkr_id r = i"
      using c index_get_mem [of "crm_ordered_ranges m'" i r] by (auto simp: routing_wf_def)
    with c that show False by (auto simp: routing_wf_def)
  qed
  with c show ?thesis by (auto simp: is_gone_def)
qed

theorem try_combine_keeps_invariant_witness:
  "let old = partition_key_range_new ''0'' [] [0xFF];
       a = (partition_key_range_new ''1'' [] [0x20])\<lparr>pkr_parents := Some [''0'']\<rparr>;
       b = (partition_key_range_new ''2'' [0x20] [0xFF])\<lparr>pkr_parents := Some [''0'']\<rparr>
   in \<exists>m m'. try_create [old] None None = Inr (Some m) \<and> try_combine m [a, b] None = Inr (Some m') \<and>
        routing_wf m' \<and> routing_map_range m' ''0'' = None"
proof -
  let ?old = "partition_key_range_new ''0'' [] [0xFF]"
  let ?a = "(partition_key_range_new ''1'' [] [0x20])\<lparr>pkr_parents := Some [''0'']\<rparr>"
  let ?b = "(partition_key_range_new ''2'' [0x20] [0xFF])\<lparr>pkr_parents := Some [''0'']\<rparr>"
  obtain m where m: "try_create [?old] None None = Inr (Some m)"
    and mm: "crm_gone_ranges m = {}" "crm_range_by_id m = [(''0'', ?old)]"
    by (simp add: try_create_eval)
  have "\<exists>m'. try_combine m [?a, ?b] None = Inr (Some m')"
    by (simp add: try_combine_def mm hm_retain_def try_create_eval)
  then obtain m' where m': "try_combine m [?a, ?b] None = Inr (Some m')" by blast
  have "''0'' \<in> parent_ids [?a, ?b]" by (simp add: parent_ids_def List.map_filter_simps)
  with try_combine_keeps_invariant [OF _ m'] try_create_wf [OF m] m m' show ?thesis
    unfolding Let_def by blast
qed

end
