(* ===== verification/Key_Order.thy ===== *)
theory Key_Order
  imports Complex_Main Partition_Cache
begin

text \<open>
  Keys as fractions. The order of effective partition keys compares them as if padded with zeros, so it is
  the order of the numbers that the keys are as the digits after the point, base 256. With this the
  reasoning about bounds of ranges is linear arithmetic. On top of it stand the keys of a feed range and the
  sorted lists of ranges that the planner and the topology work with.
\<close>

section \<open>Keys as fractions\<close>

definition epk_frac :: "epk \<Rightarrow> rat" where
  "epk_frac e = rat_of_nat (be_val e) / 256 ^ length e"

lemma epk_frac_nonneg [simp]: "0 \<le> epk_frac e"
  by (simp add: epk_frac_def)

named_theorems epk_order \<open>comparisons of keys as comparisons of fractions\<close>

lemma epk_frac_val: "length e \<le> n \<Longrightarrow> epk_frac e = rat_of_nat (epk_val n e) / 256 ^ n"
proof -
  assume "length e \<le> n"
  then obtain d where n: "n = length e + d" by (auto simp: le_iff_add)
  show ?thesis by (simp add: epk_frac_def epk_val_def n power_add field_simps)
qed

lemma epk_le_frac [epk_order]: "epk_le a b \<longleftrightarrow> epk_frac a \<le> epk_frac b"
proof -
  let ?n = "max (length a) (length b)"
  show ?thesis
    using epk_frac_val[of a ?n] epk_frac_val[of b ?n] by (simp add: epk_le_val[of a ?n b] divide_le_cancel)
qed

lemma epk_lt_frac [epk_order]: "epk_lt a b \<longleftrightarrow> epk_frac a < epk_frac b"
  using epk_le_frac[of b a] epk_not_le[of b a] by auto

lemma epk_equal_frac [epk_order]: "epk_cmp a b = Equal \<longleftrightarrow> epk_frac a = epk_frac b"
proof -
  have "epk_cmp a b = Equal \<longleftrightarrow> epk_le a b \<and> epk_le b a"
    by (cases "epk_cmp a b") (auto simp: epk_le_def epk_ord.equal_iff epk_ord.cmp_swap)
  then show ?thesis by (auto simp: epk_le_frac)
qed

section \<open>The keys of a range\<close>

definition in_feed_range :: "feed_range \<Rightarrow> epk \<Rightarrow> bool" where
  "in_feed_range r k \<longleftrightarrow> epk_le (fr_min_inclusive r) k \<and> epk_lt k (fr_max_exclusive r)"

text \<open>A range that holds a key and lies inside the key space.\<close>

definition proper_range :: "feed_range \<Rightarrow> bool" where
  "proper_range r \<longleftrightarrow> epk_lt (fr_min_inclusive r) (fr_max_exclusive r) \<and> epk_le (fr_max_exclusive r) epk_MAX"

abbreviation fr_lo :: "feed_range \<Rightarrow> rat" where "fr_lo r \<equiv> epk_frac (fr_min_inclusive r)"
abbreviation fr_hi :: "feed_range \<Rightarrow> rat" where "fr_hi r \<equiv> epk_frac (fr_max_exclusive r)"

lemma in_feed_range_frac [epk_order]: "in_feed_range r k \<longleftrightarrow> fr_lo r \<le> epk_frac k \<and> epk_frac k < fr_hi r"
  by (simp add: in_feed_range_def epk_order)

lemma proper_range_frac [epk_order]: "proper_range r \<longleftrightarrow> fr_lo r < fr_hi r \<and> fr_hi r \<le> epk_frac epk_MAX"
  by (simp add: proper_range_def epk_order)

lemma proper_has_key: "proper_range r \<Longrightarrow> in_feed_range r (fr_min_inclusive r)"
  by (simp add: epk_order)

text \<open>Ranges in order, each ending where or before the next one starts.\<close>

definition ranges_ordered :: "feed_range list \<Rightarrow> bool" where
  "ranges_ordered rs \<longleftrightarrow> list_all proper_range rs \<and> sorted_wrt (\<lambda>a b. fr_hi a \<le> fr_lo b) rs"

lemma ranges_ordered_simps [simp]:
  "ranges_ordered []"
  "ranges_ordered (r # rs) \<longleftrightarrow> proper_range r \<and> (\<forall>s \<in> set rs. fr_hi r \<le> fr_lo s) \<and> ranges_ordered rs"
  "ranges_ordered (rs @ ss) \<longleftrightarrow> ranges_ordered rs \<and> ranges_ordered ss \<and> (\<forall>r \<in> set rs. \<forall>s \<in> set ss. fr_hi r \<le> fr_lo s)"
  by (auto simp: ranges_ordered_def sorted_wrt_append)

lemma ordered_disjoint:
  "ranges_ordered (r # rs) \<Longrightarrow> s \<in> set rs \<Longrightarrow> in_feed_range r k \<Longrightarrow> \<not> in_feed_range s k"
  by (force simp: epk_order)

section \<open>What a topology promises\<close>

text \<open>The answer of a topology provider for a range: proper ranges in order that overlap it and cover it.\<close>

definition covers :: "feed_range \<Rightarrow> resolved_range list \<Rightarrow> bool" where
  "covers rng rs \<longleftrightarrow>
     ranges_ordered (map rr_range rs) \<and> (\<forall>rr \<in> set rs. overlaps (rr_range rr) rng) \<and>
     (\<forall>k. in_feed_range rng k \<longrightarrow> (\<exists>rr \<in> set rs. in_feed_range (rr_range rr) k))"

section \<open>The cached topology keeps the promise\<close>

lemma validate_loop_covers:
  "validate_loop rs e = Inr mx \<Longrightarrow> epk_frac e \<le> epk_frac k \<Longrightarrow> epk_frac k < epk_frac mx \<Longrightarrow>
   \<exists>r \<in> set rs. epk_frac (pkr_min_inclusive r) \<le> epk_frac k \<and> epk_frac k < epk_frac (pkr_max_exclusive r)"
proof (induction rs e rule: validate_loop.induct)
  case (2 r rest e)
  then have eq: "epk_cmp (pkr_min_inclusive r) e = Equal" and rest: "validate_loop rest (pkr_max_exclusive r) = Inr mx"
    by (auto split: ordering.splits)
  show ?case
  proof (cases "epk_frac k < epk_frac (pkr_max_exclusive r)")
    case True
    with eq 2(3) show ?thesis by (auto simp: epk_equal_frac)
  next
    case False
    with 2(1)[OF eq rest] 2(4) show ?thesis by auto
  qed
qed simp

abbreviation pkr_feed_range :: "partition_key_range \<Rightarrow> feed_range" where
  "pkr_feed_range r \<equiv> FeedEpkRange (pkr_min_inclusive r) (pkr_max_exclusive r)"

text \<open>No range of the map is empty.\<close>

definition ranges_inhabited :: "container_routing_map \<Rightarrow> bool" where
  "ranges_inhabited m \<longleftrightarrow> list_all (\<lambda>r. epk_lt (pkr_min_inclusive r) (pkr_max_exclusive r)) (crm_ordered_ranges m)"

lemma map_ranges_ordered:
  assumes "routing_wf m" and "ranges_inhabited m"
  shows "ranges_ordered (map pkr_feed_range (crm_ordered_ranges m))"
proof -
  let ?rs = "crm_ordered_ranges m"
  have sep: "epk_frac (pkr_max_exclusive (?rs ! i)) \<le> epk_frac (pkr_min_inclusive (?rs ! j))" if "i < j" "j < length ?rs" for i j
    using routing_max_le_min[OF assms(1) that] by (simp add: epk_order)
  have ne: "epk_frac (pkr_min_inclusive (?rs ! i)) < epk_frac (pkr_max_exclusive (?rs ! i))" if "i < length ?rs" for i
    using assms(2) that by (simp add: ranges_inhabited_def list_all_length epk_order)
  have top: "pkr_max_exclusive (?rs ! (length ?rs - 1)) = epk_MAX"
    using assms(1) validate_loop_last[of ?rs epk_MIN epk_MAX] by (simp add: routing_wf_def)
  have "epk_frac (pkr_max_exclusive (?rs ! i)) \<le> epk_frac epk_MAX" if i: "i < length ?rs" for i
  proof (cases "i = length ?rs - 1")
    case False
    with i have "i < length ?rs - 1" "length ?rs - 1 < length ?rs" by simp_all
    with sep[of i "length ?rs - 1"] ne[of "length ?rs - 1"] top show ?thesis by simp
  qed (use top in simp)
  with sep ne show ?thesis
    by (simp add: ranges_ordered_def list_all_length proper_range_frac sorted_wrt_iff_nth_less)
qed

lemma ranges_ordered_filter: "ranges_ordered (map f xs) \<Longrightarrow> ranges_ordered (map f (filter P xs))"
  by (induction xs) auto

lemma collect_resolved_Inr:
  assumes "ranges_ordered (map pkr_feed_range pkrs)"
  shows "collect_resolved pkrs = Inr (map (\<lambda>r. \<lparr>rr_partition_key_range_id = pkr_id r, rr_range = pkr_feed_range r\<rparr>) pkrs)"
  using assms by (induction pkrs) (auto simp: new_feed_range_def feed_range_new_def epk_order)

lemma map_covers:
  assumes "routing_wf m" and "ranges_inhabited m" and "proper_range rng"
  shows "\<exists>pkrs rs. overlapping_of_map (fr_min_inclusive rng) (fr_max_exclusive rng) m = Some pkrs \<and>
    topology_answer (Some pkrs) = Inr rs \<and> covers rng rs"
proof -
  let ?lo = "fr_min_inclusive rng" and ?hi = "fr_max_exclusive rng"
  let ?P = "\<lambda>r. epk_lt (pkr_min_inclusive r) ?hi \<and> epk_lt ?lo (pkr_max_exclusive r)"
  let ?pkrs = "filter ?P (crm_ordered_ranges m)"
  have lt: "epk_lt ?lo ?hi" "epk_lt ?lo epk_MAX" "?lo \<noteq> ?hi" using assms(3) by (auto simp: epk_order)
  have ov: "overlapping_of_map ?lo ?hi m = Some ?pkrs" and ne: "?pkrs \<noteq> []"
    using overlapping_filter[OF assms(1) lt(2,1)] lt(3) by (auto simp: overlapping_of_map_def)
  have ord: "ranges_ordered (map pkr_feed_range ?pkrs)"
    by (rule ranges_ordered_filter[OF map_ranges_ordered[OF assms(1,2)]])
  let ?rs = "map (\<lambda>r. \<lparr>rr_partition_key_range_id = pkr_id r, rr_range = pkr_feed_range r\<rparr>) ?pkrs"
  have ans: "topology_answer (Some ?pkrs) = Inr ?rs"
    using ne collect_resolved_Inr[OF ord] by (auto simp: topology_answer_def split: list.split)
  have "\<exists>rr \<in> set ?rs. in_feed_range (rr_range rr) k" if k: "in_feed_range rng k" for k
  proof -
    have "epk_frac k < epk_frac epk_MAX" using k assms(3) by (simp add: epk_order)
    then obtain r where r: "r \<in> set (crm_ordered_ranges m)" "epk_frac (pkr_min_inclusive r) \<le> epk_frac k"
      "epk_frac k < epk_frac (pkr_max_exclusive r)"
      using validate_loop_covers[of "crm_ordered_ranges m" epk_MIN epk_MAX k] assms(1)
      by (auto simp: routing_wf_def epk_frac_def[of epk_MIN])
    then have "r \<in> set ?pkrs" using k by (auto simp: epk_order)
    with r show ?thesis by (auto simp: epk_order)
  qed
  then have "covers rng ?rs" using ord by (auto simp: covers_def comp_def overlaps_def)
  with ov ans show ?thesis by blast
qed

text \<open>C15. The topology provider keeps its promise. The ranges it finds in the cached routing map for a range of the
  key space are in order, do not overlap each other, all overlap the range asked for, and together
  cover it. Whatever the service answers meanwhile, a lookup that does return ranges returns such ranges;
  the physical ranges of the map must not be empty, which the validation of the map does not check.\<close>

theorem cached_topology_covers:
  assumes "cache_ok cache" and "cache_ok (meanwhile cache)" and "proper_range rng"
    and "cached_resolve_ranges force_refresh meanwhile container rng fetches cache = TopologyAnswer (Inr rs) cache' rest"
    and "\<And>m. hm_get cache' container = Some m \<Longrightarrow> ranges_inhabited m"
  shows "covers rng rs"
proof -
  obtain m pkrs where look: "try_lookup force_refresh meanwhile container fetches cache = Some (Some m, cache', rest)"
    and pkrs: "overlapping_of_map (fr_min_inclusive rng) (fr_max_exclusive rng) m = Some pkrs" "topology_answer (Some pkrs) = Inr rs"
    using assms(4)
    by (auto simp: cached_resolve_ranges_def resolve_overlapping_ranges_def with_routing_map_def topology_answer_def
        split: cache_result.splits option.splits prod.splits)
  have "routing_wf m" "hm_get cache' container = Some m" using try_lookup_ok[OF assms(1,2) look] by auto
  with map_covers[of m rng] assms(3,5) pkrs show ?thesis by auto
qed

theorem cached_topology_covers_witness:
  "\<exists>rs cache'. cached_resolve_ranges False id some_container feed_range_full [fetch_whole, fetch_unchanged] [] = TopologyAnswer (Inr rs) cache' [] \<and>
     covers feed_range_full rs"
proof -
  have "\<exists>m cache. try_lookup False id some_container [fetch_whole, fetch_unchanged] [] = Some (Some m, cache, []) \<and>
      hm_get cache some_container = Some m \<and> ranges_inhabited m"
    by (simp add: cache_eval try_create_eval highest_id_def ranges_inhabited_def epk_lt_def epk_cmp_def)
  then obtain m cache where look: "try_lookup False id some_container [fetch_whole, fetch_unchanged] [] = Some (Some m, cache, [])"
    and hit: "hm_get cache some_container = Some m" "ranges_inhabited m" by blast
  have empty: "cache_ok []" "cache_ok (id [])" by (simp_all add: cache_ok_def)
  have full: "proper_range feed_range_full" by (simp add: feed_range_full_def proper_range_frac epk_frac_def)
  have wf: "routing_wf m" using try_lookup_ok[OF empty look] by simp
  obtain pkrs rs where "overlapping_of_map (fr_min_inclusive feed_range_full) (fr_max_exclusive feed_range_full) m = Some pkrs"
    "topology_answer (Some pkrs) = Inr rs"
    using map_covers[OF wf hit(2) full] by blast
  then have res: "cached_resolve_ranges False id some_container feed_range_full [fetch_whole, fetch_unchanged] [] = TopologyAnswer (Inr rs) cache []"
    by (simp add: cached_resolve_ranges_def resolve_overlapping_ranges_def with_routing_map_def look)
  have "ranges_inhabited m'" if "hm_get cache some_container = Some m'" for m' using that hit by simp
  from cached_topology_covers[OF empty full res this] res show ?thesis by blast
qed

end
