(* ===== verification/Dataflow_Nodes.thy ===== *)
theory Dataflow_Nodes
  imports Key_Order
begin

text \<open>
  The nodes of the dataflow pipeline for paged operations, \<^verbatim>\<open>driver/dataflow\<close>: the request leaf
  (\<^verbatim>\<open>request.rs\<close>), the sequential drain of a query (\<^verbatim>\<open>drain.rs\<close>), the unordered merge of a change feed
  (\<^verbatim>\<open>unordered_merge.rs\<close>), their snapshots (\<^verbatim>\<open>snapshot.rs\<close>) and the pipeline root (\<^verbatim>\<open>pipeline.rs\<close>). The executor of
  requests and the topology provider answer depending on everything that was asked before, which is
  threaded through as a list of events. The intermediate nodes take the operations of their children as
  arguments, as the trait \<^verbatim>\<open>PipelineNode\<close> does. The lemmas follow single keys of the key space: each key has at
  most one node at work on it, and pages, splits and snapshots keep track of it.
\<close>

section \<open>Operations, targets and the context\<close>

datatype change_feed_start_from = Beginning | Now | PointInTime int

datatype precondition = IfMatch string | IfNoneMatch string

text \<open>What planning and paging read of an operation. The header of a point in time is kept as the time that it
  renders.\<close>

record feed_operation =
  fo_operation :: cosmos_operation
  fo_target :: "feed_range option"
  fo_is_change_feed :: bool
  fo_change_feed_start :: "change_feed_start_from option"
  fo_precondition :: "precondition option"
  fo_if_modified_since :: "int option"
  fo_partition_key_definition :: "partition_key_definition option"

datatype request_target =
    NonPartitioned
  | LogicalPartitionKey "partition_key_value list"
  | EffectivePartitionKeyRange "feed_range option" string feed_range

definition effective_partition_key_range :: "feed_range \<Rightarrow> string \<Rightarrow> feed_range \<Rightarrow> request_target" where
  "effective_partition_key_range rng partition_key_range_id partition_key_range =
     EffectivePartitionKeyRange (if rng = partition_key_range then None else Some rng)
       partition_key_range_id partition_key_range"

fun owned_range :: "request_target \<Rightarrow> feed_range option" where
  "owned_range (EffectivePartitionKeyRange rng _ partition_key_range) =
     Some (case rng of Some r \<Rightarrow> r | None \<Rightarrow> partition_key_range)"
| "owned_range _ = None"

definition intersect_feed_ranges :: "feed_range \<Rightarrow> feed_range \<Rightarrow> feed_range option" where
  "intersect_feed_ranges left right =
     (let lo = (if epk_le (fr_min_inclusive right) (fr_min_inclusive left) then fr_min_inclusive left
                else fr_min_inclusive right);
          hi = (if epk_le (fr_max_exclusive left) (fr_max_exclusive right) then fr_max_exclusive left
                else fr_max_exclusive right)
      in if epk_lt lo hi then Some (FeedEpkRange lo hi) else None)"

datatype partition_routing_refresh = UseCached | ForceRefresh

record exec_request =
  xr_operation :: feed_operation
  xr_target :: request_target
  xr_refresh :: partition_routing_refresh
  xr_continuation :: "string option"

datatype event = Executed exec_request | Resolved feed_range partition_routing_refresh

type_synonym topology = "event list \<Rightarrow> feed_range \<Rightarrow> partition_routing_refresh \<Rightarrow> cosmos_error + resolved_range list"

record dataflow_context =
  dc_execute :: "event list \<Rightarrow> exec_request \<Rightarrow> cosmos_error + cosmos_response"
  dc_topology :: "topology option"

definition CLIENT_TOPOLOGY_PROVIDER_MISSING :: cosmos_status where
  "CLIENT_TOPOLOGY_PROVIDER_MISSING = from_parts 500 (Some 20201)"

definition context_resolve_ranges ::
  "dataflow_context \<Rightarrow> feed_range \<Rightarrow> partition_routing_refresh \<Rightarrow> event list \<Rightarrow>
   (cosmos_error + resolved_range list) \<times> event list" where
  "context_resolve_ranges ctx rng refresh h =
     (case dc_topology ctx of
        None \<Rightarrow> (Inl (CosmosError CLIENT_TOPOLOGY_PROVIDER_MISSING Synthetic None), h)
      | Some provider \<Rightarrow> (provider h rng refresh, Resolved rng refresh # h))"

section \<open>Results and snapshots\<close>

datatype 'c page_result = Page cosmos_response bool | PageDrained | SplitRequired "'c list"

datatype node_failure = Failed cosmos_error | NodePanicked

record ranged_token =
  rt_min_epk :: string
  rt_max_epk :: string
  rt_server_continuation :: string

datatype pipeline_node_state =
    StateDrained
  | StateRequest "string option"
  | StateSequentialDrain string "ranged_token list"
  | StateUnorderedMerge "ranged_token list" "change_feed_start_from option"

datatype child_snapshot_contribution = ChildDrained | ChildPending "string option"

definition CLIENT_CONTINUATION_TOKEN_UNEXPECTED_NESTED_SHAPE :: cosmos_status where
  "CLIENT_CONTINUATION_TOKEN_UNEXPECTED_NESTED_SHAPE = from_parts 500 (Some 20204)"

abbreviation nested_shape_error :: cosmos_error where
  "nested_shape_error \<equiv> CosmosError CLIENT_CONTINUATION_TOKEN_UNEXPECTED_NESTED_SHAPE Synthetic None"

fun into_child_contribution :: "pipeline_node_state \<Rightarrow> cosmos_error + child_snapshot_contribution" where
  "into_child_contribution StateDrained = Inr ChildDrained"
| "into_child_contribution (StateRequest server_continuation) = Inr (ChildPending server_continuation)"
| "into_child_contribution _ = Inl nested_shape_error"

section \<open>The request leaf\<close>

datatype request_state = RequestInitial | Continuing string | RequestDrained

record request =
  req_operation :: feed_operation
  req_target :: request_target
  req_state :: request_state

definition request_new :: "feed_operation \<Rightarrow> request_target \<Rightarrow> string option \<Rightarrow> request" where
  "request_new operation target initial_continuation =
     \<lparr>req_operation = operation, req_target = target,
      req_state = (case initial_continuation of Some token \<Rightarrow> Continuing token | None \<Rightarrow> RequestInitial)\<rparr>"

definition handle_change_feed_response :: "request \<Rightarrow> cosmos_response \<Rightarrow> request page_result \<times> request" where
  "handle_change_feed_response self response =
     (Page response False,
      case rh_etag (cr_headers response) of
        Some token \<Rightarrow> self\<lparr>req_state := Continuing token\<rparr>
      | None \<Rightarrow> self)"

definition handle_response :: "request \<Rightarrow> cosmos_response \<Rightarrow> request page_result \<times> request" where
  "handle_response self response =
     (if fo_is_change_feed (req_operation self) then handle_change_feed_response self response
      else
        let state = (case rh_continuation (cr_headers response) of Some token \<Rightarrow> Continuing token | None \<Rightarrow> RequestDrained)
        in (Page response (state = RequestDrained), self\<lparr>req_state := state\<rparr>))"

fun state_continuation :: "request_state \<Rightarrow> string option" where
  "state_continuation (Continuing continuation) = Some continuation"
| "state_continuation _ = None"

text \<open>The replacements of a request whose range was split or merged; \<^term>\<open>None\<close> is the panic on a range of the
  topology that does not overlap.\<close>

fun replacement_nodes :: "request \<Rightarrow> feed_range \<Rightarrow> resolved_range list \<Rightarrow> request list option" where
  "replacement_nodes self rng [] = Some []"
| "replacement_nodes self rng (resolved # rest) =
     (case intersect_feed_ranges (rr_range resolved) rng of
        None \<Rightarrow> None
      | Some owned \<Rightarrow>
          map_option (\<lambda>nodes. request_new (req_operation self)
              (effective_partition_key_range owned (rr_partition_key_range_id resolved) (rr_range resolved))
              (state_continuation (req_state self)) # nodes)
            (replacement_nodes self rng rest))"

definition split_for_topology_change ::
  "dataflow_context \<Rightarrow> request \<Rightarrow> feed_range \<Rightarrow> event list \<Rightarrow> (node_failure + request page_result) \<times> event list" where
  "split_for_topology_change ctx self rng h =
     (case context_resolve_ranges ctx rng ForceRefresh h of
        (Inl e, h) \<Rightarrow> (Inl (Failed e), h)
      | (Inr resolved, h) \<Rightarrow>
          (case replacement_nodes self rng resolved of
             None \<Rightarrow> (Inl NodePanicked, h)
           | Some nodes \<Rightarrow> (Inr (SplitRequired nodes), h)))"

definition handle_partition_topology_change ::
  "dataflow_context \<Rightarrow> request \<Rightarrow> cosmos_error \<Rightarrow> string option \<Rightarrow> event list \<Rightarrow>
   (node_failure + request page_result) \<times> request \<times> event list" where
  "handle_partition_topology_change ctx self error continuation h =
     (case req_target self of
        NonPartitioned \<Rightarrow> (Inl (Failed error), self, h)
      | LogicalPartitionKey pk \<Rightarrow>
          let r = \<lparr>xr_operation = req_operation self, xr_target = req_target self, xr_refresh = ForceRefresh,
                xr_continuation = continuation\<rparr>
          in (case dc_execute ctx h r of
                Inl e \<Rightarrow> (Inl (Failed e), self, Executed r # h)
              | Inr response \<Rightarrow>
                  (case handle_response self response of (page, self) \<Rightarrow> (Inr page, self, Executed r # h)))
      | EffectivePartitionKeyRange rng _ partition_key_range \<Rightarrow>
          (case split_for_topology_change ctx self (case rng of Some r \<Rightarrow> r | None \<Rightarrow> partition_key_range) h of
             (result, h) \<Rightarrow> (result, self, h)))"

definition request_next_page ::
  "dataflow_context \<Rightarrow> request \<Rightarrow> event list \<Rightarrow> (node_failure + request page_result) \<times> request \<times> event list" where
  "request_next_page ctx self h =
     (if req_state self = RequestDrained then (Inr PageDrained, self, h)
      else
        let continuation = state_continuation (req_state self);
            r = \<lparr>xr_operation = req_operation self, xr_target = req_target self, xr_refresh = UseCached,
              xr_continuation = continuation\<rparr>;
            h' = Executed r # h
        in case dc_execute ctx h r of
             Inr response \<Rightarrow> (case handle_response self response of (page, self) \<Rightarrow> (Inr page, self, h'))
           | Inl error \<Rightarrow>
               if is_partition_topology_change (err_status error)
               then handle_partition_topology_change ctx self error continuation h'
               else (Inl (Failed error), self, h'))"

definition request_snapshot_state :: "request \<Rightarrow> cosmos_error + pipeline_node_state" where
  "request_snapshot_state self =
     Inr (case req_state self of
       RequestInitial \<Rightarrow> StateRequest None
     | Continuing continuation \<Rightarrow> StateRequest (Some continuation)
     | RequestDrained \<Rightarrow> StateDrained)"

definition request_feed_range :: "request \<Rightarrow> feed_range option" where
  "request_feed_range self = owned_range (req_target self)"

definition topology_can_change :: "request \<Rightarrow> bool" where
  "topology_can_change self =
     (case req_target self of EffectivePartitionKeyRange _ _ _ \<Rightarrow> True | _ \<Rightarrow> False)"

section \<open>The sequential drain\<close>

abbreviation MAX_SPLIT_RETRIES :: nat where "MAX_SPLIT_RETRIES \<equiv> 10"

definition CLIENT_SPLIT_RETRIES_EXHAUSTED :: cosmos_status where
  "CLIENT_SPLIT_RETRIES_EXHAUSTED = from_parts 500 (Some 20206)"

abbreviation split_retries_error :: node_failure where
  "split_retries_error \<equiv> Failed (CosmosError CLIENT_SPLIT_RETRIES_EXHAUSTED Synthetic None)"

type_synonym 'c next_page = "'c \<Rightarrow> event list \<Rightarrow> (node_failure + 'c page_result) \<times> 'c \<times> event list"

function drain_loop ::
  "'c next_page \<Rightarrow> nat \<Rightarrow> 'c list \<Rightarrow> event list \<Rightarrow> (node_failure + 'c page_result) \<times> 'c list \<times> event list" where
  "drain_loop child_next split_retries [] h = (Inr PageDrained, [], h)"
| "drain_loop child_next split_retries (current # rest) h =
     (case child_next current h of
        (Inl e, current, h) \<Rightarrow> (Inl e, current # rest, h)
      | (Inr (Page response is_terminal), current, h) \<Rightarrow>
          if is_terminal then (Inr (Page response (rest = [])), rest, h)
          else (Inr (Page response False), current # rest, h)
      | (Inr PageDrained, current, h) \<Rightarrow> drain_loop child_next split_retries rest h
      | (Inr (SplitRequired nodes), current, h) \<Rightarrow>
          if MAX_SPLIT_RETRIES < split_retries + 1 then (Inl split_retries_error, current # rest, h)
          else drain_loop child_next (split_retries + 1) (nodes @ rest) h)"
  by pat_completeness auto

termination
  by (relation "measures [\<lambda>(_, split_retries, _, _). MAX_SPLIT_RETRIES + 1 - split_retries, \<lambda>(_, _, children, _). length children]") auto

definition drain_next_page ::
  "'c next_page \<Rightarrow> 'c list \<Rightarrow> event list \<Rightarrow> (node_failure + 'c page_result) \<times> 'c list \<times> event list" where
  "drain_next_page child_next children h = drain_loop child_next 0 children h"

fun drain_snapshot_loop ::
  "('c \<Rightarrow> cosmos_error + pipeline_node_state) \<Rightarrow> ('c \<Rightarrow> feed_range option) \<Rightarrow> 'c list \<Rightarrow> string option \<Rightarrow> ranged_token list \<Rightarrow>
   cosmos_error + pipeline_node_state" where
  "drain_snapshot_loop child_state child_range [] cursor active_tokens =
     Inr (case cursor of
       Some left_most_undrained_epk \<Rightarrow> StateSequentialDrain left_most_undrained_epk active_tokens
     | None \<Rightarrow> StateDrained)"
| "drain_snapshot_loop child_state child_range (child # rest) cursor active_tokens =
     (case child_range child of
        None \<Rightarrow> Inl nested_shape_error
      | Some rng \<Rightarrow>
          (case child_state child of
             Inl e \<Rightarrow> Inl e
           | Inr state \<Rightarrow>
               (case into_child_contribution state of
                  Inl e \<Rightarrow> Inl e
                | Inr ChildDrained \<Rightarrow>
                    if cursor \<noteq> None then Inl nested_shape_error
                    else drain_snapshot_loop child_state child_range rest cursor active_tokens
                | Inr (ChildPending server_continuation) \<Rightarrow>
                    drain_snapshot_loop child_state child_range rest
                      (case cursor of None \<Rightarrow> Some (epk_to_hex (fr_min_inclusive rng)) | Some c \<Rightarrow> Some c)
                      (case server_continuation of
                         Some token \<Rightarrow> active_tokens @ [\<lparr>rt_min_epk = epk_to_hex (fr_min_inclusive rng),
                           rt_max_epk = epk_to_hex (fr_max_exclusive rng), rt_server_continuation = token\<rparr>]
                       | None \<Rightarrow> active_tokens))))"

definition drain_snapshot_state ::
  "('c \<Rightarrow> cosmos_error + pipeline_node_state) \<Rightarrow> ('c \<Rightarrow> feed_range option) \<Rightarrow> 'c list \<Rightarrow> cosmos_error + pipeline_node_state" where
  "drain_snapshot_state child_state child_range children =
     (if children = [] then Inr StateDrained else drain_snapshot_loop child_state child_range children None [])"

section \<open>The unordered merge\<close>

record 'c unordered_merge =
  um_children :: "'c list"
  um_cursor :: nat
  um_start_marker :: "change_feed_start_from option"

definition unordered_merge_new :: "'c list \<Rightarrow> 'c unordered_merge" where
  "unordered_merge_new children = \<lparr>um_children = children, um_cursor = 0, um_start_marker = None\<rparr>"

definition with_start_marker :: "change_feed_start_from option \<Rightarrow> 'c unordered_merge \<Rightarrow> 'c unordered_merge" where
  "with_start_marker start_marker self = self\<lparr>um_start_marker := start_marker\<rparr>"

text \<open>Removal at an index, and insertion of a list in the place of the element there.\<close>

definition splice :: "nat \<Rightarrow> 'a list \<Rightarrow> 'a list \<Rightarrow> 'a list" where
  "splice idx new xs = take idx xs @ new @ drop (idx + 1) xs"

function merge_loop ::
  "'c next_page \<Rightarrow> nat \<Rightarrow> nat \<Rightarrow> nat \<Rightarrow> 'c list \<Rightarrow> nat \<Rightarrow> event list \<Rightarrow>
   (node_failure + 'c page_result) \<times> ('c list \<times> nat) \<times> event list" where
  "merge_loop child_next children_count split_retries attempts children cursor h =
     (if children = [] then (Inr PageDrained, (children, cursor), h)
      else
        let idx = cursor mod length children in
        case child_next (children ! idx) h of
          (Inl e, child, h) \<Rightarrow> (Inl e, (children[idx := child], cursor), h)
        | (Inr (Page response _), child, h) \<Rightarrow>
            (Inr (Page response False), (children[idx := child], (idx + 1) mod length children), h)
        | (Inr PageDrained, child, h) \<Rightarrow>
            let children = splice idx [] children in
            if children = [] then (Inr PageDrained, (children, cursor), h)
            else
              let cursor = cursor mod length children in
              if children_count \<le> attempts + 1 then (Inr PageDrained, (children, cursor), h)
              else merge_loop child_next children_count split_retries (attempts + 1) children cursor h
        | (Inr (SplitRequired nodes), child, h) \<Rightarrow>
            if MAX_SPLIT_RETRIES < split_retries + 1
            then (Inl split_retries_error, (children[idx := child], cursor), h)
            else merge_loop child_next children_count (split_retries + 1) attempts (splice idx nodes children) cursor h)"
  by pat_completeness auto

termination
  by (relation "measures [\<lambda>(_, _, split_retries, _). MAX_SPLIT_RETRIES + 1 - split_retries,
    \<lambda>(_, children_count, _, attempts, _). children_count - attempts]") auto

declare merge_loop.simps [simp del]

definition merge_next_page ::
  "'c next_page \<Rightarrow> 'c unordered_merge \<Rightarrow> event list \<Rightarrow> (node_failure + 'c page_result) \<times> 'c unordered_merge \<times> event list" where
  "merge_next_page child_next self h =
     (if um_children self = [] then (Inr PageDrained, self, h)
      else
        case merge_loop child_next (length (um_children self)) 0 0 (um_children self) (um_cursor self) h of
          (result, (children, cursor), h) \<Rightarrow> (result, self\<lparr>um_children := children, um_cursor := cursor\<rparr>, h))"

fun merge_snapshot_loop ::
  "('c \<Rightarrow> cosmos_error + pipeline_node_state) \<Rightarrow> ('c \<Rightarrow> feed_range option) \<Rightarrow> 'c list \<Rightarrow> ranged_token list \<Rightarrow>
   cosmos_error + ranged_token list" where
  "merge_snapshot_loop child_state child_range [] active_tokens = Inr active_tokens"
| "merge_snapshot_loop child_state child_range (child # rest) active_tokens =
     (case child_range child of
        None \<Rightarrow> Inl nested_shape_error
      | Some rng \<Rightarrow>
          (case child_state child of
             Inl e \<Rightarrow> Inl e
           | Inr state \<Rightarrow>
               (case into_child_contribution state of
                  Inl e \<Rightarrow> Inl e
                | Inr ChildDrained \<Rightarrow> merge_snapshot_loop child_state child_range rest active_tokens
                | Inr (ChildPending server_continuation) \<Rightarrow>
                    merge_snapshot_loop child_state child_range rest
                      (case server_continuation of
                         Some token \<Rightarrow> active_tokens @ [\<lparr>rt_min_epk = epk_to_hex (fr_min_inclusive rng),
                           rt_max_epk = epk_to_hex (fr_max_exclusive rng), rt_server_continuation = token\<rparr>]
                       | None \<Rightarrow> active_tokens))))"

definition merge_snapshot_state ::
  "('c \<Rightarrow> cosmos_error + pipeline_node_state) \<Rightarrow> ('c \<Rightarrow> feed_range option) \<Rightarrow> 'c unordered_merge \<Rightarrow>
   cosmos_error + pipeline_node_state" where
  "merge_snapshot_state child_state child_range self =
     (if um_children self = [] then Inr StateDrained
      else case merge_snapshot_loop child_state child_range (um_children self) [] of
        Inl e \<Rightarrow> Inl e
      | Inr active_tokens \<Rightarrow> Inr (StateUnorderedMerge active_tokens (um_start_marker self)))"

section \<open>The pipeline\<close>

text \<open>The roots that the planner builds; the children of its intermediate nodes are requests.\<close>

datatype pipeline =
    RequestRoot request
  | DrainedRoot
  | DrainRoot "request list"
  | MergeRoot "request unordered_merge"

definition CLIENT_ROOT_NODE_CANNOT_REQUEST_SPLIT :: cosmos_status where
  "CLIENT_ROOT_NODE_CANNOT_REQUEST_SPLIT = from_parts 500 (Some 20208)"

fun root_next_page ::
  "dataflow_context \<Rightarrow> pipeline \<Rightarrow> event list \<Rightarrow> (node_failure + request page_result) \<times> pipeline \<times> event list" where
  "root_next_page ctx (RequestRoot r) h =
     (case request_next_page ctx r h of (result, r, h) \<Rightarrow> (result, RequestRoot r, h))"
| "root_next_page ctx DrainedRoot h = (Inr PageDrained, DrainedRoot, h)"
| "root_next_page ctx (DrainRoot children) h =
     (case drain_next_page (request_next_page ctx) children h of (result, children, h) \<Rightarrow> (result, DrainRoot children, h))"
| "root_next_page ctx (MergeRoot m) h =
     (case merge_next_page (request_next_page ctx) m h of (result, m, h) \<Rightarrow> (result, MergeRoot m, h))"

definition pipeline_next_page ::
  "dataflow_context \<Rightarrow> pipeline \<Rightarrow> event list \<Rightarrow> (node_failure + cosmos_response option) \<times> pipeline \<times> event list" where
  "pipeline_next_page ctx self h =
     (case root_next_page ctx self h of
        (result, self, h) \<Rightarrow>
          (case result of
             Inl e \<Rightarrow> Inl e
           | Inr (Page response _) \<Rightarrow> Inr (Some response)
           | Inr PageDrained \<Rightarrow> Inr None
           | Inr (SplitRequired _) \<Rightarrow> Inl (Failed (CosmosError CLIENT_ROOT_NODE_CANNOT_REQUEST_SPLIT Synthetic None)),
           self, h))"

fun pipeline_snapshot_state :: "pipeline \<Rightarrow> cosmos_error + pipeline_node_state" where
  "pipeline_snapshot_state (RequestRoot r) = request_snapshot_state r"
| "pipeline_snapshot_state DrainedRoot = Inr StateDrained"
| "pipeline_snapshot_state (DrainRoot children) = drain_snapshot_state request_snapshot_state request_feed_range children"
| "pipeline_snapshot_state (MergeRoot m) = merge_snapshot_state request_snapshot_state request_feed_range m"

end
