(* ===== verification/Dataflow_Work.thy ===== *)
theory Dataflow_Work
  imports Dataflow_Nodes
begin

text \<open>
  What the nodes of a pipeline still have to do, key by key. The work of a node at a key is nothing, or the
  server continuation from which it goes on there. The interface \<open>pipeline_node\<close> states what the trait
  \<^verbatim>\<open>PipelineNode\<close> promises to an intermediate node; the request leaf meets it whenever the topology covers the
  ranges it is asked for. Under it a sequential drain and an unordered merge lose no key and visit none twice.
\<close>

section \<open>Work of a list of nodes\<close>

fun work_at :: "('c \<Rightarrow> epk \<Rightarrow> 's option) \<Rightarrow> 'c list \<Rightarrow> epk \<Rightarrow> 's option" where
  "work_at work [] k = None"
| "work_at work (c # cs) k = option_or (work c k) (work_at work cs k)"

lemma option_or_simps [simp]: "option_or None y = y" "option_or (Some v) y = Some v" "option_or y None = y"
  by (simp_all add: option_or_def split: option.split)

lemma option_or_assoc: "option_or (option_or x y) z = option_or x (option_or y z)"
  by (cases x) simp_all

lemma work_at_append [simp]: "work_at work (cs @ ds) k = option_or (work_at work cs k) (work_at work ds k)"
  by (induction cs) (simp_all add: option_or_assoc)

lemma work_at_None_iff: "work_at work cs k = None \<longleftrightarrow> (\<forall>c \<in> set cs. work c k = None)"
  by (induction cs) (auto simp: option_or_def split: option.split)

lemma work_at_Some: "work_at work cs k = Some w \<Longrightarrow> \<exists>c \<in> set cs. work c k = Some w"
  by (induction cs) (auto simp: option_or_def split: option.splits)

text \<open>The children of an intermediate node own ranges in order, and each of them has work on all of its range.\<close>

definition at_key :: "('c \<Rightarrow> feed_range option) \<Rightarrow> 'c \<Rightarrow> epk \<Rightarrow> bool" where
  "at_key range_of c k \<longleftrightarrow> (case range_of c of Some r \<Rightarrow> in_feed_range r k | None \<Rightarrow> False)"

definition children_ordered :: "('c \<Rightarrow> feed_range option) \<Rightarrow> 'c list \<Rightarrow> bool" where
  "children_ordered range_of cs \<longleftrightarrow> (\<exists>rs. map range_of cs = map Some rs \<and> ranges_ordered rs)"

definition live :: "('c \<Rightarrow> feed_range option) \<Rightarrow> ('c \<Rightarrow> epk \<Rightarrow> 's option) \<Rightarrow> 'c \<Rightarrow> bool" where
  "live range_of work c \<longleftrightarrow> (\<forall>k. at_key range_of c k \<longrightarrow> work c k \<noteq> None)"

abbreviation range_at :: "('c \<Rightarrow> feed_range option) \<Rightarrow> 'c \<Rightarrow> feed_range" where
  "range_at range_of c \<equiv> the (range_of c)"

lemma children_ordered_iff:
  "children_ordered range_of cs \<longleftrightarrow>
     (\<forall>c \<in> set cs. range_of c \<noteq> None) \<and> ranges_ordered (map (range_at range_of) cs)"
proof
  assume "children_ordered range_of cs"
  then obtain rs where rs: "map range_of cs = map Some rs" "ranges_ordered rs" by (auto simp: children_ordered_def)
  from rs(1) have "map (range_at range_of) cs = rs"
    by (induction cs arbitrary: rs) auto
  moreover from rs(1) have "\<forall>c \<in> set cs. range_of c \<noteq> None"
    by (induction cs arbitrary: rs) auto
  ultimately show "(\<forall>c \<in> set cs. range_of c \<noteq> None) \<and> ranges_ordered (map (range_at range_of) cs)" using rs(2) by simp
next
  assume a: "(\<forall>c \<in> set cs. range_of c \<noteq> None) \<and> ranges_ordered (map (range_at range_of) cs)"
  then have "map range_of cs = map Some (map (range_at range_of) cs)" by (auto simp: comp_def)
  with a show "children_ordered range_of cs" unfolding children_ordered_def by blast
qed

section \<open>What a page does to the work\<close>

abbreviation ready :: "('c \<Rightarrow> feed_range option) \<Rightarrow> ('c \<Rightarrow> epk \<Rightarrow> 's option) \<Rightarrow> 'c list \<Rightarrow> bool" where
  "ready range_of work cs \<equiv> children_ordered range_of cs \<and> list_all (live range_of work) cs"

text \<open>The result of a call on a drain: a page comes from one child whose work was the drain's work on its
  range, and only that range changes.\<close>

definition drain_result ::
  "'c next_page \<Rightarrow> ('c \<Rightarrow> feed_range option) \<Rightarrow> ('c \<Rightarrow> epk \<Rightarrow> 's option) \<Rightarrow> 
   'c list \<Rightarrow> node_failure + 'c page_result \<Rightarrow> 'c list \<Rightarrow> event list \<Rightarrow> bool" where
  "drain_result child_next range_of work cs result cs' h' \<longleftrightarrow>
     (case result of
        Inl e \<Rightarrow> e \<noteq> NodePanicked \<and> (\<forall>k. work_at work cs' k = work_at work cs k)
      | Inr (Page response t) \<Rightarrow>
          (\<exists>c h t' c'. child_next c h = (Inr (Page response t'), c', h') \<and> range_of c \<noteq> None \<and>
             (\<forall>k. at_key range_of c k \<longrightarrow> work_at work cs k = work c k) \<and>
             (\<forall>k. work_at work cs' k = (if at_key range_of c k then work c' k else work_at work cs k)) \<and>
             (t \<longleftrightarrow> cs' = []))
      | Inr PageDrained \<Rightarrow> cs' = [] \<and> (\<forall>k. work_at work cs k = None)
      | Inr (SplitRequired _) \<Rightarrow> False)"

text \<open>The drained keys are a prefix of the keys in question.\<close>

definition drain_inv ::
  "('c \<Rightarrow> feed_range option) \<Rightarrow> ('c \<Rightarrow> epk \<Rightarrow> 's option) \<Rightarrow> (epk \<Rightarrow> bool) \<Rightarrow> 'c list \<Rightarrow> bool" where
  "drain_inv range_of work Q cs \<longleftrightarrow> ready range_of work cs \<and> (\<forall>k. work_at work cs k \<noteq> None \<longrightarrow> Q k) \<and>
     (\<forall>k. Q k \<and> work_at work cs k = None \<longrightarrow> (\<forall>c \<in> set cs. epk_frac k < fr_lo (range_at range_of c)))"

text \<open>A merge never ends, and every key in question has work at all times.\<close>

definition merge_result ::
  "'c next_page \<Rightarrow> ('c \<Rightarrow> feed_range option) \<Rightarrow> ('c \<Rightarrow> epk \<Rightarrow> 's option) \<Rightarrow> 
   'c list \<Rightarrow> node_failure + 'c page_result \<Rightarrow> 'c list \<Rightarrow> event list \<Rightarrow> bool" where
  "merge_result child_next range_of work cs result cs' h' \<longleftrightarrow>
     (case result of
        Inl e \<Rightarrow> e \<noteq> NodePanicked \<and> (\<forall>k. work_at work cs' k = work_at work cs k)
      | Inr (Page response t) \<Rightarrow> \<not> t \<and>
          (\<exists>c h c'. child_next c h = (Inr (Page response False), c', h') \<and> range_of c \<noteq> None \<and>
             (\<forall>k. at_key range_of c k \<longrightarrow> work_at work cs k = work c k) \<and>
             (\<forall>k. work_at work cs' k = (if at_key range_of c k then work c' k else work_at work cs k)))
      | Inr PageDrained \<Rightarrow> cs = []
      | Inr (SplitRequired _) \<Rightarrow> False)"

definition merge_inv ::
  "('c \<Rightarrow> feed_range option) \<Rightarrow> ('c \<Rightarrow> epk \<Rightarrow> 's option) \<Rightarrow> ('c \<Rightarrow> bool) \<Rightarrow> (epk \<Rightarrow> bool) \<Rightarrow> 'c list \<Rightarrow> bool" where
  "merge_inv range_of work endless Q cs \<longleftrightarrow> ready range_of work cs \<and> list_all endless cs \<and> (\<forall>k. work_at work cs k \<noteq> None \<longleftrightarrow> Q k)"

section \<open>The contract of a node\<close>

locale pipeline_node =
  fixes child_next :: "'c next_page"
    and range_of :: "'c \<Rightarrow> feed_range option"
    and work :: "'c \<Rightarrow> epk \<Rightarrow> 's option"
    and sound :: bool
  assumes work_in_range: "work c k \<noteq> None \<Longrightarrow> at_key range_of c k"
    and page_range: "child_next c h = (Inr (Page response t), c', h') \<Longrightarrow> range_of c' = range_of c"
    and page_terminal: "child_next c h = (Inr (Page response True), c', h') \<Longrightarrow> work c' k = None"
    and page_live: "child_next c h = (Inr (Page response False), c', h') \<Longrightarrow> live range_of work c \<Longrightarrow> live range_of work c'"
    and drained: "child_next c h = (Inr PageDrained, c', h') \<Longrightarrow> work c k = None"
    and unchanged: "child_next c h = (Inl e, c', h') \<Longrightarrow> c' = c"
    and split_unchanged: "child_next c h = (Inr (SplitRequired nodes), c', h') \<Longrightarrow> c' = c"
    and split_ordered: "sound \<Longrightarrow> child_next c h = (Inr (SplitRequired nodes), c', h') \<Longrightarrow> range_of c = Some r \<Longrightarrow>
      proper_range r \<Longrightarrow> children_ordered range_of nodes \<and>
        (\<forall>n \<in> set nodes. fr_lo r \<le> fr_lo (range_at range_of n) \<and> fr_hi (range_at range_of n) \<le> fr_hi r)"
    and split_work: "sound \<Longrightarrow> child_next c h = (Inr (SplitRequired nodes), c', h') \<Longrightarrow> range_of c = Some r \<Longrightarrow>
      proper_range r \<Longrightarrow> work_at work nodes k = work c k"
    and no_panic: "sound \<Longrightarrow> child_next c h = (Inl e, c', h') \<Longrightarrow> range_of c = Some r \<Longrightarrow> proper_range r \<Longrightarrow> e \<noteq> NodePanicked"
    and few_events: "child_next c h = (result, c', h') \<Longrightarrow> length h' \<le> length h + 2"
    and split_live: "sound \<Longrightarrow> child_next c h = (Inr (SplitRequired nodes), c', h') \<Longrightarrow> range_of c = Some r \<Longrightarrow>
      proper_range r \<Longrightarrow> live range_of work c \<Longrightarrow> list_all (live range_of work) nodes"
begin

lemma ordered_others:
  assumes "children_ordered range_of (xs @ c # ys)" and "at_key range_of c k"
  shows "work_at work xs k = None" and "work_at work ys k = None"
proof -
  have sep: "\<not> at_key range_of d k" if "d \<in> set xs \<or> d \<in> set ys" for d
    using assms that
    by (force simp: children_ordered_iff at_key_def epk_order split: option.splits)
  then show "work_at work xs k = None" "work_at work ys k = None"
    using work_in_range unfolding work_at_None_iff by blast+
qed

lemma focus:
  "children_ordered range_of (xs @ c # ys) \<Longrightarrow> at_key range_of c k \<Longrightarrow> work_at work (xs @ c # ys) k = work c k"
  by (simp add: ordered_others)

lemma work_outside: "\<not> at_key range_of c k \<Longrightarrow> work c k = None"
  using work_in_range by blast

lemma replace_one:
  assumes "children_ordered range_of (xs @ c # ys)" and "range_of c' = range_of c"
  shows "work_at work (xs @ c' # ys) k = (if at_key range_of c k then work c' k else work_at work (xs @ c # ys) k)"
proof (cases "at_key range_of c k")
  case True
  with ordered_others[OF assms(1)] show ?thesis by simp
next
  case False
  with assms(2) have "\<not> at_key range_of c' k" by (simp add: at_key_def)
  with False show ?thesis by (simp add: work_outside)
qed

lemma live_not_drained:
  assumes "ready range_of work (xs @ c # ys)"
  shows "child_next c h \<noteq> (Inr PageDrained, c', h')"
proof
  assume d: "child_next c h = (Inr PageDrained, c', h')"
  obtain r where r: "range_of c = Some r" "proper_range r" using assms by (auto simp: children_ordered_iff)
  then have "at_key range_of c (fr_min_inclusive r)" by (simp add: at_key_def proper_has_key)
  with drained[OF d] assms show False by (auto simp: live_def)
qed

lemma no_panic_child:
  assumes "sound" and "ready range_of work (xs @ c # ys)" and "child_next c h = (Inl e, c', h')"
  shows "e \<noteq> NodePanicked"
proof -
  obtain r where "range_of c = Some r" "proper_range r" using assms(2) by (auto simp: children_ordered_iff)
  with no_panic[OF assms(1,3)] show ?thesis by blast
qed

lemma split_one:
  assumes "sound" and "ready range_of work (xs @ c # ys)" and "child_next c h = (Inr (SplitRequired nodes), c', h')"
  shows "ready range_of work (xs @ nodes @ ys)" and "work_at work (xs @ nodes @ ys) k = work_at work (xs @ c # ys) k"
proof -
  obtain r where r: "range_of c = Some r" "proper_range r" using assms(2) by (auto simp: children_ordered_iff)
  note s = split_ordered[OF assms(1,3) r] split_live[OF assms(1,3) r]
  show "work_at work (xs @ nodes @ ys) k = work_at work (xs @ c # ys) k"
    by (simp add: split_work[OF assms(1,3) r])
  show "ready range_of work (xs @ nodes @ ys)"
    using assms(2) s r by (fastforce simp: children_ordered_iff)
qed

section \<open>Pages of a sequential drain\<close>

lemma drain_invD:
  assumes "drain_inv range_of work Q cs"
  shows "children_ordered range_of cs" and "list_all (live range_of work) cs"
    and "work_at work cs k \<noteq> None \<Longrightarrow> Q k"
    and "Q k \<Longrightarrow> work_at work cs k = None \<Longrightarrow> d \<in> set cs \<Longrightarrow> epk_frac k < fr_lo (range_at range_of d)"
  using assms unfolding drain_inv_def by blast+

lemma drain_invI:
  assumes "ready range_of work cs" and "\<And>k. work_at work cs k \<noteq> None \<Longrightarrow> Q k"
    and "\<And>k d. Q k \<Longrightarrow> work_at work cs k = None \<Longrightarrow> d \<in> set cs \<Longrightarrow> epk_frac k < fr_lo (range_at range_of d)"
  shows "drain_inv range_of work Q cs"
  using assms unfolding drain_inv_def by blast

lemma drain_inv_split:
  assumes "sound" and "drain_inv range_of work Q (c # cs)" and "child_next c h = (Inr (SplitRequired nodes), c', h')"
  shows "drain_inv range_of work Q (nodes @ cs)"
proof -
  have rd: "ready range_of work ([] @ c # cs)" using assms(2) by (simp add: drain_inv_def)
  note s = split_one[OF assms(1) rd assms(3), simplified]
  obtain r where r: "range_of c = Some r" "proper_range r" using rd by (auto simp: children_ordered_iff)
  note o = split_ordered[OF assms(1,3) r]
  have "epk_frac k < fr_lo (range_at range_of d)"
    if "Q k" "work_at work (nodes @ cs) k = None" "d \<in> set (nodes @ cs)" for k d
  proof -
    have below: "\<forall>d \<in> set (c # cs). epk_frac k < fr_lo (range_at range_of d)"
      using that(1,2) assms(2) s(2)[of k] unfolding drain_inv_def by simp
    show ?thesis
      using that(3) below o r by (auto dest!: bspec)
  qed
  then show ?thesis using assms(2) s unfolding drain_inv_def by auto
qed

lemma drain_inv_page:
  assumes "drain_inv range_of work Q (c # cs)" and "child_next c h = (Inr (Page response False), c', h')"
  shows "drain_inv range_of work Q (c' # cs)"
proof -
  have rng: "range_of c' = range_of c" using page_range[OF assms(2)] .
  have lv: "live range_of work c'" using page_live[OF assms(2)] assms(1) by (simp add: drain_inv_def)
  have rd: "ready range_of work (c' # cs)" using assms(1) rng lv by (simp add: drain_inv_def children_ordered_iff)
  have w: "work_at work (c' # cs) k = (if at_key range_of c k then work c' k else work_at work (c # cs) k)" for k
    using replace_one[of "[]" c cs c' k] assms(1) rng by (simp add: drain_inv_def)
  have "work_at work (c' # cs) k = None \<longleftrightarrow> work_at work (c # cs) k = None" for k
  proof (cases "at_key range_of c k")
    case True
    moreover have "at_key range_of c' k" using True rng by (simp add: at_key_def)
    ultimately show ?thesis
      using lv w[of k] focus[of "[]" c cs k] assms(1) by (auto simp: live_def drain_inv_def)
  next
    case False
    moreover have "\<not> at_key range_of c' k" using False rng by (simp add: at_key_def)
    ultimately show ?thesis by (simp add: work_outside)
  qed
  then show ?thesis using assms(1) rd rng unfolding drain_inv_def by auto
qed

lemma drain_inv_terminal:
  assumes inv: "drain_inv range_of work Q (c # cs)"
  shows "drain_inv range_of work Q cs"
proof (rule drain_invI)
  have ord: "children_ordered range_of ([] @ c # cs)" using drain_invD(1)[OF inv] by simp
  show "ready range_of work cs" using drain_invD(1,2)[OF inv] by (simp add: children_ordered_iff)
  have same: "work_at work (c # cs) k = work_at work cs k" if "\<not> at_key range_of c k" for k
    using that by (simp add: work_outside)
  fix k
  show "Q k" if "work_at work cs k \<noteq> None"
    using that drain_invD(3)[OF inv, of k] same[of k] ordered_others(2)[OF ord, of k] by metis
  show "epk_frac k < fr_lo (range_at range_of d)" if "Q k" "work_at work cs k = None" "d \<in> set cs" for d
  proof (cases "at_key range_of c k")
    case True
    then have "epk_frac k < fr_hi (range_at range_of c)"
      by (auto simp: at_key_def epk_order split: option.splits)
    moreover have "fr_hi (range_at range_of c) \<le> fr_lo (range_at range_of d)"
      using ord that(3) by (simp add: children_ordered_iff)
    ultimately show ?thesis by simp
  next
    case False
    with that(2) same[of k] have "work_at work (c # cs) k = None" by simp
    with drain_invD(4)[OF inv that(1), of d] that(3) show ?thesis by simp
  qed
qed

lemma drain_result_cong:
  "(\<And>k. work_at work cs k = work_at work ds k) \<Longrightarrow> drain_result child_next range_of work cs result cs' h' = drain_result child_next range_of work ds result cs' h'"
  by (cases result) (auto simp: drain_result_def split: page_result.split)

lemma drain_resultI:
  assumes "child_next c h = (Inr (Page response t'), c', h')" and "children_ordered range_of (c # cs)"
    and "\<And>k. work_at work cs' k = (if at_key range_of c k then work c' k else work_at work (c # cs) k)"
  shows "drain_result child_next range_of work (c # cs) (Inr (Page response (cs' = []))) cs' h'"
  unfolding drain_result_def sum.case page_result.case
  using assms focus[of "[]" c cs] conjunct1[OF assms(2)[unfolded children_ordered_iff]]
  by (intro exI[of _ c] exI[of _ h] exI[of _ t'] exI[of _ c']) simp

lemma drain_step_page:
  assumes inv: "drain_inv range_of work Q (c # cs)" and page: "child_next c h = (Inr (Page response t), c', h')"
  shows "drain_result child_next range_of work (c # cs) (Inr (Page response (t \<and> cs = []))) (if t then cs else c' # cs) h'"
proof -
  have ord: "children_ordered range_of ([] @ c # cs)" using drain_invD(1)[OF inv] by simp
  show ?thesis
  proof (cases t)
    case True
    then have none: "work c' k = None" for k using page_terminal[of c h response c' h' k] page by simp
    have "drain_result child_next range_of work (c # cs) (Inr (Page response (cs = []))) cs h'"
      by (rule drain_resultI[OF page]) (use ord none in \<open>auto simp: work_outside ordered_others[of "[]" c]\<close>)
    with True show ?thesis by simp
  next
    case False
    have "drain_result child_next range_of work (c # cs) (Inr (Page response (c' # cs = []))) (c' # cs) h'"
      by (rule drain_resultI[OF page]) (use ord replace_one[OF ord page_range[OF page]] in simp_all)
    with False show ?thesis by simp
  qed
qed

lemma drain_loop_sound:
  assumes "sound"
  shows "f = child_next \<Longrightarrow> drain_inv range_of work Q cs \<Longrightarrow> drain_loop f n cs h = (result, cs', h') \<Longrightarrow>
    drain_inv range_of work Q cs' \<and> drain_result child_next range_of work cs result cs' h'"
proof (induction f n cs h rule: drain_loop.induct)
  case (1 f n h)
  then show ?case by (auto simp: drain_result_def)
next
  case (2 f n c cs h)
  note f = "2.prems"(1) and inv = "2.prems"(2)
  note loop = "2.prems"(3)[unfolded f]
  obtain r c1 h1 where step: "child_next c h = (r, c1, h1)" by (metis prod_cases3)
  show ?case
  proof (cases r)
    case (Inl e)
    have "e \<noteq> NodePanicked" using no_panic_child[of "[]" c cs] assms step Inl inv by (simp add: drain_inv_def)
    with Inl step unchanged[of c h e c1 h1] inv loop show ?thesis by (auto simp: drain_result_def)
  next
    case (Inr p)
    show ?thesis
    proof (cases p)
      case (Page response t)
      with Inr step have page: "child_next c h = (Inr (Page response t), c1, h1)" by simp
      show ?thesis
        using inv loop page drain_step_page[OF inv page] drain_inv_terminal[OF inv] drain_inv_page[OF inv, of h response c1 h1]
        by (auto split: if_splits)
    next
      case PageDrained
      with Inr step live_not_drained[of "[]" c cs h c1 h1] inv show ?thesis by (simp add: drain_inv_def)
    next
      case (SplitRequired nodes)
      with Inr step have split: "child_next c h = (Inr (SplitRequired nodes), c1, h1)" by simp
      have inv': "drain_inv range_of work Q (nodes @ cs)" by (rule drain_inv_split[OF assms(1) inv split])
      have w: "work_at work (c # cs) k = work_at work (nodes @ cs) k" for k
        using split_one(2)[OF assms(1) _ split, of "[]" cs k] inv by (simp add: drain_inv_def)
      show ?thesis
      proof (cases "MAX_SPLIT_RETRIES < n + 1")
        case True
        with inv loop split split_unchanged[OF split] show ?thesis by (auto simp: drain_result_def)
      next
        case False
        with loop split have "drain_loop child_next (n + 1) (nodes @ cs) h1 = (result, cs', h')" by simp
        then have "drain_inv range_of work Q cs' \<and> drain_result child_next range_of work (nodes @ cs) result cs' h'"
          using "2.IH"(2) split False inv' f by simp
        then show ?thesis by (simp add: drain_result_cong[OF w])
      qed
    qed
  qed
qed

lemma drain_loop_events:
  assumes "sound"
  shows "f = child_next \<Longrightarrow> drain_inv range_of work Q cs \<Longrightarrow> n \<le> MAX_SPLIT_RETRIES \<Longrightarrow>
    drain_loop f n cs h = (result, cs', h') \<Longrightarrow> length h' \<le> length h + 2 * (MAX_SPLIT_RETRIES + 1 - n)"
proof (induction f n cs h rule: drain_loop.induct)
  case (2 f n c cs h)
  note f = "2.prems"(1) and inv = "2.prems"(2)
  note loop = "2.prems"(4)[unfolded f]
  obtain r c1 h1 where step: "child_next c h = (r, c1, h1)" by (metis prod_cases3)
  have few: "length h1 \<le> length h + 2" by (rule few_events[OF step])
  have nd: "r \<noteq> Inr PageDrained" using live_not_drained[of "[]" c cs h c1 h1] step inv by (auto simp: drain_inv_def)
  show ?case
  proof (cases "\<exists>nodes. r = Inr (SplitRequired nodes) \<and> n < MAX_SPLIT_RETRIES")
    case True
    then obtain nodes where r: "r = Inr (SplitRequired nodes)" and n: "n < MAX_SPLIT_RETRIES" by blast
    then have split: "child_next c h = (Inr (SplitRequired nodes), c1, h1)" using step by simp
    have "drain_loop child_next (n + 1) (nodes @ cs) h1 = (result, cs', h')" using loop split n by simp
    then have "length h' \<le> length h1 + 2 * (MAX_SPLIT_RETRIES + 1 - (n + 1))"
      using "2.IH"(2) split n drain_inv_split[OF assms inv split] f by simp
    with few n show ?thesis by simp
  next
    case False
    with loop step nd few "2.prems"(3) show ?thesis
      by (auto split: sum.splits page_result.splits if_splits)
  qed
qed simp

end

section \<open>Pages of an unordered merge\<close>

text \<open>The children of a merge never report an end.\<close>

locale endless_node = pipeline_node child_next range_of work sound
  for child_next :: "'c next_page" and range_of work and sound :: bool +
  fixes endless :: "'c \<Rightarrow> bool"
  assumes endless_page: "endless c \<Longrightarrow> child_next c h = (Inr (Page response t), c', h') \<Longrightarrow> \<not> t \<and> endless c'"
    and endless_split: "endless c \<Longrightarrow> child_next c h = (Inr (SplitRequired nodes), c', h') \<Longrightarrow> list_all endless nodes"
begin

lemma merge_page:
  assumes inv: "merge_inv range_of work endless Q (xs @ c # ys)" and page: "child_next c h = (Inr (Page response t), c', h')"
  shows "merge_inv range_of work endless Q (xs @ c' # ys) \<and> merge_result child_next range_of work (xs @ c # ys) (Inr (Page response False)) (xs @ c' # ys) h'"
proof -
  have ord: "children_ordered range_of (xs @ c # ys)" using inv by (simp add: merge_inv_def)
  have e: "\<not> t" "endless c'" using endless_page[OF _ page] inv by (simp_all add: merge_inv_def)
  note rng = page_range[OF page]
  note w = replace_one[OF ord rng]
  have lv: "live range_of work c'" using page_live[of c h response c' h'] page e(1) inv by (simp add: merge_inv_def)
  have "work c' k \<noteq> None" if "at_key range_of c k" for k
    using lv that rng by (simp add: live_def at_key_def)
  then have "work_at work (xs @ c' # ys) k \<noteq> None \<longleftrightarrow> work_at work (xs @ c # ys) k \<noteq> None" for k
    using w[of k] focus[OF ord, of k] inv unfolding merge_inv_def by (auto simp: live_def)
  then have "merge_inv range_of work endless Q (xs @ c' # ys)"
    using inv e lv rng unfolding merge_inv_def by (auto simp: children_ordered_iff)
  moreover have "merge_result child_next range_of work (xs @ c # ys) (Inr (Page response False)) (xs @ c' # ys) h'"
    unfolding merge_result_def sum.case page_result.case
    using page e(1) w focus[OF ord] conjunct1[OF ord[unfolded children_ordered_iff]]
    by (intro conjI exI[of _ c] exI[of _ h] exI[of _ c']) simp_all
  ultimately show ?thesis ..
qed

lemma merge_result_cong:
  "(\<And>k. work_at work cs k = work_at work ds k) \<Longrightarrow> (cs = [] \<longleftrightarrow> ds = []) \<Longrightarrow>
   merge_result child_next range_of work cs result cs' h' = merge_result child_next range_of work ds result cs' h'"
  by (cases result) (auto simp: merge_result_def split: page_result.split)

lemma merge_split:
  assumes "sound" and inv: "merge_inv range_of work endless Q (xs @ c # ys)" and split: "child_next c h = (Inr (SplitRequired nodes), c', h')"
  shows "merge_inv range_of work endless Q (xs @ nodes @ ys)" and "work_at work (xs @ nodes @ ys) k = work_at work (xs @ c # ys) k"
    and "xs @ nodes @ ys \<noteq> []"
proof -
  have rd: "ready range_of work (xs @ c # ys)" using inv by (simp add: merge_inv_def)
  note s = split_one[OF assms(1) rd split]
  show w: "work_at work (xs @ nodes @ ys) k = work_at work (xs @ c # ys) k" for k by (rule s(2))
  show "merge_inv range_of work endless Q (xs @ nodes @ ys)"
    using inv s(1) endless_split[OF _ split] unfolding merge_inv_def w by simp
  obtain r where r: "range_of c = Some r" "proper_range r" using rd by (auto simp: children_ordered_iff)
  then have at: "at_key range_of c (fr_min_inclusive r)" by (simp add: at_key_def proper_has_key)
  with rd have "work c (fr_min_inclusive r) \<noteq> None" by (simp add: live_def)
  with at rd have "work_at work (xs @ c # ys) (fr_min_inclusive r) \<noteq> None"
    using focus[of xs c ys] by metis
  with w[of "fr_min_inclusive r"] show "xs @ nodes @ ys \<noteq> []" by auto
qed

lemma merge_loop_sound:
  assumes "sound"
  shows "f = child_next \<Longrightarrow> merge_inv range_of work endless Q cs \<Longrightarrow> cs \<noteq> [] \<Longrightarrow> merge_loop f cc n attempts cs cursor h = (result, (cs', cursor'), h') \<Longrightarrow>
    merge_inv range_of work endless Q cs' \<and> merge_result child_next range_of work cs result cs' h'"
proof (induction f cc n attempts cs cursor h rule: merge_loop.induct)
  case (1 f cc n attempts cs cursor h)
  note f = "1.prems"(1) and inv = "1.prems"(2)
  note loop = "1.prems"(4)[unfolded f]
  let ?i = "cursor mod length cs"
  let ?xs = "take ?i cs" and ?c = "cs ! ?i" and ?ys = "drop (Suc ?i) cs"
  have i: "?i < length cs" using "1.prems"(3) by simp
  have cs: "?xs @ ?c # ?ys = cs" by (rule id_take_nth_drop[OF i, symmetric])
  have upd: "cs[?i := c'] = ?xs @ c' # ?ys" for c' by (rule upd_conv_take_nth_drop[OF i])
  have inv': "merge_inv range_of work endless Q (?xs @ ?c # ?ys)" by (simp only: cs inv)
  obtain r c1 h1 where step: "child_next ?c h = (r, c1, h1)" by (metis prod_cases3)
  show ?case
  proof (cases r)
    case (Inl e)
    have "e \<noteq> NodePanicked" using no_panic_child[of ?xs ?c ?ys] assms step Inl inv' by (simp add: merge_inv_def)
    with Inl step unchanged[of ?c h e c1 h1] inv loop "1.prems"(3) show ?thesis
      by (auto simp: merge_loop.simps[of child_next] merge_result_def Let_def)
  next
    case (Inr p)
    show ?thesis
    proof (cases p)
      case (Page response t)
      with Inr step have page: "child_next ?c h = (Inr (Page response t), c1, h1)" by simp
      show ?thesis
        using loop "1.prems"(3) page merge_page[OF inv' page, unfolded cs]
        by (auto simp: merge_loop.simps[of child_next] Let_def upd)
    next
      case PageDrained
      with Inr step live_not_drained[of ?xs ?c ?ys h c1 h1] inv' show ?thesis by (simp add: merge_inv_def)
    next
      case (SplitRequired nodes)
      with Inr step have split: "child_next ?c h = (Inr (SplitRequired nodes), c1, h1)" by simp
      note m = merge_split[OF assms(1) inv' split, unfolded cs]
      show ?thesis
      proof (cases "MAX_SPLIT_RETRIES < n + 1")
        case True
        with inv loop "1.prems"(3) split split_unchanged[OF split] show ?thesis
          by (auto simp: merge_loop.simps[of child_next] Let_def merge_result_def)
      next
        case False
        with loop "1.prems"(3) split
        have "merge_loop child_next cc (n + 1) attempts (splice ?i nodes cs) cursor h1 = (result, (cs', cursor'), h')"
          by (simp add: merge_loop.simps[of child_next cc n] Let_def)
        then have "merge_inv range_of work endless Q cs' \<and> merge_result child_next range_of work (splice ?i nodes cs) result cs' h'"
          using "1.IH"(2) split False m(1,3) f "1.prems"(3) by (simp add: splice_def)
        then show ?thesis
          using merge_result_cong[of "splice ?i nodes cs" cs result cs' h'] m(2,3) "1.prems"(3) by (simp add: splice_def)
      qed
    qed
  qed
qed

end

section \<open>The request leaf meets the contract\<close>

definition request_work :: "request \<Rightarrow> epk \<Rightarrow> (feed_operation \<times> string option) option" where
  "request_work r k =
     (if at_key request_feed_range r k \<and> req_state r \<noteq> RequestDrained
      then Some (req_operation r, state_continuation (req_state r)) else None)"

text \<open>What the nodes and the planner rely on: an answer of the topology covers the range asked for.\<close>

definition topology_sound :: "topology \<Rightarrow> bool" where
  "topology_sound topology \<longleftrightarrow> (\<forall>h rng refresh rs. proper_range rng \<and> topology h rng refresh = Inr rs \<longrightarrow> covers rng rs)"

definition topology_covers :: "dataflow_context \<Rightarrow> bool" where
  "topology_covers ctx \<longleftrightarrow> (case dc_topology ctx of None \<Rightarrow> True | Some topology \<Rightarrow> topology_sound topology)"

lemma intersect_Some:
  "intersect_feed_ranges a b = Some c \<Longrightarrow>
   fr_lo c = max (fr_lo a) (fr_lo b) \<and> fr_hi c = min (fr_hi a) (fr_hi b) \<and> fr_lo c < fr_hi c"
  by (auto simp: intersect_feed_ranges_def Let_def epk_order max_def min_def split: if_splits)

lemma intersect_keys: "intersect_feed_ranges a b = Some c \<Longrightarrow> in_feed_range c k \<longleftrightarrow> in_feed_range a k \<and> in_feed_range b k"
  using intersect_Some[of a b c] by (auto simp: epk_order)

lemma intersect_overlapping:
  "proper_range a \<Longrightarrow> proper_range b \<Longrightarrow> overlaps a b \<Longrightarrow> \<exists>c. intersect_feed_ranges a b = Some c"
  by (auto simp: intersect_feed_ranges_def Let_def overlaps_def epk_order)

lemma owned_range_new [simp]:
  "request_feed_range (request_new op (effective_partition_key_range rng i p) c) = Some rng"
  "req_operation (request_new op target c) = op"
  "state_continuation (req_state (request_new op target c)) = c"
  "req_state (request_new op target c) \<noteq> RequestDrained"
  by (auto simp: request_new_def effective_partition_key_range_def request_feed_range_def split: option.split)

lemma request_work_new:
  "request_work (request_new op (effective_partition_key_range rng i p) c) k = (if in_feed_range rng k then Some (op, c) else None)"
  by (simp add: request_work_def at_key_def)

lemma request_live: "req_state r \<noteq> RequestDrained \<Longrightarrow> live request_feed_range request_work r"
  by (simp add: live_def request_work_def)

lemma replacement_nodes_work:
  assumes "replacement_nodes self rng rs = Some nodes"
  shows "work_at request_work nodes k =
    (if in_feed_range rng k \<and> (\<exists>rr \<in> set rs. in_feed_range (rr_range rr) k)
     then Some (req_operation self, state_continuation (req_state self)) else None)"
  using assms
  by (induction rs arbitrary: nodes) (auto simp: request_work_new dest: intersect_keys[of _ _ _ k] split: option.splits)

lemma replacement_nodes_live:
  "replacement_nodes self rng rs = Some nodes \<Longrightarrow> list_all (live request_feed_range request_work) nodes"
  by (induction rs arbitrary: nodes) (auto simp: request_live split: option.splits)

lemma replacement_nodes_operation:
  "replacement_nodes self rng rs = Some nodes \<Longrightarrow> list_all (\<lambda>r. req_operation r = req_operation self) nodes"
  by (induction rs arbitrary: nodes) (auto split: option.splits)

lemma replacement_nodes_ordered:
  assumes "proper_range rng" and "ranges_ordered (map rr_range rs)" and "replacement_nodes self rng rs = Some nodes"
  shows "children_ordered request_feed_range nodes \<and>
    (\<forall>n \<in> set nodes. fr_lo rng \<le> fr_lo (range_at request_feed_range n) \<and> fr_hi (range_at request_feed_range n) \<le> fr_hi rng \<and>
      (\<exists>rr \<in> set rs. fr_lo (rr_range rr) \<le> fr_lo (range_at request_feed_range n) \<and> fr_hi (range_at request_feed_range n) \<le> fr_hi (rr_range rr)))"
  using assms(2,3)
proof (induction rs arbitrary: nodes)
  case (Cons rr rs)
  then obtain owned ns where o: "intersect_feed_ranges (rr_range rr) rng = Some owned"
    and ns: "replacement_nodes self rng rs = Some ns"
    and nodes: "nodes = request_new (req_operation self)
      (effective_partition_key_range owned (rr_partition_key_range_id rr) (rr_range rr)) (state_continuation (req_state self)) # ns"
    by (auto split: option.splits)
  have IH: "children_ordered request_feed_range ns"
    "\<forall>n \<in> set ns. fr_lo rng \<le> fr_lo (range_at request_feed_range n) \<and> fr_hi (range_at request_feed_range n) \<le> fr_hi rng \<and>
      (\<exists>rr \<in> set rs. fr_lo (rr_range rr) \<le> fr_lo (range_at request_feed_range n) \<and> fr_hi (range_at request_feed_range n) \<le> fr_hi (rr_range rr))"
    using Cons.IH[OF _ ns] Cons.prems(1) by simp_all
  note i = intersect_Some[OF o]
  have "fr_hi owned \<le> fr_lo (range_at request_feed_range n)" if "n \<in> set ns" for n
    using IH(2) that Cons.prems(1) i by fastforce
  moreover have "proper_range owned" using i assms(1) by (auto simp: epk_order)
  ultimately show ?case using IH i unfolding nodes by (auto simp: children_ordered_iff)
qed (simp add: children_ordered_iff)

lemma request_page:
  "request_next_page ctx c h = (Inr (Page response t), c', h') \<Longrightarrow>
   req_state c \<noteq> RequestDrained \<and> handle_response c response = (Page response t, c')"
  by (auto simp: request_next_page_def handle_partition_topology_change_def split_for_topology_change_def
      handle_response_def handle_change_feed_response_def Let_def
      split: if_splits sum.splits request_target.splits option.splits prod.splits)

lemma request_split:
  "request_next_page ctx c h = (Inr (SplitRequired nodes), c', h') \<Longrightarrow>
   c' = c \<and> req_state c \<noteq> RequestDrained \<and>
   (\<exists>rng h1 provider rs. request_feed_range c = Some rng \<and> dc_topology ctx = Some provider \<and>
      provider h1 rng ForceRefresh = Inr rs \<and> replacement_nodes c rng rs = Some nodes)"
  by (auto simp: request_next_page_def handle_partition_topology_change_def split_for_topology_change_def
      handle_response_def handle_change_feed_response_def context_resolve_ranges_def request_feed_range_def Let_def
      split: if_splits sum.splits request_target.splits option.splits prod.splits)

lemma request_failed: "request_next_page ctx c h = (Inl e, c', h') \<Longrightarrow> c' = c"
  by (auto simp: request_next_page_def handle_partition_topology_change_def Let_def
      split: if_splits sum.splits request_target.splits option.splits prod.splits)

lemma request_drained: "request_next_page ctx c h = (Inr PageDrained, c', h') \<Longrightarrow> req_state c = RequestDrained"
  by (auto simp: request_next_page_def handle_partition_topology_change_def split_for_topology_change_def
      handle_response_def handle_change_feed_response_def Let_def
      split: if_splits sum.splits request_target.splits option.splits prod.splits)

lemma handle_response_page:
  assumes "handle_response c response = (Page response' t, c')"
  shows "req_target c' = req_target c" "req_operation c' = req_operation c"
    "t \<longleftrightarrow> req_state c' = RequestDrained \<and> \<not> fo_is_change_feed (req_operation c)"
    "fo_is_change_feed (req_operation c) \<Longrightarrow> req_state c \<noteq> RequestDrained \<Longrightarrow> req_state c' \<noteq> RequestDrained"
  using assms
  by (auto simp: handle_response_def handle_change_feed_response_def Let_def split: if_splits option.splits)

lemma replacement_nodes_total:
  assumes "proper_range rng" and "ranges_ordered (map rr_range rs)" and "\<forall>rr \<in> set rs. overlaps (rr_range rr) rng"
  shows "\<exists>nodes. replacement_nodes self rng rs = Some nodes"
  using assms(2,3)
proof (induction rs)
  case (Cons rr rs)
  then obtain owned where "intersect_feed_ranges (rr_range rr) rng = Some owned"
    using intersect_overlapping[OF _ assms(1)] by fastforce
  with Cons show ?case by auto
qed simp

lemma request_events: "request_next_page ctx c h = (result, c', h') \<Longrightarrow> length h' \<le> length h + 2"
  by (auto simp: request_next_page_def handle_partition_topology_change_def split_for_topology_change_def
      context_resolve_ranges_def Let_def
      split: if_splits sum.splits request_target.splits option.splits prod.splits)

lemma request_panicked:
  "request_next_page ctx c h = (Inl NodePanicked, c', h') \<Longrightarrow>
   \<exists>rng h1 provider rs. request_feed_range c = Some rng \<and> dc_topology ctx = Some provider \<and>
      provider h1 rng ForceRefresh = Inr rs \<and> replacement_nodes c rng rs = None"
  by (auto simp: request_next_page_def handle_partition_topology_change_def split_for_topology_change_def
      handle_response_def handle_change_feed_response_def context_resolve_ranges_def request_feed_range_def Let_def
      split: if_splits sum.splits request_target.splits option.splits prod.splits)

interpretation req: pipeline_node "request_next_page ctx" request_feed_range request_work "topology_covers ctx" for ctx
proof
  fix c c' :: request and h h' response t k and nodes :: "request list" and e r result
  show "at_key request_feed_range c k" if "request_work c k \<noteq> None"
    using that by (simp add: request_work_def split: if_splits)
  show "request_feed_range c' = request_feed_range c" if "request_next_page ctx c h = (Inr (Page response t), c', h')"
    using request_page[OF that] handle_response_page(1) by (metis request_feed_range_def)
  show "request_work c' k = None" if "request_next_page ctx c h = (Inr (Page response True), c', h')"
    using request_page[OF that] handle_response_page(3)[of c response response True c'] by (simp add: request_work_def)
  show "live request_feed_range request_work c'" if "request_next_page ctx c h = (Inr (Page response False), c', h')"
    using request_page[OF that] handle_response_page(3,4) request_live by metis
  show "request_work c k = None" if "request_next_page ctx c h = (Inr PageDrained, c', h')"
    using request_drained[OF that] by (simp add: request_work_def)
  show "c' = c" if "request_next_page ctx c h = (Inl e, c', h')" using request_failed[OF that] .
  show "length h' \<le> length h + 2" if "request_next_page ctx c h = (result, c', h')" using request_events[OF that] .
  show "e \<noteq> NodePanicked" if "topology_covers ctx" "request_next_page ctx c h = (Inl e, c', h')"
    "request_feed_range c = Some r" "proper_range r"
  proof
    assume "e = NodePanicked"
    with that obtain rs where "covers r rs" "replacement_nodes c r rs = None"
      using request_panicked[of ctx c h c' h'] unfolding topology_covers_def topology_sound_def by fastforce
    with replacement_nodes_total[OF that(4), of rs c] show False by (auto simp: covers_def)
  qed
  assume s: "request_next_page ctx c h = (Inr (SplitRequired nodes), c', h')"
  show "c' = c" using request_split[OF s] by blast
  assume cov: "topology_covers ctx" and r: "request_feed_range c = Some r" "proper_range r"
  obtain rs where rs: "covers r rs" "replacement_nodes c r rs = Some nodes" and nd: "req_state c \<noteq> RequestDrained"
    using request_split[OF s] cov r unfolding topology_covers_def topology_sound_def by fastforce
  show "children_ordered request_feed_range nodes \<and>
      (\<forall>n \<in> set nodes. fr_lo r \<le> fr_lo (range_at request_feed_range n) \<and> fr_hi (range_at request_feed_range n) \<le> fr_hi r)"
    using replacement_nodes_ordered[OF r(2) _ rs(2)] rs(1) by (auto simp: covers_def)
  show "work_at request_work nodes k = request_work c k"
    using replacement_nodes_work[OF rs(2), of k] rs(1) r(1) nd by (auto simp: covers_def request_work_def at_key_def)
  show "list_all (live request_feed_range request_work) nodes"
    by (rule replacement_nodes_live[OF rs(2)])
qed

interpretation feed: endless_node "request_next_page ctx" request_feed_range request_work "topology_covers ctx"
  "\<lambda>r. fo_is_change_feed (req_operation r)" for ctx
proof
  fix c c' :: request and h h' response t and nodes :: "request list"
  assume e: "fo_is_change_feed (req_operation c)"
  show "\<not> t \<and> fo_is_change_feed (req_operation c')" if "request_next_page ctx c h = (Inr (Page response t), c', h')"
    using e request_page[OF that] handle_response_page by metis
  show "list_all (\<lambda>r. fo_is_change_feed (req_operation r)) nodes"
    if "request_next_page ctx c h = (Inr (SplitRequired nodes), c', h')"
    using request_split[OF that] e replacement_nodes_operation unfolding list_all_iff by metis
qed

end
