(* ===== verification/Dataflow_Planner.thy ===== *)
theory Dataflow_Planner
  imports Dataflow_Work
begin

text \<open>
  The planner of paged operations, \<^verbatim>\<open>driver/dataflow/planner.rs\<close>: single requests, the fan-out of a query and of a
  change feed over the current topology, and the same from the state of a saved snapshot.
\<close>

section \<open>Query plans\<close>

record query_range =
  qr_min :: string
  qr_max :: string
  qr_is_min_inclusive :: bool
  qr_is_max_inclusive :: bool

datatype distinct_type = DistinctNone | DistinctOrdered | DistinctUnordered

datatype sort_order = Ascending | Descending

text \<open>The fields of a query plan that the planner reads.\<close>

record query_info =
  qi_distinct_type :: distinct_type
  qi_top :: "nat option"
  qi_limit :: "nat option"
  qi_order_by :: "sort_order list"
  qi_group_by_expressions :: "string list"
  qi_aggregates :: "string list"

record query_plan =
  qp_query_info :: "query_info option"
  qp_query_ranges :: "query_range list"
  qp_has_hybrid_search :: bool

definition CLIENT_UNSUPPORTED_QUERY_FEATURE :: cosmos_status where
  "CLIENT_UNSUPPORTED_QUERY_FEATURE = from_parts 400 (Some 20113)"

definition CLIENT_CONTINUATION_TOKEN_SHAPE_MISMATCH :: cosmos_status where
  "CLIENT_CONTINUATION_TOKEN_SHAPE_MISMATCH = from_parts 500 (Some 20203)"

definition CLIENT_FEED_RANGE_REQUIRES_FANOUT_PIPELINE :: cosmos_status where
  "CLIENT_FEED_RANGE_REQUIRES_FANOUT_PIPELINE = from_parts 400 (Some 20112)"

definition CLIENT_QUERY_PLAN_PRODUCED_EMPTY_RANGES :: cosmos_status where
  "CLIENT_QUERY_PLAN_PRODUCED_EMPTY_RANGES = from_parts 500 (Some 20302)"

definition CLIENT_CONTINUATION_TOKEN_SAVED_RANGE_UNHONORED :: cosmos_status where
  "CLIENT_CONTINUATION_TOKEN_SAVED_RANGE_UNHONORED = from_parts 500 (Some 20213)"

definition CLIENT_CONTINUATION_TOKEN_INVALID_EPK_RANGE :: cosmos_status where
  "CLIENT_CONTINUATION_TOKEN_INVALID_EPK_RANGE = from_parts 500 (Some 20205)"

definition CLIENT_QUERY_PLAN_RANGE_NOT_COVERED_BY_TOPOLOGY :: cosmos_status where
  "CLIENT_QUERY_PLAN_RANGE_NOT_COVERED_BY_TOPOLOGY = from_parts 500 (Some 20307)"

abbreviation client_error :: "cosmos_status \<Rightarrow> cosmos_error" where
  "client_error status \<equiv> CosmosError status Synthetic None"

definition validate_query_info :: "query_info \<Rightarrow> cosmos_error + unit" where
  "validate_query_info info =
     (if qi_top info \<noteq> None then Inl (client_error CLIENT_UNSUPPORTED_QUERY_FEATURE)
      else if qi_limit info \<noteq> None then Inl (client_error CLIENT_UNSUPPORTED_QUERY_FEATURE)
      else if qi_order_by info \<noteq> [] then Inl (client_error CLIENT_UNSUPPORTED_QUERY_FEATURE)
      else if qi_aggregates info \<noteq> [] then Inl (client_error CLIENT_UNSUPPORTED_QUERY_FEATURE)
      else if qi_group_by_expressions info \<noteq> [] then Inl (client_error CLIENT_UNSUPPORTED_QUERY_FEATURE)
      else if qi_distinct_type info \<noteq> DistinctNone then Inl (client_error CLIENT_UNSUPPORTED_QUERY_FEATURE)
      else Inr ())"

definition validate_query_plan :: "query_plan \<Rightarrow> cosmos_error + unit" where
  "validate_query_plan plan =
     (if qp_has_hybrid_search plan then Inl (client_error CLIENT_UNSUPPORTED_QUERY_FEATURE)
      else case qp_query_info plan of Some info \<Rightarrow> validate_query_info info | None \<Rightarrow> Inr ())"

definition query_range_to_feed_range :: "query_range \<Rightarrow> nat option \<Rightarrow> cosmos_error + feed_range" where
  "query_range_to_feed_range query_range normalized_len =
     (let lo = epk_from_str (qr_min query_range);
          hi = epk_from_str (qr_max query_range);
          hi = (if qr_is_max_inclusive query_range \<and> lo = hi
                then (case normalized_len of Some len \<Rightarrow> normalized_successor hi len | None \<Rightarrow> epk_successor hi)
                else hi)
      in new_feed_range lo hi)"

section \<open>Saved snapshots\<close>

record saved_active_token =
  st_range :: feed_range
  st_server_continuation :: string

record saved_snapshot =
  ss_cursor :: epk
  ss_active_tokens :: "saved_active_token list"

abbreviation invalid_epk_range :: cosmos_error where
  "invalid_epk_range \<equiv> client_error CLIENT_CONTINUATION_TOKEN_INVALID_EPK_RANGE"

fun validate_saved_loop :: "saved_active_token list \<Rightarrow> ranged_token list \<Rightarrow> cosmos_error + saved_active_token list" where
  "validate_saved_loop parsed [] = Inr parsed"
| "validate_saved_loop parsed (entry # entries) =
     (let lo = epk_from_str (rt_min_epk entry); hi = epk_from_str (rt_max_epk entry) in
      if epk_lt hi lo then Inl invalid_epk_range
      else if lo = hi then Inl invalid_epk_range
      else case new_feed_range lo hi of
        Inl e \<Rightarrow> Inl e
      | Inr rng \<Rightarrow>
          if parsed \<noteq> [] \<and> epk_lt (fr_min_inclusive rng) (fr_max_exclusive (st_range (last parsed)))
          then Inl invalid_epk_range
          else validate_saved_loop
            (parsed @ [\<lparr>st_range = rng, st_server_continuation = rt_server_continuation entry\<rparr>]) entries)"

definition validate_saved_snapshot :: "string \<Rightarrow> ranged_token list \<Rightarrow> cosmos_error + saved_snapshot" where
  "validate_saved_snapshot left_most_undrained_epk active_tokens =
     (let cursor = epk_from_str left_most_undrained_epk in
      case validate_saved_loop [] active_tokens of
        Inl e \<Rightarrow> Inl e
      | Inr parsed \<Rightarrow>
          if parsed \<noteq> [] \<and> epk_lt (fr_min_inclusive (st_range (hd parsed))) cursor then Inl invalid_epk_range
          else Inr \<lparr>ss_cursor = cursor, ss_active_tokens = parsed\<rparr>)"

fun validate_merge_loop :: "saved_active_token list \<Rightarrow> ranged_token list \<Rightarrow> cosmos_error + saved_active_token list" where
  "validate_merge_loop parsed [] = Inr parsed"
| "validate_merge_loop parsed (entry # entries) =
     (let lo = epk_from_str (rt_min_epk entry); hi = epk_from_str (rt_max_epk entry) in
      if epk_le hi lo then Inl invalid_epk_range
      else case new_feed_range lo hi of
        Inl e \<Rightarrow> Inl e
      | Inr rng \<Rightarrow>
          if parsed \<noteq> [] \<and> epk_lt (fr_min_inclusive rng) (fr_max_exclusive (st_range (last parsed)))
          then Inl invalid_epk_range
          else validate_merge_loop
            (parsed @ [\<lparr>st_range = rng, st_server_continuation = rt_server_continuation entry\<rparr>]) entries)"

definition validate_unordered_merge_tokens :: "ranged_token list \<Rightarrow> cosmos_error + saved_active_token list" where
  "validate_unordered_merge_tokens active_tokens = validate_merge_loop [] active_tokens"

fun fully_covered_loop :: "epk \<Rightarrow> feed_range list \<Rightarrow> epk option" where
  "fully_covered_loop cursor [] = Some cursor"
| "fully_covered_loop cursor (piece # pieces) =
     (if epk_lt cursor (fr_min_inclusive piece) then None
      else fully_covered_loop
        (if epk_lt cursor (fr_max_exclusive piece) then fr_max_exclusive piece else cursor) pieces)"

definition range_fully_covered :: "feed_range \<Rightarrow> feed_range list \<Rightarrow> bool" where
  "range_fully_covered rng pieces =
     (if pieces = [] then False
      else case fully_covered_loop (fr_min_inclusive rng)
             (sort_by (\<lambda>a b. epk_cmp (fr_min_inclusive a) (fr_min_inclusive b)) pieces) of
        None \<Rightarrow> False
      | Some cursor \<Rightarrow> epk_le (fr_max_exclusive rng) cursor)"

section \<open>Planning\<close>

text \<open>A leaf of a plan for a part of a resolved range.\<close>

definition plan_leaf :: "feed_operation \<Rightarrow> resolved_range \<Rightarrow> feed_range \<Rightarrow> string option \<Rightarrow> request" where
  "plan_leaf operation resolved rng continuation =
     request_new operation
       (effective_partition_key_range rng (rr_partition_key_range_id resolved) (rr_range resolved)) continuation"

definition build_trivial_pipeline :: "feed_operation \<Rightarrow> pipeline_node_state option \<Rightarrow> cosmos_error + pipeline" where
  "build_trivial_pipeline operation resume =
     (let plan = (\<lambda>initial_continuation.
        (case fo_target operation of
           None \<Rightarrow> Inr (RequestRoot (request_new operation NonPartitioned initial_continuation))
         | Some f \<Rightarrow>
             (case feed_range_partition_key f of
                Some pk \<Rightarrow> Inr (RequestRoot (request_new operation (LogicalPartitionKey pk) initial_continuation))
              | None \<Rightarrow> Inl (client_error CLIENT_FEED_RANGE_REQUIRES_FANOUT_PIPELINE))))
      in case resume of
           None \<Rightarrow> plan None
         | Some (StateRequest server_continuation) \<Rightarrow> plan server_continuation
         | Some StateDrained \<Rightarrow> Inr DrainedRoot
         | Some _ \<Rightarrow> Inl (client_error CLIENT_CONTINUATION_TOKEN_SHAPE_MISMATCH))"

definition clip_to_scope :: "feed_range option \<Rightarrow> feed_range \<Rightarrow> feed_range option" where
  "clip_to_scope scope_range plan_range =
     (case scope_range of Some scope \<Rightarrow> intersect_feed_ranges scope plan_range | None \<Rightarrow> Some plan_range)"

definition operation_epk_len :: "feed_operation \<Rightarrow> nat option" where
  "operation_epk_len operation = Option.bind (fo_partition_key_definition operation) normalized_epk_len"

fun fresh_leaves :: "feed_operation \<Rightarrow> feed_range \<Rightarrow> resolved_range list \<Rightarrow> cosmos_error + request list" where
  "fresh_leaves operation feed_range [] = Inr []"
| "fresh_leaves operation feed_range (resolved # rest) =
     (case intersect_feed_ranges (rr_range resolved) feed_range of
        None \<Rightarrow> Inl (client_error CLIENT_QUERY_PLAN_RANGE_NOT_COVERED_BY_TOPOLOGY)
      | Some rng \<Rightarrow>
          (case fresh_leaves operation feed_range rest of
             Inl e \<Rightarrow> Inl e
           | Inr nodes \<Rightarrow> Inr (plan_leaf operation resolved rng None # nodes)))"

fun plan_fresh ::
  "topology \<Rightarrow> feed_operation \<Rightarrow> query_range list \<Rightarrow> event list \<Rightarrow> (cosmos_error + request list) \<times> event list" where
  "plan_fresh topology operation [] h = (Inr [], h)"
| "plan_fresh topology operation (query_range # query_ranges) h =
     (case query_range_to_feed_range query_range (operation_epk_len operation) of
        Inl e \<Rightarrow> (Inl e, h)
      | Inr plan_range \<Rightarrow>
          (case clip_to_scope (fo_target operation) plan_range of
             None \<Rightarrow> plan_fresh topology operation query_ranges h
           | Some feed_range \<Rightarrow>
               let h' = Resolved feed_range UseCached # h in
               (case topology h feed_range UseCached of
                  Inl e \<Rightarrow> (Inl e, h')
                | Inr resolved \<Rightarrow>
                    (case fresh_leaves operation feed_range resolved of
                       Inl e \<Rightarrow> (Inl e, h')
                     | Inr nodes \<Rightarrow>
                         (case plan_fresh topology operation query_ranges h' of
                            (Inl e, h) \<Rightarrow> (Inl e, h)
                          | (Inr rest, h) \<Rightarrow> (Inr (nodes @ rest), h))))))"

text \<open>The walk over the saved tokens inside one leaf: the nodes it adds, the pieces covered by each token, and
  how far it came. A token that is skipped covers nothing here, nor do those after the loop stops.\<close>

fun walk_tokens ::
  "feed_operation \<Rightarrow> resolved_range \<Rightarrow> epk \<Rightarrow> saved_active_token list \<Rightarrow> epk \<Rightarrow>
   cosmos_error + request list \<times> feed_range list list \<times> epk" where
  "walk_tokens operation resolved leaf_max [] cursor_within_leaf = Inr ([], [], cursor_within_leaf)"
| "walk_tokens operation resolved leaf_max (entry # entries) cursor_within_leaf =
     (if epk_le (fr_max_exclusive (st_range entry)) cursor_within_leaf then
        (case walk_tokens operation resolved leaf_max entries cursor_within_leaf of
           Inl e \<Rightarrow> Inl e
         | Inr (nodes, coverage, cursor) \<Rightarrow> Inr (nodes, [] # coverage, cursor))
      else if epk_le leaf_max (fr_min_inclusive (st_range entry)) then
        Inr ([], replicate (Suc (length entries)) [], cursor_within_leaf)
      else
        let overlap_min = (if epk_lt cursor_within_leaf (fr_min_inclusive (st_range entry))
                           then fr_min_inclusive (st_range entry) else cursor_within_leaf);
            overlap_max = (if epk_lt (fr_max_exclusive (st_range entry)) leaf_max
                           then fr_max_exclusive (st_range entry) else leaf_max);
            gap = (if epk_lt cursor_within_leaf overlap_min
                   then (case new_feed_range cursor_within_leaf overlap_min of
                           Inl e \<Rightarrow> Inl e | Inr gap \<Rightarrow> Inr [plan_leaf operation resolved gap None])
                   else Inr [])
        in case gap of
             Inl e \<Rightarrow> Inl e
           | Inr gap \<Rightarrow>
               (case new_feed_range overlap_min overlap_max of
                  Inl e \<Rightarrow> Inl e
                | Inr intersection \<Rightarrow>
                    (case walk_tokens operation resolved leaf_max entries overlap_max of
                       Inl e \<Rightarrow> Inl e
                     | Inr (nodes, coverage, cursor) \<Rightarrow>
                         Inr (gap @ plan_leaf operation resolved intersection (Some (st_server_continuation entry)) # nodes,
                              [intersection] # coverage, cursor))))"

text \<open>One resolved range of a resumed plan.\<close>

definition resume_leaf ::
  "feed_operation \<Rightarrow> saved_snapshot \<Rightarrow> feed_range \<Rightarrow> resolved_range \<Rightarrow> cosmos_error + request list \<times> feed_range list list" where
  "resume_leaf operation saved feed_range resolved =
     (case intersect_feed_ranges (rr_range resolved) feed_range of
        None \<Rightarrow> Inl (client_error CLIENT_QUERY_PLAN_RANGE_NOT_COVERED_BY_TOPOLOGY)
      | Some leaf_scope \<Rightarrow>
          if epk_le (fr_max_exclusive leaf_scope) (ss_cursor saved) then Inr ([], map (\<lambda>_. []) (ss_active_tokens saved))
          else
            let effective_min = (if epk_lt (fr_min_inclusive leaf_scope) (ss_cursor saved) then ss_cursor saved
                                 else fr_min_inclusive leaf_scope)
            in case new_feed_range effective_min (fr_max_exclusive leaf_scope) of
                 Inl e \<Rightarrow> Inl e
               | Inr effective_leaf \<Rightarrow>
                   (case walk_tokens operation resolved (fr_max_exclusive effective_leaf) (ss_active_tokens saved)
                           (fr_min_inclusive effective_leaf) of
                      Inl e \<Rightarrow> Inl e
                    | Inr (nodes, coverage, cursor_within_leaf) \<Rightarrow>
                        if epk_lt cursor_within_leaf (fr_max_exclusive effective_leaf) then
                          (case new_feed_range cursor_within_leaf (fr_max_exclusive effective_leaf) of
                             Inl e \<Rightarrow> Inl e
                           | Inr gap \<Rightarrow> Inr (nodes @ [plan_leaf operation resolved gap None], coverage))
                        else Inr (nodes, coverage)))"

fun resume_leaves ::
  "feed_operation \<Rightarrow> saved_snapshot \<Rightarrow> feed_range \<Rightarrow> resolved_range list \<Rightarrow> cosmos_error + request list \<times> feed_range list list" where
  "resume_leaves operation saved feed_range [] = Inr ([], map (\<lambda>_. []) (ss_active_tokens saved))"
| "resume_leaves operation saved feed_range (resolved # rest) =
     (case resume_leaf operation saved feed_range resolved of
        Inl e \<Rightarrow> Inl e
      | Inr (nodes, coverage) \<Rightarrow>
          (case resume_leaves operation saved feed_range rest of
             Inl e \<Rightarrow> Inl e
           | Inr (nodes', coverage') \<Rightarrow> Inr (nodes @ nodes', map2 (@) coverage coverage')))"

fun plan_resume_ranges ::
  "topology \<Rightarrow> feed_operation \<Rightarrow> saved_snapshot \<Rightarrow> query_range list \<Rightarrow> event list \<Rightarrow>
   (cosmos_error + request list \<times> feed_range list list) \<times> event list" where
  "plan_resume_ranges topology operation saved [] h = (Inr ([], map (\<lambda>_. []) (ss_active_tokens saved)), h)"
| "plan_resume_ranges topology operation saved (query_range # query_ranges) h =
     (case query_range_to_feed_range query_range (operation_epk_len operation) of
        Inl e \<Rightarrow> (Inl e, h)
      | Inr plan_range \<Rightarrow>
          (case clip_to_scope (fo_target operation) plan_range of
             None \<Rightarrow> plan_resume_ranges topology operation saved query_ranges h
           | Some feed_range \<Rightarrow>
               let h' = Resolved feed_range UseCached # h in
               (case topology h feed_range UseCached of
                  Inl e \<Rightarrow> (Inl e, h')
                | Inr resolved \<Rightarrow>
                    (case resume_leaves operation saved feed_range resolved of
                       Inl e \<Rightarrow> (Inl e, h')
                     | Inr (nodes, coverage) \<Rightarrow>
                         (case plan_resume_ranges topology operation saved query_ranges h' of
                            (Inl e, h) \<Rightarrow> (Inl e, h)
                          | (Inr (nodes', coverage'), h) \<Rightarrow> (Inr (nodes @ nodes', map2 (@) coverage coverage'), h))))))"

definition plan_resume_from_saved_snapshot ::
  "topology \<Rightarrow> feed_operation \<Rightarrow> saved_snapshot \<Rightarrow> query_range list \<Rightarrow> event list \<Rightarrow>
   (cosmos_error + request list) \<times> event list" where
  "plan_resume_from_saved_snapshot topology operation saved query_ranges h =
     (case plan_resume_ranges topology operation saved query_ranges h of
        (Inl e, h) \<Rightarrow> (Inl e, h)
      | (Inr (nodes, coverage), h) \<Rightarrow>
          if list_all2 (\<lambda>entry pieces. range_fully_covered (st_range entry) pieces) (ss_active_tokens saved) coverage
          then (Inr nodes, h)
          else (Inl (client_error CLIENT_CONTINUATION_TOKEN_SAVED_RANGE_UNHONORED), h))"

definition build_sequential_drain ::
  "query_plan \<Rightarrow> topology \<Rightarrow> feed_operation \<Rightarrow> pipeline_node_state option \<Rightarrow> event list \<Rightarrow>
   (cosmos_error + pipeline) \<times> event list" where
  "build_sequential_drain query_plan topology operation resume h =
     (case validate_query_plan query_plan of
        Inl e \<Rightarrow> (Inl e, h)
      | Inr _ \<Rightarrow>
          (case resume of
             Some StateDrained \<Rightarrow> (Inr DrainedRoot, h)
           | Some (StateSequentialDrain left_most_undrained_epk active_tokens) \<Rightarrow>
               (case validate_saved_snapshot left_most_undrained_epk active_tokens of
                  Inl e \<Rightarrow> (Inl e, h)
                | Inr saved \<Rightarrow>
                    (case plan_resume_from_saved_snapshot topology operation saved (qp_query_ranges query_plan) h of
                       (Inl e, h) \<Rightarrow> (Inl e, h)
                     | (Inr nodes, h) \<Rightarrow> (Inr (if nodes = [] then DrainedRoot else DrainRoot nodes), h)))
           | None \<Rightarrow>
               (case plan_fresh topology operation (qp_query_ranges query_plan) h of
                  (Inl e, h) \<Rightarrow> (Inl e, h)
                | (Inr nodes, h) \<Rightarrow>
                    if nodes = [] then (Inl (client_error CLIENT_QUERY_PLAN_PRODUCED_EMPTY_RANGES), h)
                    else (Inr (DrainRoot nodes), h))
           | Some _ \<Rightarrow> (Inl (client_error CLIENT_CONTINUATION_TOKEN_SHAPE_MISMATCH), h)))"

section \<open>Planning a change feed\<close>

definition with_change_feed_start :: "change_feed_start_from \<Rightarrow> feed_operation \<Rightarrow> feed_operation" where
  "with_change_feed_start start_from self =
     (case start_from of
        Beginning \<Rightarrow> self
      | Now \<Rightarrow> self\<lparr>fo_precondition := Some (IfNoneMatch ''*'')\<rparr>
      | PointInTime timestamp \<Rightarrow> self\<lparr>fo_if_modified_since := Some timestamp\<rparr>)
     \<lparr>fo_change_feed_start := Some start_from\<rparr>"

text \<open>The sweep over the saved tokens inside one resolved range.\<close>

fun sweep_tokens ::
  "feed_operation \<Rightarrow> resolved_range \<Rightarrow> feed_range \<Rightarrow> saved_active_token list \<Rightarrow> epk \<Rightarrow> cosmos_error + request list \<times> epk" where
  "sweep_tokens operation resolved rng [] cursor = Inr ([], cursor)"
| "sweep_tokens operation resolved rng (token # tokens) cursor =
     (case intersect_feed_ranges (st_range token) rng of
        None \<Rightarrow> sweep_tokens operation resolved rng tokens cursor
      | Some part \<Rightarrow>
          (case (if epk_lt cursor (fr_min_inclusive part)
                 then (case new_feed_range cursor (fr_min_inclusive part) of
                         Inl e \<Rightarrow> Inl e | Inr gap \<Rightarrow> Inr [plan_leaf operation resolved gap None])
                 else Inr []) of
             Inl e \<Rightarrow> Inl e
           | Inr gap \<Rightarrow>
               (case sweep_tokens operation resolved rng tokens (fr_max_exclusive part) of
                  Inl e \<Rightarrow> Inl e
                | Inr (nodes, cursor) \<Rightarrow>
                    Inr (gap @ plan_leaf operation resolved part (Some (st_server_continuation token)) # nodes, cursor))))"

text \<open>The leaves of one resolved range; \<^term>\<open>None\<close> is the panic on a range that does not overlap.\<close>

definition merge_leaf ::
  "feed_operation \<Rightarrow> saved_active_token list \<Rightarrow> feed_range \<Rightarrow> resolved_range \<Rightarrow> (cosmos_error + request list) option" where
  "merge_leaf operation saved_tokens feed_range resolved =
     (case intersect_feed_ranges (rr_range resolved) feed_range of
        None \<Rightarrow> None
      | Some rng \<Rightarrow> Some
          (case sweep_tokens operation resolved rng saved_tokens (fr_min_inclusive rng) of
             Inl e \<Rightarrow> Inl e
           | Inr (nodes, cursor) \<Rightarrow>
               if epk_lt cursor (fr_max_exclusive rng) then
                 (case new_feed_range cursor (fr_max_exclusive rng) of
                    Inl e \<Rightarrow> Inl e
                  | Inr tail \<Rightarrow> Inr (nodes @ [plan_leaf operation resolved tail None]))
               else Inr nodes))"

fun merge_leaves ::
  "feed_operation \<Rightarrow> saved_active_token list \<Rightarrow> feed_range \<Rightarrow> resolved_range list \<Rightarrow> (cosmos_error + request list) option" where
  "merge_leaves operation saved_tokens feed_range [] = Some (Inr [])"
| "merge_leaves operation saved_tokens feed_range (resolved # rest) =
     (case merge_leaf operation saved_tokens feed_range resolved of
        None \<Rightarrow> None
      | Some (Inl e) \<Rightarrow> Some (Inl e)
      | Some (Inr nodes) \<Rightarrow>
          (case merge_leaves operation saved_tokens feed_range rest of
             None \<Rightarrow> None
           | Some (Inl e) \<Rightarrow> Some (Inl e)
           | Some (Inr nodes') \<Rightarrow> Some (Inr (nodes @ nodes'))))"

definition plan_merge ::
  "feed_range \<Rightarrow> topology \<Rightarrow> feed_operation \<Rightarrow> saved_active_token list \<Rightarrow> change_feed_start_from option \<Rightarrow> event list \<Rightarrow>
   (node_failure + pipeline) \<times> event list" where
  "plan_merge feed_range topology operation saved_tokens start_marker h =
     (let h' = Resolved feed_range UseCached # h in
      case topology h feed_range UseCached of
        Inl e \<Rightarrow> (Inl (Failed e), h')
      | Inr resolved \<Rightarrow>
          (case merge_leaves operation saved_tokens feed_range resolved of
             None \<Rightarrow> Inl NodePanicked
           | Some (Inl e) \<Rightarrow> Inl (Failed e)
           | Some (Inr nodes) \<Rightarrow>
               if nodes = [] then Inl (Failed (client_error CLIENT_QUERY_PLAN_PRODUCED_EMPTY_RANGES))
               else Inr (MergeRoot (with_start_marker start_marker (unordered_merge_new nodes))),
           h'))"

definition build_unordered_merge ::
  "feed_range \<Rightarrow> topology \<Rightarrow> feed_operation \<Rightarrow> pipeline_node_state option \<Rightarrow> event list \<Rightarrow>
   (node_failure + pipeline) \<times> event list" where
  "build_unordered_merge feed_range topology operation resume h =
     (case resume of
        None \<Rightarrow> plan_merge feed_range topology operation [] (fo_change_feed_start operation) h
      | Some StateDrained \<Rightarrow> (Inr DrainedRoot, h)
      | Some (StateUnorderedMerge active_tokens start_from) \<Rightarrow>
          (case validate_unordered_merge_tokens active_tokens of
             Inl e \<Rightarrow> (Inl (Failed e), h)
           | Inr saved_tokens \<Rightarrow>
               plan_merge feed_range topology
                 (case start_from of Some marker \<Rightarrow> with_change_feed_start marker operation | None \<Rightarrow> operation)
                 saved_tokens start_from h)
      | Some _ \<Rightarrow> (Inl (Failed (client_error CLIENT_CONTINUATION_TOKEN_SHAPE_MISMATCH)), h))"

end
