(* ===== verification/Dataflow_Resume.thy ===== *)
theory Dataflow_Resume
  imports Dataflow_Planner
begin

text \<open>
  The work of planned pipelines, key by key, and that resuming from a snapshot keeps it. A plan is described
  by the set of keys it has work on and the continuation at each of them; appending plans of separate parts
  of the key space appends the descriptions.
\<close>

section \<open>Descriptions of plans\<close>

definition between :: "rat \<Rightarrow> rat \<Rightarrow> epk set" where
  "between lo hi = {k. lo \<le> epk_frac k \<and> epk_frac k < hi}"

abbreviation range_keys :: "feed_range \<Rightarrow> epk set" where
  "range_keys r \<equiv> {k. in_feed_range r k}"

lemma range_keys_between: "range_keys r = between (fr_lo r) (fr_hi r)"
  by (auto simp: between_def epk_order)

text \<open>Nodes for an operation that lie between two bounds, with work on the given keys only.\<close>

definition planned ::
  "feed_operation \<Rightarrow> rat \<Rightarrow> rat \<Rightarrow> epk set \<Rightarrow> (epk \<Rightarrow> string option) \<Rightarrow> request list \<Rightarrow> bool" where
  "planned operation lo hi K w nodes \<longleftrightarrow>
     ready request_feed_range request_work nodes \<and> list_all (\<lambda>n. req_operation n = operation) nodes \<and>
     (\<forall>n \<in> set nodes. lo \<le> fr_lo (range_at request_feed_range n) \<and> fr_hi (range_at request_feed_range n) \<le> hi) \<and>
     (\<forall>k. work_at request_work nodes k = (if k \<in> K then Some (operation, w k) else None))"

lemma planned_Nil: "K = {} \<Longrightarrow> planned operation lo hi K w []"
  by (simp add: planned_def children_ordered_iff)

lemma planned_leaf:
  assumes "proper_range rng" and "\<And>k. in_feed_range rng k \<Longrightarrow> w k = c"
  shows "planned operation (fr_lo rng) (fr_hi rng) (range_keys rng) w [plan_leaf operation resolved rng c]"
  using assms
  by (auto simp: planned_def plan_leaf_def children_ordered_iff request_work_new request_live)

lemma planned_append:
  assumes "planned operation a b K w ns" and "planned operation b' c L w ms" and "b \<le> b'" and "a \<le> b'" and "b \<le> c"
  shows "planned operation a c (K \<union> L) w (ns @ ms)"
  using assms unfolding planned_def by (auto simp: children_ordered_iff; force)

lemma planned_weaken:
  "planned operation a b K w ns \<Longrightarrow> a' \<le> a \<Longrightarrow> b \<le> b' \<Longrightarrow> planned operation a' b' K w ns"
  unfolding planned_def by force

lemma planned_cong:
  "planned operation a b K w ns \<Longrightarrow> K = L \<Longrightarrow> (\<And>k. k \<in> K \<Longrightarrow> w k = v k) \<Longrightarrow> planned operation a b L v ns"
  unfolding planned_def by auto

lemma planned_below:
  assumes "planned operation a b K w ns" and "n \<in> set ns"
  shows "fr_min_inclusive (range_at request_feed_range n) \<in> K"
proof -
  let ?k = "fr_min_inclusive (range_at request_feed_range n)"
  obtain xs ys where ns: "ns = xs @ n # ys" using assms(2) by (meson split_list)
  have ord: "children_ordered request_feed_range (xs @ n # ys)" and lv: "live request_feed_range request_work n"
    using assms(1) ns by (simp_all add: planned_def)
  then obtain r where r: "request_feed_range n = Some r" "proper_range r" by (auto simp: children_ordered_iff)
  then have at: "at_key request_feed_range n ?k" by (simp add: at_key_def proper_has_key)
  have "work_at request_work ns ?k \<noteq> None"
    using req.focus[OF ord at] lv at unfolding ns live_def by metis
  then show ?thesis using assms(1) by (simp add: planned_def split: if_splits)
qed

lemma new_feed_range_Inr [simp]: "epk_frac a \<le> epk_frac b \<Longrightarrow> new_feed_range a b = Inr (FeedEpkRange a b)"
  by (simp add: new_feed_range_def feed_range_new_def epk_order)

section \<open>Tokens\<close>

fun token_at :: "saved_active_token list \<Rightarrow> epk \<Rightarrow> string option" where
  "token_at [] k = None"
| "token_at (t # ts) k = (if in_feed_range (st_range t) k then Some (st_server_continuation t) else token_at ts k)"

abbreviation tokens_ordered :: "saved_active_token list \<Rightarrow> bool" where
  "tokens_ordered ts \<equiv> ranges_ordered (map st_range ts)"

lemma token_at_None: "(\<And>t. t \<in> set ts \<Longrightarrow> \<not> in_feed_range (st_range t) k) \<Longrightarrow> token_at ts k = None"
  by (induction ts) auto

lemma token_at_above:
  "\<forall>t \<in> set ts. epk_frac m \<le> fr_lo (st_range t) \<Longrightarrow> epk_frac k < epk_frac m \<Longrightarrow> token_at ts k = None"
  by (rule token_at_None) (force simp: epk_order)

text \<open>Pieces of the range of a token that cover it on the given keys.\<close>

definition covered :: "epk set \<Rightarrow> saved_active_token \<Rightarrow> feed_range list \<Rightarrow> bool" where
  "covered K t pieces \<longleftrightarrow>
     (\<forall>p \<in> set pieces. fr_lo (st_range t) \<le> fr_lo p \<and> fr_lo p < fr_hi p \<and> fr_hi p \<le> fr_hi (st_range t)) \<and>
     (\<forall>k \<in> K. in_feed_range (st_range t) k \<longrightarrow> (\<exists>p \<in> set pieces. in_feed_range p k))"

lemma covered_append: "covered K t ps \<Longrightarrow> covered L t qs \<Longrightarrow> covered (K \<union> L) t (ps @ qs)"
  by (auto simp: covered_def)

lemma covered_none: "(\<And>k. k \<in> K \<Longrightarrow> \<not> in_feed_range (st_range t) k) \<Longrightarrow> covered K t []"
  by (auto simp: covered_def)

lemma covered_all2_append:
  "list_all2 (covered K) ts cs \<Longrightarrow> list_all2 (covered L) ts ds \<Longrightarrow> list_all2 (covered (K \<union> L)) ts (map2 (@) cs ds)"
  by (induction ts arbitrary: cs ds) (auto simp: list_all2_Cons1 covered_append)

lemma covered_all2_none:
  "(\<And>t k. t \<in> set ts \<Longrightarrow> k \<in> K \<Longrightarrow> \<not> in_feed_range (st_range t) k) \<Longrightarrow> list_all2 (covered K) ts (map (\<lambda>_. []) ts)"
  by (auto simp: list_all2_conv_all_nth intro!: covered_none)

lemma covered_all2_empty [simp]: "list_all2 (covered {}) ts (map (\<lambda>_. []) ts)"
  by (rule covered_all2_none) simp

lemma covered_all2_extend:
  assumes "list_all2 (covered K) ts cs" and "\<And>t k. t \<in> set ts \<Longrightarrow> k \<in> L \<Longrightarrow> k \<notin> K \<Longrightarrow> \<not> in_feed_range (st_range t) k"
  shows "list_all2 (covered L) ts cs"
proof (rule list.rel_mono_strong[OF assms(1)])
  fix t ps
  assume "t \<in> set ts" "covered K t ps"
  with assms(2)[of t] show "covered L t ps" unfolding covered_def by blast
qed

section \<open>The walk over the tokens\<close>

definition walked ::
  "feed_operation \<Rightarrow> saved_active_token list \<Rightarrow> epk \<Rightarrow> epk \<Rightarrow> request list \<Rightarrow> feed_range list list \<Rightarrow> epk \<Rightarrow> bool" where
  "walked operation ts c m nodes coverage c' \<longleftrightarrow>
     planned operation (epk_frac c) (epk_frac c') (between (epk_frac c) (epk_frac c')) (token_at ts) nodes \<and>
     epk_frac c \<le> epk_frac c' \<and> epk_frac c' \<le> epk_frac m \<and>
     (\<forall>k \<in> between (epk_frac c') (epk_frac m). token_at ts k = None) \<and>
     list_all2 (covered (between (epk_frac c) (epk_frac m))) ts coverage"

lemma walk_skip:
  assumes "\<And>k. k \<in> between (epk_frac c) (epk_frac m) \<Longrightarrow> \<not> in_feed_range (st_range t) k"
    and "walked operation ts c m nodes coverage c'"
  shows "walked operation (t # ts) c m nodes ([] # coverage) c'"
  using assms unfolding walked_def
  by (auto simp: between_def intro: covered_none elim!: planned_cong)

lemma walk_stop:
  assumes "tokens_ordered (t # ts)" and "epk_frac m \<le> fr_lo (st_range t)" and "epk_frac c \<le> epk_frac m"
  shows "walked operation (t # ts) c m [] (replicate (Suc (length ts)) []) c"
proof -
  have out: "\<not> in_feed_range (st_range u) k" if "u \<in> set (t # ts)" "epk_frac k < epk_frac m" for u k
    using assms(1,2) that by (force simp: epk_order)
  have "list_all2 (covered (between (epk_frac c) (epk_frac m))) (t # ts) (map (\<lambda>_. []) (t # ts))"
    by (rule covered_all2_none) (use out in \<open>auto simp: between_def\<close>)
  then show ?thesis
    using assms(3) out unfolding walked_def map_replicate_const
    by (auto simp: between_def intro!: planned_Nil token_at_None)
qed

lemma walk_overlap:
  assumes ord: "tokens_ordered (t # ts)" and c: "epk_frac c < fr_hi (st_range t)" and m: "epk_frac m \<le> epk_frac epk_MAX"
    and lo: "epk_frac om = max (epk_frac c) (fr_lo (st_range t))" and hi: "epk_frac ox = min (epk_frac m) (fr_hi (st_range t))"
    and lt: "epk_frac om < epk_frac ox"
    and gap: "gap = (if epk_frac c < epk_frac om then [plan_leaf operation resolved (FeedEpkRange c om) None] else [])"
    and w: "walked operation ts ox m nodes coverage c'"
  shows "walked operation (t # ts) c m
    (gap @ plan_leaf operation resolved (FeedEpkRange om ox) (Some (st_server_continuation t)) # nodes)
    ([FeedEpkRange om ox] # coverage) c'"
proof -
  let ?B = "\<lambda>a b. between (epk_frac a) (epk_frac b)"
  have fr: "epk_frac c \<le> epk_frac om" "epk_frac ox \<le> epk_frac c'" "epk_frac c' \<le> epk_frac m" "epk_frac ox \<le> epk_frac m"
    using lo hi w by (auto simp: walked_def)
  have before: "token_at (t # ts) k = None" if "k \<in> ?B c om" for k
    by (rule token_at_None) (use that ord lo in \<open>force simp: between_def epk_order\<close>)
  have inside: "token_at (t # ts) k = Some (st_server_continuation t)" if "k \<in> ?B om ox" for k
    using that lo hi by (auto simp: between_def epk_order)
  have after: "token_at (t # ts) k = token_at ts k" if "k \<in> ?B ox m" for k
    using that hi by (auto simp: between_def epk_order)
  have p1: "planned operation (epk_frac c) (epk_frac om) (?B c om) (token_at (t # ts)) gap"
  proof (cases "epk_frac c < epk_frac om")
    case True
    with planned_leaf[of "FeedEpkRange c om" "token_at (t # ts)" None operation resolved] before gap fr m lt show ?thesis
      by (simp add: range_keys_between) (simp add: between_def epk_order)
  next
    case False
    with gap fr show ?thesis by (auto simp: between_def intro!: planned_Nil)
  qed
  have p2: "planned operation (epk_frac om) (epk_frac ox) (?B om ox) (token_at (t # ts))
      [plan_leaf operation resolved (FeedEpkRange om ox) (Some (st_server_continuation t))]"
    using planned_leaf[of "FeedEpkRange om ox" "token_at (t # ts)" "Some (st_server_continuation t)" operation resolved]
      inside fr m lt by (simp add: range_keys_between) (simp add: between_def epk_order)
  have p3: "planned operation (epk_frac ox) (epk_frac c') (?B ox c') (token_at (t # ts)) nodes"
    using w after fr by (auto simp: walked_def between_def elim!: planned_cong)
  have p23: "planned operation (epk_frac om) (epk_frac c') (?B om ox \<union> ?B ox c') (token_at (t # ts))
      ([plan_leaf operation resolved (FeedEpkRange om ox) (Some (st_server_continuation t))] @ nodes)"
    by (rule planned_append[OF p2 p3]) (use fr lt in auto)
  have "planned operation (epk_frac c) (epk_frac c') (?B c om \<union> (?B om ox \<union> ?B ox c')) (token_at (t # ts))
      (gap @ [plan_leaf operation resolved (FeedEpkRange om ox) (Some (st_server_continuation t))] @ nodes)"
    by (rule planned_append[OF p1 p23]) (use fr lt in auto)
  moreover have "?B c om \<union> (?B om ox \<union> ?B ox c') = ?B c c'" using fr lt by (auto simp: between_def)
  moreover have "covered (?B c m) t [FeedEpkRange om ox]"
    using lo hi lt by (auto simp: covered_def between_def epk_order)
  moreover have "list_all2 (covered (?B c m)) ts coverage"
  proof (rule covered_all2_extend)
    show "list_all2 (covered (?B ox m)) ts coverage" using w by (simp add: walked_def)
    fix u k
    assume "u \<in> set ts" "k \<in> ?B c m" "k \<notin> ?B ox m"
    with ord hi show "\<not> in_feed_range (st_range u) k" by (force simp: between_def epk_order)
  qed
  moreover have "token_at (t # ts) k = None" if "k \<in> ?B c' m" for k
    using that after[of k] w fr by (auto simp: walked_def between_def)
  ultimately show ?thesis using fr lt by (auto simp: walked_def)
qed

lemma walk_tokens_walked:
  assumes "tokens_ordered ts" and "epk_frac c \<le> epk_frac m" and "epk_frac m \<le> epk_frac epk_MAX"
    and "epk_frac c = epk_frac m \<Longrightarrow> \<forall>t \<in> set ts. epk_frac m \<le> fr_lo (st_range t)"
  shows "\<exists>nodes coverage c'. walk_tokens operation resolved m ts c = Inr (nodes, coverage, c') \<and>
    walked operation ts c m nodes coverage c'"
  using assms(1,2,4)
proof (induction ts arbitrary: c)
  case Nil
  then show ?case by (auto simp: walked_def between_def intro: planned_Nil)
next
  case (Cons t ts)
  have ord: "tokens_ordered ts" using Cons.prems(1) by simp
  consider "fr_hi (st_range t) \<le> epk_frac c" | "epk_frac c < fr_hi (st_range t)" "epk_frac m \<le> fr_lo (st_range t)"
    | "epk_frac c < fr_hi (st_range t)" "fr_lo (st_range t) < epk_frac m" by linarith
  then show ?case
  proof cases
    case 1
    obtain nodes coverage c' where "walk_tokens operation resolved m ts c = Inr (nodes, coverage, c')"
      and "walked operation ts c m nodes coverage c'"
      using Cons.IH[OF ord, of c] Cons.prems(2,3) by auto
    moreover have "\<not> in_feed_range (st_range t) k" if "k \<in> between (epk_frac c) (epk_frac m)" for k
      using 1 that by (auto simp: between_def epk_order)
    ultimately show ?thesis using 1 walk_skip[of c m t operation ts] by (auto simp: epk_order)
  next
    case 2
    with walk_stop[OF Cons.prems(1) 2(2) Cons.prems(2)] show ?thesis by (auto simp: epk_order)
  next
    case 3
    let ?om = "if epk_lt c (fr_min_inclusive (st_range t)) then fr_min_inclusive (st_range t) else c"
    let ?ox = "if epk_lt (fr_max_exclusive (st_range t)) m then fr_max_exclusive (st_range t) else m"
    let ?gap = "if epk_frac c < epk_frac ?om then [plan_leaf operation resolved (FeedEpkRange c ?om) None] else []"
    have cm: "epk_frac c < epk_frac m" using Cons.prems(2,3) 3(2) by fastforce
    have om: "epk_frac ?om = max (epk_frac c) (fr_lo (st_range t))" by (simp add: epk_order)
    have ox: "epk_frac ?ox = min (epk_frac m) (fr_hi (st_range t))" by (simp add: epk_order)
    have "proper_range (st_range t)" using Cons.prems(1) by simp
    then have lt: "epk_frac ?om < epk_frac ?ox" using 3 cm unfolding om ox by (simp add: proper_range_frac)
    have "\<forall>u \<in> set ts. fr_hi (st_range t) \<le> fr_lo (st_range u)" using Cons.prems(1) by simp
    then have rest: "epk_frac ?ox = epk_frac m \<Longrightarrow> \<forall>u \<in> set ts. epk_frac m \<le> fr_lo (st_range u)"
      unfolding ox by fastforce
    obtain nodes coverage c' where step: "walk_tokens operation resolved m ts ?ox = Inr (nodes, coverage, c')"
      and w: "walked operation ts ?ox m nodes coverage c'"
      using Cons.IH[OF ord, of ?ox] rest ox by auto
    have "walk_tokens operation resolved m (t # ts) c =
        Inr (?gap @ plan_leaf operation resolved (FeedEpkRange ?om ?ox) (Some (st_server_continuation t)) # nodes,
             [FeedEpkRange ?om ?ox] # coverage, c')"
      using 3 step lt om by (simp add: Let_def epk_order del: if_split)
    with walk_overlap[OF Cons.prems(1) 3(1) assms(3) om ox lt refl w] show ?thesis by blast
  qed
qed

text \<open>The fresh leaf after the last token.\<close>

lemma planned_tail:
  assumes "planned operation a (epk_frac c) (between a (epk_frac c)) (token_at ts) nodes"
    and "a \<le> epk_frac c" and "epk_frac c \<le> epk_frac m" and "epk_frac m \<le> epk_frac epk_MAX"
    and "\<forall>k \<in> between (epk_frac c) (epk_frac m). token_at ts k = None"
  shows "planned operation a (epk_frac m) (between a (epk_frac m)) (token_at ts)
    (nodes @ (if epk_frac c < epk_frac m then [plan_leaf operation resolved (FeedEpkRange c m) None] else []))"
proof (cases "epk_frac c < epk_frac m")
  case True
  have "planned operation (epk_frac c) (epk_frac m) (between (epk_frac c) (epk_frac m)) (token_at ts)
      [plan_leaf operation resolved (FeedEpkRange c m) None]"
    using planned_leaf[of "FeedEpkRange c m" "token_at ts" None operation resolved] True assms(4,5)
    by (simp add: range_keys_between proper_range_frac) (simp add: between_def epk_order)
  from planned_append[OF assms(1) this] assms(2,3)
  have "planned operation a (epk_frac m) (between a (epk_frac c) \<union> between (epk_frac c) (epk_frac m)) (token_at ts)
      (nodes @ [plan_leaf operation resolved (FeedEpkRange c m) None])" by simp
  moreover have "between a (epk_frac c) \<union> between (epk_frac c) (epk_frac m) = between a (epk_frac m)"
    using assms(2,3) by (auto simp: between_def)
  ultimately show ?thesis using True by simp
next
  case False
  with assms(1,3) show ?thesis by (simp add: order_antisym)
qed

section \<open>Resumed plans\<close>

definition resume_keys :: "saved_snapshot \<Rightarrow> feed_range \<Rightarrow> resolved_range list \<Rightarrow> epk set" where
  "resume_keys saved feed_range rs =
     {k. in_feed_range feed_range k \<and> (\<exists>rr \<in> set rs. in_feed_range (rr_range rr) k) \<and> epk_frac (ss_cursor saved) \<le> epk_frac k}"

lemma resume_leaf_planned:
  assumes ord: "tokens_ordered (ss_active_tokens saved)" and "proper_range feed_range" and "proper_range (rr_range rr)"
    and "overlaps (rr_range rr) feed_range"
  shows "\<exists>nodes coverage. resume_leaf operation saved feed_range rr = Inr (nodes, coverage) \<and>
    planned operation (max (fr_lo (rr_range rr)) (fr_lo feed_range)) (min (fr_hi (rr_range rr)) (fr_hi feed_range))
      (resume_keys saved feed_range [rr]) (token_at (ss_active_tokens saved)) nodes \<and>
    list_all2 (covered (resume_keys saved feed_range [rr])) (ss_active_tokens saved) coverage"
proof -
  let ?ts = "ss_active_tokens saved" and ?K = "resume_keys saved feed_range [rr]"
  obtain scope where sc: "intersect_feed_ranges (rr_range rr) feed_range = Some scope"
    using intersect_overlapping[OF assms(3,2,4)] by blast
  note i = intersect_Some[OF sc]
  have MAX: "fr_hi scope \<le> epk_frac epk_MAX" using i assms(2,3) by (auto simp: proper_range_frac min_def)
  show ?thesis
  proof (cases "fr_hi scope \<le> epk_frac (ss_cursor saved)")
    case True
    then have "?K = {}" using i by (auto simp: resume_keys_def epk_order)
    with True sc show ?thesis by (simp add: resume_leaf_def epk_order planned_Nil covered_all2_none)
  next
    case False
    let ?c = "if epk_lt (fr_min_inclusive scope) (ss_cursor saved) then ss_cursor saved else fr_min_inclusive scope"
    let ?m = "fr_max_exclusive scope"
    have c: "epk_frac ?c = max (fr_lo scope) (epk_frac (ss_cursor saved))" by (simp add: epk_order)
    have "fr_lo scope < fr_hi scope" "epk_frac (ss_cursor saved) < fr_hi scope" using i False by linarith+
    then have cm: "epk_frac ?c < epk_frac ?m" by (simp only: c max_less_iff_conj)
    obtain nodes coverage c' where step: "walk_tokens operation rr ?m ?ts ?c = Inr (nodes, coverage, c')"
      and w: "walked operation ?ts ?c ?m nodes coverage c'"
      using walk_tokens_walked[OF ord, of ?c ?m operation rr] cm MAX by auto
    have K: "?K = between (epk_frac ?c) (epk_frac ?m)"
      unfolding c using i by (auto simp: resume_keys_def between_def epk_order)
    let ?tail = "if epk_frac c' < epk_frac ?m then [plan_leaf operation rr (FeedEpkRange c' ?m) None] else []"
    have res: "resume_leaf operation saved feed_range rr = Inr (nodes @ ?tail, coverage)"
      using sc False step cm by (simp add: resume_leaf_def Let_def epk_order)
    have fr: "epk_frac ?c \<le> epk_frac c'" "epk_frac c' \<le> epk_frac ?m" using w by (simp_all add: walked_def)
    have "planned operation (epk_frac ?c) (epk_frac ?m) ?K (token_at ?ts) (nodes @ ?tail)"
      unfolding K by (rule planned_tail) (use w fr MAX in \<open>simp_all add: walked_def\<close>)
    then have "planned operation (max (fr_lo (rr_range rr)) (fr_lo feed_range)) (min (fr_hi (rr_range rr)) (fr_hi feed_range))
        ?K (token_at ?ts) (nodes @ ?tail)"
      using i c by (auto elim!: planned_weaken)
    with res w show ?thesis unfolding K by (auto simp: walked_def)
  qed
qed

lemma resume_leaves_planned:
  assumes ord: "tokens_ordered (ss_active_tokens saved)" and "proper_range feed_range"
    and "ranges_ordered (map rr_range rs)" and "\<forall>rr \<in> set rs. overlaps (rr_range rr) feed_range"
    and "\<forall>rr \<in> set rs. lo \<le> fr_lo (rr_range rr)"
  shows "\<exists>nodes coverage. resume_leaves operation saved feed_range rs = Inr (nodes, coverage) \<and>
    planned operation (max lo (fr_lo feed_range)) (fr_hi feed_range)
      (resume_keys saved feed_range rs) (token_at (ss_active_tokens saved)) nodes \<and>
    list_all2 (covered (resume_keys saved feed_range rs)) (ss_active_tokens saved) coverage"
  using assms(3-5)
proof (induction rs arbitrary: lo)
  case Nil
  then show ?case by (simp add: resume_keys_def planned_Nil covered_all2_none)
next
  case (Cons rr rs)
  have p: "proper_range (rr_range rr)" and o: "overlaps (rr_range rr) feed_range" using Cons.prems by simp_all
  obtain nodes coverage where one: "resume_leaf operation saved feed_range rr = Inr (nodes, coverage)"
    and pl: "planned operation (max (fr_lo (rr_range rr)) (fr_lo feed_range)) (min (fr_hi (rr_range rr)) (fr_hi feed_range))
      (resume_keys saved feed_range [rr]) (token_at (ss_active_tokens saved)) nodes"
    and cv: "list_all2 (covered (resume_keys saved feed_range [rr])) (ss_active_tokens saved) coverage"
    using resume_leaf_planned[OF ord assms(2) p o] by blast
  obtain nodes' coverage' where rest: "resume_leaves operation saved feed_range rs = Inr (nodes', coverage')"
    and pl': "planned operation (max (fr_hi (rr_range rr)) (fr_lo feed_range)) (fr_hi feed_range)
      (resume_keys saved feed_range rs) (token_at (ss_active_tokens saved)) nodes'"
    and cv': "list_all2 (covered (resume_keys saved feed_range rs)) (ss_active_tokens saved) coverage'"
    using Cons.IH[of "fr_hi (rr_range rr)"] Cons.prems by auto
  have keys: "resume_keys saved feed_range [rr] \<union> resume_keys saved feed_range rs = resume_keys saved feed_range (rr # rs)"
    by (auto simp: resume_keys_def)
  have "planned operation (max (fr_lo (rr_range rr)) (fr_lo feed_range)) (fr_hi feed_range)
      (resume_keys saved feed_range (rr # rs)) (token_at (ss_active_tokens saved)) (nodes @ nodes')"
    by (rule planned_append[OF pl pl', unfolded keys]) (use p assms(2) in \<open>auto simp: proper_range_frac min_def max_def\<close>)
  then have "planned operation (max lo (fr_lo feed_range)) (fr_hi feed_range)
      (resume_keys saved feed_range (rr # rs)) (token_at (ss_active_tokens saved)) (nodes @ nodes')"
    by (rule planned_weaken) (use Cons.prems(3) in auto)
  with one rest covered_all2_append[OF cv cv'] show ?case unfolding keys by auto
qed

abbreviation keys_from :: "saved_snapshot \<Rightarrow> (epk \<Rightarrow> bool) \<Rightarrow> epk set" where
  "keys_from saved Q \<equiv> {k. Q k \<and> epk_frac (ss_cursor saved) \<le> epk_frac k}"

lemma resume_leaves_covers:
  assumes ord: "tokens_ordered (ss_active_tokens saved)" and p: "proper_range feed_range" and cov: "covers feed_range rs"
  shows "\<exists>nodes coverage. resume_leaves operation saved feed_range rs = Inr (nodes, coverage) \<and>
    planned operation (fr_lo feed_range) (fr_hi feed_range) (keys_from saved (in_feed_range feed_range))
      (token_at (ss_active_tokens saved)) nodes \<and>
    list_all2 (covered (keys_from saved (in_feed_range feed_range))) (ss_active_tokens saved) coverage"
proof -
  have "resume_keys saved feed_range rs = keys_from saved (in_feed_range feed_range)"
    using cov by (auto simp: resume_keys_def covers_def)
  with resume_leaves_planned[OF ord p, of rs 0 operation] cov show ?thesis by (simp add: covers_def max_absorb2)
qed

text \<open>The ranges that a query is planned on.\<close>

fun query_feed_ranges :: "feed_operation \<Rightarrow> query_range list \<Rightarrow> cosmos_error + feed_range list" where
  "query_feed_ranges operation [] = Inr []"
| "query_feed_ranges operation (q # qs) =
     (case query_range_to_feed_range q (operation_epk_len operation) of
        Inl e \<Rightarrow> Inl e
      | Inr r \<Rightarrow>
          (case query_feed_ranges operation qs of
             Inl e \<Rightarrow> Inl e
           | Inr rs \<Rightarrow> Inr (case clip_to_scope (fo_target operation) r of None \<Rightarrow> rs | Some f \<Rightarrow> f # rs)))"

definition query_keys :: "feed_range list \<Rightarrow> epk \<Rightarrow> bool" where
  "query_keys frs k \<longleftrightarrow> (\<exists>f \<in> set frs. in_feed_range f k)"

lemma plan_resume_ranges_planned:
  assumes top: "topology_sound topology" and ord: "tokens_ordered (ss_active_tokens saved)"
    and "query_feed_ranges operation qs = Inr frs" and "ranges_ordered frs" and "\<forall>f \<in> set frs. lo \<le> fr_lo f"
    and "lo \<le> epk_frac epk_MAX"
  shows "case plan_resume_ranges topology operation saved qs h of
      (Inl e, _) \<Rightarrow> \<exists>h f. topology h f UseCached = Inl e
    | (Inr (nodes, coverage), _) \<Rightarrow>
        planned operation lo (epk_frac epk_MAX) (keys_from saved (query_keys frs))
          (token_at (ss_active_tokens saved)) nodes \<and>
        list_all2 (covered (keys_from saved (query_keys frs))) (ss_active_tokens saved) coverage"
  using assms(3-6)
proof (induction qs arbitrary: frs lo h)
  case Nil
  then show ?case by (simp add: query_keys_def planned_Nil covered_all2_none)
next
  case (Cons q qs)
  obtain r rs where r: "query_range_to_feed_range q (operation_epk_len operation) = Inr r"
    and rs: "query_feed_ranges operation qs = Inr rs"
    and frs: "frs = (case clip_to_scope (fo_target operation) r of None \<Rightarrow> rs | Some f \<Rightarrow> f # rs)"
    using Cons.prems(1) by (auto split: sum.splits)
  show ?case
  proof (cases "clip_to_scope (fo_target operation) r")
    case None
    then have eq: "frs = rs" using frs by simp
    show ?thesis using Cons.IH[OF rs, of lo h] Cons.prems(2-4) r None unfolding eq by simp
  next
    case (Some f)
    let ?h = "Resolved f UseCached # h"
    have fr: "proper_range f" "ranges_ordered rs" "\<forall>g \<in> set rs. fr_hi f \<le> fr_lo g" "lo \<le> fr_lo f" and frs': "frs = f # rs"
      using Cons.prems(2,3) frs Some by simp_all
    show ?thesis
    proof (cases "topology h f UseCached")
      case (Inl e)
      with r Some show ?thesis by auto
    next
      case (Inr resolved)
      then have cov: "covers f resolved" using top fr(1) by (auto simp: topology_sound_def)
      obtain nodes coverage where one: "resume_leaves operation saved f resolved = Inr (nodes, coverage)"
        and pl: "planned operation (fr_lo f) (fr_hi f) (keys_from saved (in_feed_range f)) (token_at (ss_active_tokens saved)) nodes"
        and cv: "list_all2 (covered (keys_from saved (in_feed_range f))) (ss_active_tokens saved) coverage"
        using resume_leaves_covers[OF ord fr(1) cov] by blast
      have hi: "fr_hi f \<le> epk_frac epk_MAX" "fr_lo f \<le> fr_hi f" using fr(1) by (simp_all add: proper_range_frac)
      have keys: "keys_from saved (in_feed_range f) \<union> keys_from saved (query_keys rs) = keys_from saved (query_keys frs)"
        by (auto simp: frs' query_keys_def)
      have join: "planned operation lo (epk_frac epk_MAX) (keys_from saved (query_keys frs)) (token_at (ss_active_tokens saved)) (nodes @ nodes')"
        if "planned operation (fr_hi f) (epk_frac epk_MAX) (keys_from saved (query_keys rs)) (token_at (ss_active_tokens saved)) nodes'" for nodes'
        using planned_weaken[OF planned_append[OF pl that], of lo] hi fr(4) unfolding keys by simp
      show ?thesis
        using Cons.IH[OF rs fr(2,3) hi(1), of ?h] r Some Inr one join covered_all2_append[OF cv, of "keys_from saved (query_keys rs)", unfolded keys]
        by (auto simp: Let_def split: sum.splits prod.splits)
    qed
  qed
qed

section \<open>The coverage check\<close>

lemma fully_covered_loop_covers:
  assumes "sorted_wrt (\<lambda>a b. fr_lo a \<le> fr_lo b) ps" and "\<forall>p \<in> set ps. fr_lo p < fr_hi p \<and> fr_hi p \<le> hi"
    and "\<And>k. epk_frac c \<le> epk_frac k \<Longrightarrow> epk_frac k < hi \<Longrightarrow> \<exists>p \<in> set ps. in_feed_range p k"
  shows "\<exists>c'. fully_covered_loop c ps = Some c' \<and> hi \<le> epk_frac c'"
  using assms
proof (induction ps arbitrary: c)
  case Nil
  from Nil(3)[of c] show ?case by fastforce
next
  case (Cons p ps)
  have reach: "fr_lo p \<le> epk_frac c"
  proof (rule ccontr)
    assume "\<not> fr_lo p \<le> epk_frac c"
    with Cons.prems(2) Cons.prems(3)[of c] obtain q where "q \<in> set (p # ps)" "in_feed_range q c" by fastforce
    with \<open>\<not> fr_lo p \<le> epk_frac c\<close> Cons.prems(1) show False by (fastforce simp: epk_order)
  qed
  let ?c = "if epk_lt c (fr_max_exclusive p) then fr_max_exclusive p else c"
  have c: "epk_frac ?c = max (epk_frac c) (fr_hi p)" by (simp add: epk_order)
  have "\<exists>q \<in> set ps. in_feed_range q k" if "epk_frac ?c \<le> epk_frac k" "epk_frac k < hi" for k
    using Cons.prems(3)[of k] that unfolding c by (auto simp: epk_order)
  with Cons.IH[of ?c] Cons.prems(1,2) reach show ?case by (auto simp: epk_order)
qed

lemma covered_fully:
  assumes "covered K t pieces" and "range_keys (st_range t) \<subseteq> K" and "proper_range (st_range t)"
  shows "range_fully_covered (st_range t) pieces"
proof -
  let ?ps = "sort_by (\<lambda>a b. epk_cmp (fr_min_inclusive a) (fr_min_inclusive b)) pieces"
  have "pieces \<noteq> []" using assms proper_has_key[OF assms(3)] by (force simp: covered_def)
  moreover have "\<exists>c. fully_covered_loop (fr_min_inclusive (st_range t)) ?ps = Some c \<and> fr_hi (st_range t) \<le> epk_frac c"
  proof (rule fully_covered_loop_covers)
    show "sorted_wrt (\<lambda>a b. fr_lo a \<le> fr_lo b) ?ps"
      using epk_ord.sorted_sort_by[of fr_min_inclusive pieces] by (simp add: epk_le_frac[symmetric] epk_le_def)
    show "\<forall>p \<in> set ?ps. fr_lo p < fr_hi p \<and> fr_hi p \<le> fr_hi (st_range t)" using assms(1) by (simp add: covered_def)
    show "\<exists>p \<in> set ?ps. in_feed_range p k" if "fr_lo (st_range t) \<le> epk_frac k" "epk_frac k < fr_hi (st_range t)" for k
    proof -
      have "in_feed_range (st_range t) k" using that by (simp add: epk_order)
      with assms(1,2) show ?thesis by (auto simp: covered_def)
    qed
  qed
  ultimately show ?thesis by (auto simp: range_fully_covered_def epk_order)
qed

section \<open>Snapshots\<close>

definition child_token :: "request \<Rightarrow> ranged_token list" where
  "child_token c = (case state_continuation (req_state c) of
     None \<Rightarrow> []
   | Some t \<Rightarrow> [\<lparr>rt_min_epk = epk_to_hex (fr_min_inclusive (range_at request_feed_range c)),
       rt_max_epk = epk_to_hex (fr_max_exclusive (range_at request_feed_range c)), rt_server_continuation = t\<rparr>])"

definition child_saved :: "request \<Rightarrow> saved_active_token list" where
  "child_saved c = (case state_continuation (req_state c) of
     None \<Rightarrow> []
   | Some t \<Rightarrow> [\<lparr>st_range = FeedEpkRange (fr_min_inclusive (range_at request_feed_range c))
       (fr_max_exclusive (range_at request_feed_range c)), st_server_continuation = t\<rparr>])"

abbreviation saved_tokens :: "request list \<Rightarrow> saved_active_token list" where
  "saved_tokens cs \<equiv> concat (map child_saved cs)"

lemma ready_member:
  assumes "ready request_feed_range request_work cs" and "c \<in> set cs"
  shows "\<exists>r. request_feed_range c = Some r \<and> proper_range r \<and> req_state c \<noteq> RequestDrained"
proof -
  obtain r where r: "request_feed_range c = Some r" "proper_range r"
    using assms by (fastforce simp: children_ordered_iff ranges_ordered_def list_all_iff)
  then have "at_key request_feed_range c (fr_min_inclusive r)" by (simp add: at_key_def proper_has_key)
  with assms have "req_state c \<noteq> RequestDrained" by (auto simp: live_def list_all_iff request_work_def)
  with r show ?thesis by blast
qed

lemma drain_snapshot_loop_live:
  assumes "\<forall>c \<in> set cs. req_state c \<noteq> RequestDrained \<and> request_feed_range c \<noteq> None"
  shows "drain_snapshot_loop request_snapshot_state request_feed_range cs (Some cursor) acc =
    Inr (StateSequentialDrain cursor (acc @ concat (map child_token cs)))"
  using assms
  by (induction cs arbitrary: acc)
    (auto simp: request_snapshot_state_def child_token_def split: request_state.splits)

lemma drain_snapshot:
  assumes "ready request_feed_range request_work (c # cs)"
  shows "drain_snapshot_state request_snapshot_state request_feed_range (c # cs) =
    Inr (StateSequentialDrain (epk_to_hex (fr_min_inclusive (range_at request_feed_range c))) (concat (map child_token (c # cs))))"
proof -
  have "\<forall>d \<in> set (c # cs). req_state d \<noteq> RequestDrained \<and> request_feed_range d \<noteq> None"
    using ready_member[OF assms] by fastforce
  with drain_snapshot_loop_live[of cs] show ?thesis
    by (auto simp: drain_snapshot_state_def request_snapshot_state_def child_token_def split: request_state.splits)
qed

lemma merge_snapshot:
  assumes "ready request_feed_range request_work cs"
  shows "merge_snapshot_loop request_snapshot_state request_feed_range cs acc = Inr (acc @ concat (map child_token cs))"
proof -
  have "\<forall>d \<in> set cs. req_state d \<noteq> RequestDrained \<and> request_feed_range d \<noteq> None"
    using ready_member[OF assms] by fastforce
  then show ?thesis
    by (induction cs arbitrary: acc)
      (auto simp: request_snapshot_state_def child_token_def split: request_state.splits)
qed

lemma first_lowest:
  assumes "children_ordered request_feed_range (c # cs)" and "d \<in> set (c # cs)"
  shows "fr_lo (range_at request_feed_range c) \<le> fr_lo (range_at request_feed_range d)"
  using assms by (force simp: children_ordered_iff proper_range_frac)

lemma ordered_saved_tokens:
  assumes "children_ordered request_feed_range cs"
  shows "tokens_ordered (saved_tokens cs) \<and>
    (\<forall>t \<in> set (saved_tokens cs). \<exists>c \<in> set cs. fr_lo (st_range t) = fr_lo (range_at request_feed_range c) \<and>
       fr_hi (st_range t) = fr_hi (range_at request_feed_range c))"
  using assms
  by (induction cs) (force simp: children_ordered_iff child_saved_def proper_range_frac split: option.splits)+

lemma in_same_bounds [simp]:
  "in_feed_range (FeedEpkRange (fr_min_inclusive r) (fr_max_exclusive r)) k = in_feed_range r k"
  by (simp add: in_feed_range_def)

lemma token_at_saved:
  assumes "ready request_feed_range request_work cs" and "work_at request_work cs k = Some (op, w)"
  shows "token_at (saved_tokens cs) k = w"
  using assms
proof (induction cs)
  case (Cons c cs)
  obtain r where r: "request_feed_range c = Some r" "req_state c \<noteq> RequestDrained"
    using ready_member[OF Cons.prems(1), of c] by auto
  have rd: "ready request_feed_range request_work cs" using Cons.prems(1) by (simp add: children_ordered_iff)
  show ?case
  proof (cases "in_feed_range r k")
    case True
    then have w: "state_continuation (req_state c) = w"
      using Cons.prems(2) r by (simp add: request_work_def at_key_def)
    have "token_at (saved_tokens cs) k = None"
      using ordered_saved_tokens[of cs] rd Cons.prems(1) True r
      by (intro token_at_None) (force simp: children_ordered_iff epk_order)
    with w True r show ?thesis by (simp add: child_saved_def[of c] split: option.splits)
  next
    case False
    with Cons r rd show ?thesis by (auto simp: request_work_def at_key_def child_saved_def[of c] split: option.splits)
  qed
qed simp

lemma validate_saved:
  assumes "children_ordered request_feed_range cs"
    and "parsed \<noteq> [] \<Longrightarrow> \<forall>c \<in> set cs. fr_hi (st_range (last parsed)) \<le> fr_lo (range_at request_feed_range c)"
  shows "validate_saved_loop parsed (concat (map child_token cs)) = Inr (parsed @ saved_tokens cs) \<and>
    validate_merge_loop parsed (concat (map child_token cs)) = Inr (parsed @ saved_tokens cs)"
  using assms
proof (induction cs arbitrary: parsed)
  case (Cons c cs)
  have c: "fr_lo (range_at request_feed_range c) < fr_hi (range_at request_feed_range c)"
    "\<forall>d \<in> set cs. fr_hi (range_at request_feed_range c) \<le> fr_lo (range_at request_feed_range d)"
    and ord: "children_ordered request_feed_range cs"
    using Cons.prems(1) by (simp_all add: children_ordered_iff proper_range_frac)
  have ne: "fr_min_inclusive (range_at request_feed_range c) \<noteq> fr_max_exclusive (range_at request_feed_range c)"
    using c(1) by auto
  show ?case
  proof (cases "state_continuation (req_state c)")
    case None
    with Cons.IH[OF ord, of parsed] Cons.prems(2) show ?thesis by (simp add: child_token_def[of c] child_saved_def[of c])
  next
    case (Some t)
    with Cons.IH[OF ord, of "parsed @ child_saved c"] Cons.prems(2) c ne show ?thesis
      by (auto simp: child_token_def[of c] child_saved_def[of c] Let_def epk_from_to_hex epk_order)
  qed
qed simp

lemma drain_snapshot_valid:
  assumes "children_ordered request_feed_range (c # cs)"
  shows "validate_saved_snapshot (epk_to_hex (fr_min_inclusive (range_at request_feed_range c))) (concat (map child_token (c # cs))) =
    Inr \<lparr>ss_cursor = fr_min_inclusive (range_at request_feed_range c), ss_active_tokens = saved_tokens (c # cs)\<rparr>"
proof -
  define ts where "ts = saved_tokens (c # cs)"
  have loop: "validate_saved_loop [] (concat (map child_token (c # cs))) = Inr ts"
    using validate_saved[OF assms, of "[]"] by (simp add: ts_def)
  have low: "\<not> epk_lt (fr_min_inclusive (st_range (hd ts))) (fr_min_inclusive (range_at request_feed_range c))" if ne: "ts \<noteq> []"
  proof -
    obtain d where "d \<in> set (c # cs)" "fr_lo (st_range (hd ts)) = fr_lo (range_at request_feed_range d)"
      using conjunct2[OF ordered_saved_tokens[OF assms]] hd_in_set[OF ne] unfolding ts_def by blast
    with first_lowest[OF assms, of d] show ?thesis by (simp add: epk_lt_frac)
  qed
  show ?thesis
    unfolding validate_saved_snapshot_def epk_from_to_hex Let_def loop ts_def[symmetric] using low by auto
qed

section \<open>Fresh plans\<close>

text \<open>A fresh plan is the plan that resumes from the start without tokens.\<close>

definition fresh_snapshot :: saved_snapshot where
  "fresh_snapshot = \<lparr>ss_cursor = epk_MIN, ss_active_tokens = []\<rparr>"

lemma fresh_tokens [simp]: "ss_active_tokens fresh_snapshot = []"
  by (simp add: fresh_snapshot_def)

lemma intersect_bounds: "intersect_feed_ranges a b = Some c \<Longrightarrow> c = FeedEpkRange (fr_min_inclusive c) (fr_max_exclusive c)"
  by (auto simp: intersect_feed_ranges_def Let_def split: if_splits)

lemma resume_leaf_fresh:
  "resume_leaf operation fresh_snapshot feed_range rr =
     (case intersect_feed_ranges (rr_range rr) feed_range of
        None \<Rightarrow> Inl (client_error CLIENT_QUERY_PLAN_RANGE_NOT_COVERED_BY_TOPOLOGY)
      | Some rng \<Rightarrow> Inr ([plan_leaf operation rr rng None], []))"
proof (cases "intersect_feed_ranges (rr_range rr) feed_range")
  case (Some c)
  have zero: "epk_frac epk_MIN = 0" by (simp add: epk_frac_def)
  have lt: "fr_lo c < fr_hi c" using intersect_Some[OF Some] by blast
  then have "0 < fr_hi c" using epk_frac_nonneg le_less_trans by blast
  moreover have "\<not> fr_lo c < 0" by (simp add: not_less)
  ultimately show ?thesis using Some lt intersect_bounds[OF Some]
    by (simp add: resume_leaf_def fresh_snapshot_def Let_def epk_order zero)
qed (simp add: resume_leaf_def)

lemma resume_leaves_fresh:
  "resume_leaves operation fresh_snapshot feed_range rs =
     (case fresh_leaves operation feed_range rs of Inl e \<Rightarrow> Inl e | Inr nodes \<Rightarrow> Inr (nodes, []))"
  by (induction rs) (auto simp: resume_leaf_fresh split: option.splits sum.splits)

lemma plan_fresh_resume:
  "plan_resume_ranges topology operation fresh_snapshot qs h =
     (case plan_fresh topology operation qs h of (Inl e, h) \<Rightarrow> (Inl e, h) | (Inr nodes, h) \<Rightarrow> (Inr (nodes, []), h))"
  by (induction qs arbitrary: h)
    (auto simp: resume_leaves_fresh Let_def split: option.splits sum.splits prod.splits)

section \<open>Planned queries keep the invariant of a drain\<close>

definition pipeline_children :: "pipeline \<Rightarrow> request list" where
  "pipeline_children p =
     (case p of RequestRoot r \<Rightarrow> [r] | DrainedRoot \<Rightarrow> [] | DrainRoot children \<Rightarrow> children | MergeRoot m \<Rightarrow> um_children m)"

text \<open>The pipeline of a query over the given ranges: a drain, or its end.\<close>

definition query_pipeline :: "feed_operation \<Rightarrow> feed_range list \<Rightarrow> pipeline \<Rightarrow> bool" where
  "query_pipeline operation frs p \<longleftrightarrow>
     (case p of DrainRoot _ \<Rightarrow> True | DrainedRoot \<Rightarrow> True | _ \<Rightarrow> False) \<and>
     drain_inv request_feed_range request_work (query_keys frs) (pipeline_children p) \<and>
     list_all (\<lambda>r. req_operation r = operation) (pipeline_children p)"

abbreviation pipeline_work :: "pipeline \<Rightarrow> epk \<Rightarrow> (feed_operation \<times> string option) option" where
  "pipeline_work p \<equiv> work_at request_work (pipeline_children p)"

lemma planned_drain_inv:
  assumes "planned operation lo hi (keys_from saved Q) w nodes"
  shows "drain_inv request_feed_range request_work Q nodes"
proof (rule req.drain_invI)
  have w: "work_at request_work nodes k = (if k \<in> keys_from saved Q then Some (operation, w k) else None)" for k
    using assms by (simp add: planned_def)
  show "ready request_feed_range request_work nodes" using assms by (simp add: planned_def)
  show "Q k" if "work_at request_work nodes k \<noteq> None" for k using that w[of k] by (simp split: if_splits)
  show "epk_frac k < fr_lo (range_at request_feed_range n)"
    if "Q k" "work_at request_work nodes k = None" "n \<in> set nodes" for k n
    using that(1,2) planned_below[OF assms that(3)] w[of k] by (auto split: if_splits)
qed

lemma drain_tokens_kept:
  assumes inv: "drain_inv request_feed_range request_work Q (c # cs)"
    and ops: "list_all (\<lambda>r. req_operation r = operation) (c # cs)"
    and saved: "ss_cursor saved = fr_min_inclusive (range_at request_feed_range c)"
      "ss_active_tokens saved = saved_tokens (c # cs)"
  shows "(if k \<in> keys_from saved Q then Some (operation, token_at (ss_active_tokens saved) k) else None) =
    work_at request_work (c # cs) k"
proof (cases "work_at request_work (c # cs) k")
  case None
  have "epk_frac k < epk_frac (ss_cursor saved)" if "Q k"
    using req.drain_invD(4)[OF inv that None, of c] saved(1) by simp
  with None show ?thesis by auto
next
  case (Some w)
  obtain op v where w: "w = (op, v)" by (cases w)
  have rd: "ready request_feed_range request_work (c # cs)" using req.drain_invD(1,2)[OF inv] by blast
  obtain d where d: "d \<in> set (c # cs)" "request_work d k = Some w" using work_at_Some[OF Some] by blast
  have "op = operation" using d ops w by (auto simp: request_work_def list_all_iff split: if_splits)
  moreover have "epk_frac (ss_cursor saved) \<le> epk_frac k"
  proof -
    have "fr_lo (range_at request_feed_range c) \<le> fr_lo (range_at request_feed_range d)"
      using first_lowest d(1) rd by blast
    moreover have "fr_lo (range_at request_feed_range d) \<le> epk_frac k"
      using d(2) by (auto simp: request_work_def at_key_def epk_order split: if_splits option.splits)
    ultimately show ?thesis using saved(1) by simp
  qed
  ultimately show ?thesis
    using Some w token_at_saved[OF rd, of k op v] req.drain_invD(3)[OF inv, of k] saved(2) by simp
qed

lemma drain_tokens_inside:
  assumes inv: "drain_inv request_feed_range request_work Q (c # cs)"
    and ops: "list_all (\<lambda>r. req_operation r = operation) (c # cs)"
    and saved: "ss_cursor saved = fr_min_inclusive (range_at request_feed_range c)"
      "ss_active_tokens saved = saved_tokens (c # cs)"
    and t: "t \<in> set (ss_active_tokens saved)"
  shows "range_keys (st_range t) \<subseteq> keys_from saved Q"
proof
  fix k
  assume k: "k \<in> range_keys (st_range t)"
  have rd: "ready request_feed_range request_work (c # cs)" using req.drain_invD(1,2)[OF inv] by blast
  have toks: "\<forall>t \<in> set (saved_tokens (c # cs)). \<exists>d \<in> set (c # cs). fr_lo (st_range t) = fr_lo (range_at request_feed_range d) \<and>
      fr_hi (st_range t) = fr_hi (range_at request_feed_range d)"
    using ordered_saved_tokens[OF conjunct1[OF rd]] by (rule conjunct2)
  obtain d where d: "d \<in> set (c # cs)" "fr_lo (st_range t) = fr_lo (range_at request_feed_range d)"
    "fr_hi (st_range t) = fr_hi (range_at request_feed_range d)"
    using bspec[OF toks, of t] t unfolding saved(2) by blast
  then have at: "at_key request_feed_range d k" using k ready_member[OF rd d(1)] by (auto simp: at_key_def epk_order)
  have "live request_feed_range request_work d" using rd d(1) unfolding list_all_iff by blast
  with at have "request_work d k \<noteq> None" by (simp add: live_def)
  then have "work_at request_work (c # cs) k \<noteq> None" using d(1) work_at_None_iff[of request_work "c # cs" k] by metis
  then show "k \<in> keys_from saved Q"
    using drain_tokens_kept[OF inv ops saved, of k] by (metis (no_types, lifting))
qed

lemma resume_drain_planned:
  assumes top: "topology_sound topology" and frs: "query_feed_ranges operation qs = Inr frs" "ranges_ordered frs"
    and inv: "drain_inv request_feed_range request_work (query_keys frs) (c # cs)"
    and ops: "list_all (\<lambda>r. req_operation r = operation) (c # cs)"
    and saved: "ss_cursor saved = fr_min_inclusive (range_at request_feed_range c)"
      "ss_active_tokens saved = saved_tokens (c # cs)"
  shows "case plan_resume_from_saved_snapshot topology operation saved qs h of
      (Inl e, _) \<Rightarrow> \<exists>h f. topology h f UseCached = Inl e
    | (Inr nodes, _) \<Rightarrow>
        planned operation 0 (epk_frac epk_MAX) (keys_from saved (query_keys frs)) (token_at (ss_active_tokens saved)) nodes"
proof -
  have ord: "tokens_ordered (ss_active_tokens saved)"
    using ordered_saved_tokens[OF req.drain_invD(1)[OF inv]] unfolding saved(2) by (rule conjunct1)
  have "list_all2 (\<lambda>t. range_fully_covered (st_range t)) (ss_active_tokens saved) coverage"
    if "list_all2 (covered (keys_from saved (query_keys frs))) (ss_active_tokens saved) coverage" for coverage
  proof (rule list.rel_mono_strong[OF that])
    fix t pieces
    assume "t \<in> set (ss_active_tokens saved)" "covered (keys_from saved (query_keys frs)) t pieces"
    with drain_tokens_inside[OF inv ops saved] ord show "range_fully_covered (st_range t) pieces"
      by (intro covered_fully) (auto simp: ranges_ordered_def list_all_iff)
  qed
  with plan_resume_ranges_planned[OF top ord frs, of 0 h] show ?thesis
    by (auto simp: plan_resume_from_saved_snapshot_def split: sum.splits prod.splits)
qed

lemma fresh_drain_planned:
  assumes top: "topology_sound topology" and frs: "query_feed_ranges operation qs = Inr frs" "ranges_ordered frs"
  shows "case plan_fresh topology operation qs h of
      (Inl e, _) \<Rightarrow> \<exists>h f. topology h f UseCached = Inl e
    | (Inr nodes, _) \<Rightarrow> planned operation 0 (epk_frac epk_MAX) {k. query_keys frs k} (\<lambda>_. None) nodes"
proof -
  have "epk_frac epk_MIN = 0" by (simp add: epk_frac_def)
  then have "keys_from fresh_snapshot (query_keys frs) = {k. query_keys frs k}" by (simp add: fresh_snapshot_def)
  moreover have "token_at [] = (\<lambda>_. None)" by (rule ext) simp
  ultimately show ?thesis
    using plan_resume_ranges_planned[OF top _ frs, of fresh_snapshot 0 h]
    by (auto simp: plan_fresh_resume split: sum.splits prod.splits)
qed

section \<open>Change feeds\<close>

text \<open>The sweep over the tokens of a change feed leaves what the walk leaves.\<close>

lemma sweep_tokens_walked:
  assumes "tokens_ordered ts" and "fr_lo rng \<le> epk_frac c" and "epk_frac c \<le> fr_hi rng" and "fr_hi rng \<le> epk_frac epk_MAX"
    and "\<forall>t \<in> set ts. epk_frac c \<le> fr_lo (st_range t) \<or> epk_frac c = fr_lo rng"
  shows "\<exists>nodes coverage c'. sweep_tokens operation resolved rng ts c = Inr (nodes, c') \<and>
    walked operation ts c (fr_max_exclusive rng) nodes coverage c'"
  using assms(1-3,5)
proof (induction ts arbitrary: c)
  case Nil
  then show ?case by (auto simp: walked_def between_def intro: planned_Nil)
next
  case (Cons t ts)
  have ord: "tokens_ordered ts" using Cons.prems(1) by simp
  have pt: "fr_lo (st_range t) < fr_hi (st_range t)" using Cons.prems(1) by (simp add: proper_range_frac)
  show ?case
  proof (cases "intersect_feed_ranges (st_range t) rng")
    case None
    then have out: "\<not> in_feed_range (st_range t) k" if "k \<in> between (epk_frac c) (fr_hi rng)" for k
      using that Cons.prems(2) by (auto simp: intersect_feed_ranges_def Let_def between_def epk_order split: if_splits)
    obtain nodes coverage c' where "sweep_tokens operation resolved rng ts c = Inr (nodes, c')"
      and w: "walked operation ts c (fr_max_exclusive rng) nodes coverage c'"
      using Cons.IH[OF ord Cons.prems(2,3)] Cons.prems(4) by auto
    moreover have "walked operation (t # ts) c (fr_max_exclusive rng) nodes ([] # coverage) c'"
      by (rule walk_skip[OF _ w]) (use out in simp)
    ultimately show ?thesis using None by auto
  next
    case (Some part)
    let ?om = "fr_min_inclusive part" and ?ox = "fr_max_exclusive part"
    have i: "epk_frac ?om = max (fr_lo (st_range t)) (fr_lo rng)" "epk_frac ?ox = min (fr_hi (st_range t)) (fr_hi rng)"
      "epk_frac ?om < epk_frac ?ox" using intersect_Some[OF Some] by blast+
    have om: "epk_frac ?om = max (epk_frac c) (fr_lo (st_range t))"
      using Cons.prems(2,4) unfolding i(1) by (auto simp: max_def)
    have ox: "epk_frac ?ox = min (epk_frac (fr_max_exclusive rng)) (fr_hi (st_range t))" unfolding i(2) by (rule min.commute)
    have lim: "epk_frac c \<le> epk_frac ?om" "epk_frac ?ox \<le> fr_hi (st_range t)" "epk_frac ?ox \<le> fr_hi rng" "fr_lo rng \<le> epk_frac ?om"
      unfolding om ox using Cons.prems(2) by simp_all
    have after: "\<forall>u \<in> set ts. epk_frac ?ox \<le> fr_lo (st_range u) \<or> epk_frac ?ox = fr_lo rng"
      using Cons.prems(1) lim(2) by fastforce
    obtain nodes coverage c' where step: "sweep_tokens operation resolved rng ts ?ox = Inr (nodes, c')"
      and w: "walked operation ts ?ox (fr_max_exclusive rng) nodes coverage c'"
      using Cons.IH[OF ord, of ?ox] after lim i(3) by auto
    let ?gap = "if epk_frac c < epk_frac ?om then [plan_leaf operation resolved (FeedEpkRange c ?om) None] else []"
    have "sweep_tokens operation resolved rng (t # ts) c =
        Inr (?gap @ plan_leaf operation resolved (FeedEpkRange ?om ?ox) (Some (st_server_continuation t)) # nodes, c')"
      using Some step lim intersect_bounds[OF Some] by (simp add: epk_lt_frac)
    moreover have "epk_frac c < fr_hi (st_range t)" using lim i(3) by linarith
    ultimately show ?thesis
      using walk_overlap[OF Cons.prems(1) _ assms(4) om ox i(3) refl w] by blast
  qed
qed

lemma merge_leaf_planned:
  assumes ord: "tokens_ordered ts" and "proper_range feed_range" and "proper_range (rr_range rr)"
    and "overlaps (rr_range rr) feed_range"
  shows "\<exists>nodes. merge_leaf operation ts feed_range rr = Some (Inr nodes) \<and>
    planned operation (max (fr_lo (rr_range rr)) (fr_lo feed_range)) (min (fr_hi (rr_range rr)) (fr_hi feed_range))
      {k. in_feed_range (rr_range rr) k \<and> in_feed_range feed_range k} (token_at ts) nodes"
proof -
  obtain rng where rng: "intersect_feed_ranges (rr_range rr) feed_range = Some rng"
    using intersect_overlapping[OF assms(3,2,4)] by blast
  have i: "fr_lo rng = max (fr_lo (rr_range rr)) (fr_lo feed_range)" "fr_hi rng = min (fr_hi (rr_range rr)) (fr_hi feed_range)"
    "fr_lo rng < fr_hi rng" using intersect_Some[OF rng] by blast+
  have MAX: "fr_hi rng \<le> epk_frac epk_MAX" using i assms(2,3) by (auto simp: proper_range_frac min_def)
  let ?c = "fr_min_inclusive rng" and ?m = "fr_max_exclusive rng"
  obtain nodes coverage c' where step: "sweep_tokens operation rr rng ts ?c = Inr (nodes, c')"
    and w: "walked operation ts ?c ?m nodes coverage c'"
    using sweep_tokens_walked[OF ord, of rng ?c operation rr] MAX i(3) by auto
  let ?tail = "if epk_frac c' < epk_frac ?m then [plan_leaf operation rr (FeedEpkRange c' ?m) None] else []"
  have "merge_leaf operation ts feed_range rr = Some (Inr (nodes @ ?tail))"
    using rng step w by (simp add: merge_leaf_def walked_def epk_lt_frac)
  moreover have "planned operation (fr_lo rng) (fr_hi rng) (between (fr_lo rng) (fr_hi rng)) (token_at ts) (nodes @ ?tail)"
    by (rule planned_tail) (use w MAX in \<open>simp_all add: walked_def\<close>)
  moreover have "between (fr_lo rng) (fr_hi rng) = {k. in_feed_range (rr_range rr) k \<and> in_feed_range feed_range k}"
    unfolding range_keys_between[symmetric] using intersect_keys[OF rng] by auto
  ultimately show ?thesis unfolding i(1,2) by auto
qed

lemma merge_leaves_planned:
  assumes ord: "tokens_ordered ts" and "proper_range feed_range"
    and "ranges_ordered (map rr_range rs)" and "\<forall>rr \<in> set rs. overlaps (rr_range rr) feed_range"
    and "\<forall>rr \<in> set rs. lo \<le> fr_lo (rr_range rr)"
  shows "\<exists>nodes. merge_leaves operation ts feed_range rs = Some (Inr nodes) \<and>
    planned operation (max lo (fr_lo feed_range)) (fr_hi feed_range)
      {k. (\<exists>rr \<in> set rs. in_feed_range (rr_range rr) k) \<and> in_feed_range feed_range k} (token_at ts) nodes"
  using assms(3-5)
proof (induction rs arbitrary: lo)
  case Nil
  then show ?case by (simp add: planned_Nil)
next
  case (Cons rr rs)
  let ?K = "\<lambda>rs. {k. (\<exists>rr \<in> set rs. in_feed_range (rr_range rr) k) \<and> in_feed_range feed_range k}"
  have p: "proper_range (rr_range rr)" and o: "overlaps (rr_range rr) feed_range" using Cons.prems by simp_all
  obtain nodes where one: "merge_leaf operation ts feed_range rr = Some (Inr nodes)"
    and pl: "planned operation (max (fr_lo (rr_range rr)) (fr_lo feed_range)) (min (fr_hi (rr_range rr)) (fr_hi feed_range))
      {k. in_feed_range (rr_range rr) k \<and> in_feed_range feed_range k} (token_at ts) nodes"
    using merge_leaf_planned[OF ord assms(2) p o] by blast
  obtain nodes' where rest: "merge_leaves operation ts feed_range rs = Some (Inr nodes')"
    and pl': "planned operation (max (fr_hi (rr_range rr)) (fr_lo feed_range)) (fr_hi feed_range) (?K rs) (token_at ts) nodes'"
    using Cons.IH[of "fr_hi (rr_range rr)"] Cons.prems by auto
  have keys: "{k. in_feed_range (rr_range rr) k \<and> in_feed_range feed_range k} \<union> ?K rs = ?K (rr # rs)" by auto
  have "planned operation (max (fr_lo (rr_range rr)) (fr_lo feed_range)) (fr_hi feed_range) (?K (rr # rs)) (token_at ts) (nodes @ nodes')"
    by (rule planned_append[OF pl pl', unfolded keys]) (use p assms(2) in \<open>auto simp: proper_range_frac min_def max_def\<close>)
  then have "planned operation (max lo (fr_lo feed_range)) (fr_hi feed_range) (?K (rr # rs)) (token_at ts) (nodes @ nodes')"
    by (rule planned_weaken) (use Cons.prems(3) in auto)
  with one rest show ?case by auto
qed

end
