(* ===== verification/Paged_Query.thy ===== *)
theory Paged_Query
  imports Dataflow_Resume
begin

text \<open>
  Paged queries and change feeds from the first plan to the last page. A session takes pages, meets errors
  and splits, and is broken off and resumed from its snapshot on a topology that has changed. Each key is
  followed through the pages that it is part of: every page for a key must ask from where the page before it
  for that key stopped. The topology provider is assumed to cover what it is asked for, and the ranges of the
  query plan to be in order.
\<close>

section \<open>Pages\<close>

type_synonym page = "exec_request \<times> cosmos_response"

definition page_keys :: "exec_request \<Rightarrow> epk \<Rightarrow> bool" where
  "page_keys r k \<longleftrightarrow> (case owned_range (xr_target r) of Some rng \<Rightarrow> in_feed_range rng k | None \<Rightarrow> False)"

text \<open>The work that a page leaves on its keys.\<close>

definition page_effect :: "exec_request \<Rightarrow> cosmos_response \<Rightarrow> (feed_operation \<times> string option) option" where
  "page_effect r response =
     (if fo_is_change_feed (xr_operation r)
      then Some (xr_operation r, option_or (rh_etag (cr_headers response)) (xr_continuation r))
      else map_option (\<lambda>token. (xr_operation r, Some token)) (rh_continuation (cr_headers response)))"

text \<open>The work at a key after some pages; \<^term>\<open>None\<close> when a page asks for the key from anywhere else than
  where its work stands, or once it has none.\<close>

fun follow ::
  "epk \<Rightarrow> (feed_operation \<times> string option) option \<Rightarrow> page list \<Rightarrow> (feed_operation \<times> string option) option option" where
  "follow k w [] = Some w"
| "follow k w ((r, response) # pages) =
     (if page_keys r k
      then (if w = Some (xr_operation r, xr_continuation r) then follow k (page_effect r response) pages else None)
      else follow k w pages)"

lemma follow_append: "follow k w (ps @ qs) = Option.bind (follow k w ps) (\<lambda>w. follow k w qs)"
  by (induction k w ps rule: follow.induct) auto

definition answered ::
  "dataflow_context \<Rightarrow> request list \<Rightarrow> cosmos_response \<Rightarrow> request list \<Rightarrow> event list \<Rightarrow> bool" where
  "answered ctx cs response cs' h' \<longleftrightarrow>
     (\<exists>r h. h' = Executed r # h \<and> dc_execute ctx h r = Inr response \<and>
        (\<forall>k. follow k (work_at request_work cs k) [(r, response)] = Some (work_at request_work cs' k)))"

lemma request_page_event:
  assumes page: "request_next_page ctx c h = (Inr (Page response t), c', h')" and "request_feed_range c \<noteq> None"
  obtains r where "h' = Executed r # h" and "dc_execute ctx h r = Inr response" and "xr_target r = req_target c"
    and "xr_operation r = req_operation c" and "xr_continuation r = state_continuation (req_state c)"
    and "\<And>k. request_work c' k = (if at_key request_feed_range c k then page_effect r response else None)"
proof -
  let ?r = "\<lparr>xr_operation = req_operation c, xr_target = req_target c, xr_refresh = UseCached,
    xr_continuation = state_continuation (req_state c)\<rparr>"
  have h: "h' = Executed ?r # h" "dc_execute ctx h ?r = Inr response"
    using assms
    by (auto simp: request_next_page_def handle_partition_topology_change_def split_for_topology_change_def
        request_feed_range_def handle_response_def handle_change_feed_response_def Let_def
        split: if_splits sum.splits request_target.splits option.splits prod.splits)
  have "request_work c' k = (if at_key request_feed_range c k then page_effect ?r response else None)" for k
    using request_page[OF page]
    by (auto simp: request_work_def page_effect_def at_key_def request_feed_range_def handle_response_def
        handle_change_feed_response_def Let_def split: if_splits option.splits)
  with h show ?thesis by (intro that[of ?r]) simp_all
qed

lemma page_answered:
  assumes "request_next_page ctx c h = (Inr (Page response t), c', h')" and "request_feed_range c \<noteq> None"
    and "req_state c \<noteq> RequestDrained"
    and "\<forall>k. at_key request_feed_range c k \<longrightarrow> work_at request_work cs k = request_work c k"
    and "\<forall>k. work_at request_work cs' k = (if at_key request_feed_range c k then request_work c' k else work_at request_work cs k)"
  shows "answered ctx cs response cs' h'"
proof -
  obtain r where r: "h' = Executed r # h" "dc_execute ctx h r = Inr response" "xr_target r = req_target c"
    "xr_operation r = req_operation c" "xr_continuation r = state_continuation (req_state c)"
    and w: "\<And>k. request_work c' k = (if at_key request_feed_range c k then page_effect r response else None)"
    using request_page_event[OF assms(1,2)] by blast
  have keys: "page_keys r k = at_key request_feed_range c k" for k
    by (simp add: page_keys_def at_key_def request_feed_range_def r(3))
  have "follow k (work_at request_work cs k) [(r, response)] = Some (work_at request_work cs' k)" for k
    using assms(3-5) w[of k] r(4,5) by (simp add: keys request_work_def)
  with r(1,2) show ?thesis unfolding answered_def by blast
qed

lemma operations_of_work:
  assumes "ready request_feed_range request_work cs"
  shows "list_all (\<lambda>r. req_operation r = operation) cs \<longleftrightarrow>
    (\<forall>k w. work_at request_work cs k = Some w \<longrightarrow> fst w = operation)"
proof
  assume "list_all (\<lambda>r. req_operation r = operation) cs"
  then show "\<forall>k w. work_at request_work cs k = Some w \<longrightarrow> fst w = operation"
    using work_at_Some[of request_work cs] by (fastforce simp: list_all_iff request_work_def split: if_splits)
next
  assume all: "\<forall>k w. work_at request_work cs k = Some w \<longrightarrow> fst w = operation"
  show "list_all (\<lambda>r. req_operation r = operation) cs"
    unfolding list_all_iff
  proof
    fix c
    assume c: "c \<in> set cs"
    then obtain xs ys where cs: "cs = xs @ c # ys" by (meson split_list)
    obtain r where r: "request_feed_range c = Some r" "proper_range r" "req_state c \<noteq> RequestDrained"
      using ready_member[OF assms c] by blast
    then have at: "at_key request_feed_range c (fr_min_inclusive r)" by (simp add: at_key_def proper_has_key)
    have "work_at request_work cs (fr_min_inclusive r) = request_work c (fr_min_inclusive r)"
      using req.focus[of xs c ys, OF _ at] assms unfolding cs by blast
    with all at r(3) show "req_operation c = operation" by (auto simp: request_work_def)
  qed
qed

lemma answered_operations:
  assumes "answered ctx cs response cs' h'" and "\<forall>k w. work_at request_work cs k = Some w \<longrightarrow> fst w = operation"
  shows "\<forall>k w. work_at request_work cs' k = Some w \<longrightarrow> fst w = operation"
proof (intro allI impI)
  fix k w
  assume w: "work_at request_work cs' k = Some w"
  obtain r where "follow k (work_at request_work cs k) [(r, response)] = Some (Some w)"
    using assms(1) w unfolding answered_def by metis
  then show "fst w = operation"
    using assms(2)[THEN spec, of k] by (cases w) (auto simp: page_effect_def split: if_splits)
qed

section \<open>Queries\<close>

lemma drain_page:
  assumes cov: "topology_covers ctx" and inv: "drain_inv request_feed_range request_work Q cs"
    and page: "drain_next_page (request_next_page ctx) cs h = (result, cs', h')"
  shows "drain_inv request_feed_range request_work Q cs' \<and>
    (case result of
       Inl e \<Rightarrow> e \<noteq> NodePanicked \<and> (\<forall>k. work_at request_work cs' k = work_at request_work cs k)
     | Inr (Page response t) \<Rightarrow> answered ctx cs response cs' h' \<and> (t \<longleftrightarrow> cs' = [])
     | Inr PageDrained \<Rightarrow> cs' = [] \<and> (\<forall>k. work_at request_work cs k = None)
     | Inr (SplitRequired _) \<Rightarrow> False)"
proof -
  have s: "drain_inv request_feed_range request_work Q cs'"
    "drain_result (request_next_page ctx) request_feed_range request_work cs result cs' h'"
    using req.drain_loop_sound[OF cov refl inv page[unfolded drain_next_page_def]] by blast+
  show ?thesis
  proof (cases "\<exists>response t. result = Inr (Page response t)")
    case True
    then obtain response t where r: "result = Inr (Page response t)" by blast
    with s(2) obtain c h0 t' c' where c: "request_next_page ctx c h0 = (Inr (Page response t'), c', h')"
      "request_feed_range c \<noteq> None" "\<forall>k. at_key request_feed_range c k \<longrightarrow> work_at request_work cs k = request_work c k"
      "\<forall>k. work_at request_work cs' k = (if at_key request_feed_range c k then request_work c' k else work_at request_work cs k)"
      and t: "t \<longleftrightarrow> cs' = []"
      by (auto simp: drain_result_def)
    have "req_state c \<noteq> RequestDrained" using request_page[OF c(1)] by blast
    from page_answered[OF c(1,2) this c(3,4)] s(1) t r show ?thesis by simp
  next
    case False
    with s show ?thesis by (auto simp: drain_result_def split: sum.splits page_result.splits)
  qed
qed

lemma query_ready: "query_pipeline operation frs p \<Longrightarrow> ready request_feed_range request_work (pipeline_children p)"
  unfolding query_pipeline_def using req.drain_invD(1,2) by blast

lemma query_page:
  assumes cov: "topology_covers ctx" and q: "query_pipeline operation frs p"
    and page: "pipeline_next_page ctx p h = (result, p', h')"
  shows "query_pipeline operation frs p' \<and>
    (case result of
       Inl e \<Rightarrow> e \<noteq> NodePanicked \<and> (\<forall>k. pipeline_work p' k = pipeline_work p k)
     | Inr (Some response) \<Rightarrow> answered ctx (pipeline_children p) response (pipeline_children p') h'
     | Inr None \<Rightarrow> (\<forall>k. pipeline_work p k = None) \<and> (\<forall>k. pipeline_work p' k = None))"
proof (cases p)
  case (DrainRoot cs)
  obtain res cs' where step: "drain_next_page (request_next_page ctx) cs h = (res, cs', h')" and p': "p' = DrainRoot cs'"
    using page DrainRoot by (auto simp: pipeline_next_page_def split: prod.splits)
  have inv: "drain_inv request_feed_range request_work (query_keys frs) cs"
    and ops: "list_all (\<lambda>r. req_operation r = operation) cs"
    using q DrainRoot by (simp_all add: query_pipeline_def pipeline_children_def)
  note d = drain_page[OF cov inv step]
  have "\<forall>k w. work_at request_work cs' k = Some w \<longrightarrow> fst w = operation"
    using d answered_operations[of ctx cs _ cs' h' operation] ops operations_of_work[of cs operation] req.drain_invD(1,2)[OF inv]
    by (cases res) (auto split: page_result.splits)
  then have "list_all (\<lambda>r. req_operation r = operation) cs'"
    using operations_of_work[of cs' operation] d req.drain_invD(1,2)[of _ cs'] by blast
  with d p' have "query_pipeline operation frs p'" by (simp add: query_pipeline_def pipeline_children_def)
  with d page step show ?thesis
    unfolding DrainRoot p' by (auto simp: pipeline_next_page_def pipeline_children_def split: sum.splits page_result.splits)
qed (use assms in \<open>auto simp: query_pipeline_def pipeline_next_page_def pipeline_children_def\<close>)

text \<open>A fresh plan starts every key of the query.\<close>

lemma query_fresh:
  assumes top: "topology_sound topology" and frs: "query_feed_ranges operation (qp_query_ranges plan) = Inr frs" "ranges_ordered frs"
    and plan: "build_sequential_drain plan topology operation None h = (Inr p, h')"
  shows "query_pipeline operation frs p \<and> (\<forall>k. pipeline_work p k = (if query_keys frs k then Some (operation, None) else None))"
proof -
  obtain nodes where fresh: "plan_fresh topology operation (qp_query_ranges plan) h = (Inr nodes, h')" and p: "p = DrainRoot nodes"
    using plan by (auto simp: build_sequential_drain_def split: sum.splits prod.splits if_splits)
  have pl: "planned operation 0 (epk_frac epk_MAX) {k. query_keys frs k} (\<lambda>_. None) nodes"
    using fresh_drain_planned[OF top frs, of h] fresh by simp
  have "{k. query_keys frs k} = keys_from fresh_snapshot (query_keys frs)"
    by (simp add: fresh_snapshot_def epk_frac_def[of epk_MIN])
  with pl have "drain_inv request_feed_range request_work (query_keys frs) nodes" by (auto intro: planned_drain_inv)
  with pl show ?thesis by (simp add: p query_pipeline_def pipeline_children_def planned_def)
qed

lemma query_resume:
  assumes top: "topology_sound topology" and frs: "query_feed_ranges operation (qp_query_ranges plan) = Inr frs" "ranges_ordered frs"
    and valid: "validate_query_plan plan = Inr ()" and q: "query_pipeline operation frs p"
  shows "\<exists>state. pipeline_snapshot_state p = Inr state \<and>
    (case build_sequential_drain plan topology operation (Some state) h of
       (Inl e, _) \<Rightarrow> \<exists>h f. topology h f UseCached = Inl e
     | (Inr p', _) \<Rightarrow> query_pipeline operation frs p' \<and> (\<forall>k. pipeline_work p' k = pipeline_work p k))"
proof (cases "pipeline_children p")
  case Nil
  then have "pipeline_snapshot_state p = Inr StateDrained"
    using q by (auto simp: query_pipeline_def pipeline_children_def drain_snapshot_state_def split: pipeline.splits)
  moreover have "query_pipeline operation frs DrainedRoot"
    using q Nil by (simp add: query_pipeline_def pipeline_children_def)
  ultimately show ?thesis using valid Nil by (simp add: build_sequential_drain_def pipeline_children_def)
next
  case (Cons c cs)
  have p: "p = DrainRoot (c # cs)" and inv: "drain_inv request_feed_range request_work (query_keys frs) (c # cs)"
    and ops: "list_all (\<lambda>r. req_operation r = operation) (c # cs)"
    using q Cons by (auto simp: query_pipeline_def pipeline_children_def split: pipeline.splits)
  have rd: "ready request_feed_range request_work (c # cs)" using req.drain_invD(1,2)[OF inv] by blast
  define saved where
    "saved = \<lparr>ss_cursor = fr_min_inclusive (range_at request_feed_range c), ss_active_tokens = saved_tokens (c # cs)\<rparr>"
  have parts: "ss_cursor saved = fr_min_inclusive (range_at request_feed_range c)" "ss_active_tokens saved = saved_tokens (c # cs)"
    by (simp_all add: saved_def)
  let ?hex = "epk_to_hex (fr_min_inclusive (range_at request_feed_range c))"
  have snap: "pipeline_snapshot_state p = Inr (StateSequentialDrain ?hex (concat (map child_token (c # cs))))"
    unfolding p pipeline_snapshot_state.simps by (rule drain_snapshot[OF rd])
  have loaded: "validate_saved_snapshot ?hex (concat (map child_token (c # cs))) = Inr saved"
    unfolding saved_def by (rule drain_snapshot_valid) (use rd in blast)
  have ok: "query_pipeline operation frs (if nodes = [] then DrainedRoot else DrainRoot nodes) \<and>
      (\<forall>k. pipeline_work (if nodes = [] then DrainedRoot else DrainRoot nodes) k = pipeline_work p k)"
    if "planned operation 0 (epk_frac epk_MAX) (keys_from saved (query_keys frs)) (token_at (ss_active_tokens saved)) nodes" for nodes
  proof -
    have ch: "pipeline_children (if nodes = [] then DrainedRoot else DrainRoot nodes) = nodes" by (simp add: pipeline_children_def)
    have "query_pipeline operation frs (if nodes = [] then DrainedRoot else DrainRoot nodes)"
      using planned_drain_inv[OF that] that unfolding query_pipeline_def ch by (simp add: planned_def)
    moreover have "work_at request_work nodes k = work_at request_work (c # cs) k" for k
      using that unfolding planned_def drain_tokens_kept[OF inv ops parts, symmetric] by simp
    ultimately show ?thesis unfolding ch Cons by blast
  qed
  obtain result h2 where plan: "plan_resume_from_saved_snapshot topology operation saved (qp_query_ranges plan) h = (result, h2)"
    by fastforce
  have "build_sequential_drain plan topology operation (Some (StateSequentialDrain ?hex (concat (map child_token (c # cs))))) h =
      (case result of Inl e \<Rightarrow> Inl e | Inr nodes \<Rightarrow> Inr (if nodes = [] then DrainedRoot else DrainRoot nodes), h2)"
    unfolding build_sequential_drain_def valid sum.case option.case pipeline_node_state.case loaded plan prod.case
    by (simp split: sum.split)
  with snap resume_drain_planned[OF top frs inv ops parts, of h] ok show ?thesis
    unfolding plan by (cases result) simp_all
qed

section \<open>Sessions\<close>

text \<open>A session of a query: pages, failed calls, and resumptions from a snapshot. A resumption fetches the query plan
  again, which must name the same ranges.\<close>

inductive query_session ::
  "dataflow_context \<Rightarrow> topology \<Rightarrow> query_plan \<Rightarrow> feed_operation \<Rightarrow> pipeline \<Rightarrow> event list \<Rightarrow> page list \<Rightarrow> pipeline \<Rightarrow> event list \<Rightarrow> bool"
  for ctx topology plan operation p h
where
  start: "query_session ctx topology plan operation p h [] p h"
| page: "query_session ctx topology plan operation p h pages p1 h1 \<Longrightarrow>
    pipeline_next_page ctx p1 h1 = (Inr (Some response), p2, Executed r # h2) \<Longrightarrow>
    query_session ctx topology plan operation p h (pages @ [(r, response)]) p2 (Executed r # h2)"
| failed: "query_session ctx topology plan operation p h pages p1 h1 \<Longrightarrow>
    pipeline_next_page ctx p1 h1 = (Inl e, p2, h2) \<Longrightarrow> query_session ctx topology plan operation p h pages p2 h2"
| resumed: "query_session ctx topology plan operation p h pages p1 h1 \<Longrightarrow> pipeline_snapshot_state p1 = Inr state \<Longrightarrow>
    query_feed_ranges operation (qp_query_ranges plan') = query_feed_ranges operation (qp_query_ranges plan) \<Longrightarrow>
    build_sequential_drain plan' topology operation (Some state) h1 = (Inr p2, h2) \<Longrightarrow>
    query_session ctx topology plan operation p h pages p2 h2"

lemma session_follows:
  assumes top: "topology_sound topology" and ctx: "topology_covers ctx"
    and frs: "query_feed_ranges operation (qp_query_ranges plan) = Inr frs" "ranges_ordered frs"
    and q: "query_pipeline operation frs p" and run: "query_session ctx topology plan operation p h pages p' h'"
  shows "query_pipeline operation frs p' \<and> (\<forall>k. follow k (pipeline_work p k) pages = Some (pipeline_work p' k))"
  using run
proof induction
  case start
  then show ?case using q by simp
next
  case (page pages p1 h1 response p2 r h2)
  then have "query_pipeline operation frs p2" "answered ctx (pipeline_children p1) response (pipeline_children p2) (Executed r # h2)"
    using query_page[OF ctx, of operation frs p1 h1] by auto
  with page.IH show ?case by (auto simp: follow_append answered_def)
next
  case (failed pages p1 h1 e p2 h2)
  then show ?case using query_page[OF ctx, of operation frs p1 h1] by auto
next
  case (resumed pages p1 h1 state plan' p2 h2)
  have "validate_query_plan plan' = Inr ()" using resumed.hyps(4) by (auto simp: build_sequential_drain_def split: sum.splits)
  moreover have "query_feed_ranges operation (qp_query_ranges plan') = Inr frs" using resumed.hyps(3) frs(1) by simp
  ultimately show ?case using query_resume[OF top _ frs(2), of operation plan' p1 h1] resumed by auto
qed

section \<open>An example\<close>

text \<open>Two physical ranges; the query has two pages on the lower one.\<close>

definition two_ranges :: "resolved_range list" where
  "two_ranges = [\<lparr>rr_partition_key_range_id = ''0'', rr_range = FeedEpkRange [] [0x80]\<rparr>,
     \<lparr>rr_partition_key_range_id = ''1'', rr_range = FeedEpkRange [0x80] [0xFF]\<rparr>]"

definition ex_topology :: topology where
  "ex_topology h rng refresh = Inr (filter (\<lambda>rr. overlaps (rr_range rr) rng) two_ranges)"

definition ex_operation :: feed_operation where
  "ex_operation = \<lparr>fo_operation = \<lparr>op_resource_type = Document, op_operation_type = Query, op_container = Some some_container\<rparr>,
     fo_target = None, fo_is_change_feed = False, fo_change_feed_start = None, fo_precondition = None,
     fo_if_modified_since = None, fo_partition_key_definition = None\<rparr>"

definition ex_execute :: "event list \<Rightarrow> exec_request \<Rightarrow> cosmos_error + cosmos_response" where
  "ex_execute h r = Inr \<lparr>cr_status = from_parts 200 None,
     cr_headers = response_headers_default
       \<lparr>rh_continuation := (if xr_continuation r = None \<and> page_keys r [] then Some ''c'' else None), rh_etag := Some ''e''\<rparr>,
     cr_body = []\<rparr>"

definition ex_context :: dataflow_context where
  "ex_context = \<lparr>dc_execute = ex_execute, dc_topology = Some ex_topology\<rparr>"

definition ex_plan :: query_plan where
  "ex_plan = \<lparr>qp_query_info = None,
     qp_query_ranges = [\<lparr>qr_min = '''', qr_max = ''FF'', qr_is_min_inclusive = True, qr_is_max_inclusive = False\<rparr>],
     qp_has_hybrid_search = False\<rparr>"

lemma ex_topology_sound: "topology_sound ex_topology"
proof -
  have ord: "ranges_ordered (map rr_range two_ranges)"
    by (simp add: two_ranges_def proper_range_frac epk_frac_def)
  have "\<exists>rr \<in> set (filter (\<lambda>rr. overlaps (rr_range rr) rng) two_ranges). in_feed_range (rr_range rr) k"
    if "proper_range rng" "in_feed_range rng k" for rng k
  proof -
    have k: "0 \<le> epk_frac k" "epk_frac k < epk_frac epk_MAX" using that by (auto simp: epk_order)
    have "\<exists>rr \<in> set two_ranges. in_feed_range (rr_range rr) k"
      using k by (cases "epk_frac k < epk_frac [0x80]") (auto simp: two_ranges_def epk_order epk_frac_def[of "[]"])
    then show ?thesis using that(2) by (force simp: overlaps_def epk_order)
  qed
  with ranges_ordered_filter[OF ord] show ?thesis by (auto simp: topology_sound_def ex_topology_def covers_def)
qed

definition ex_lower :: "string option \<Rightarrow> request" where
  "ex_lower c = request_new ex_operation (EffectivePartitionKeyRange None ''0'' (FeedEpkRange [] [0x80])) c"

definition ex_upper :: "string option \<Rightarrow> request" where
  "ex_upper c = request_new ex_operation (EffectivePartitionKeyRange None ''1'' (FeedEpkRange [0x80] [0xFF])) c"

definition ex_request :: "request \<Rightarrow> exec_request" where
  "ex_request r = \<lparr>xr_operation = ex_operation, xr_target = req_target r, xr_refresh = UseCached,
     xr_continuation = state_continuation (req_state r)\<rparr>"

definition ex_response :: "string option \<Rightarrow> cosmos_response" where
  "ex_response c = \<lparr>cr_status = from_parts 200 None, cr_headers = response_headers_default\<lparr>rh_continuation := c, rh_etag := Some ''e''\<rparr>, cr_body = []\<rparr>"

lemmas ex_keys = epk_lt_def epk_le_def epk_cmp_def in_feed_range_def Let_def

lemmas ex_plan_eval = ex_plan_def ex_topology_def two_ranges_def build_sequential_drain_def validate_query_plan_def
  query_range_to_feed_range_def operation_epk_len_def epk_from_str_def hex_nibble_def new_feed_range_def feed_range_new_def
  clip_to_scope_def overlaps_def intersect_feed_ranges_def ex_lower_def ex_upper_def plan_leaf_def effective_partition_key_range_def

lemmas ex_page_eval = pipeline_next_page_def drain_next_page_def request_next_page_def handle_response_def ex_context_def
  ex_execute_def page_keys_def ex_lower_def ex_upper_def ex_request_def ex_response_def request_new_def

lemma ex_operation_simps [simp]: "fo_target ex_operation = None" "fo_partition_key_definition ex_operation = None"
  "fo_is_change_feed ex_operation = False"
  by (simp_all add: ex_operation_def)

lemma ex_ranges: "query_feed_ranges ex_operation (qp_query_ranges ex_plan) = Inr [feed_range_full]"
  by (simp add: ex_plan_eval ex_keys feed_range_full_def)

lemma ex_ranges_ordered: "ranges_ordered [feed_range_full]"
  by (simp add: feed_range_full_def proper_range_frac epk_frac_def)

lemma ex_planned:
  "build_sequential_drain ex_plan ex_topology ex_operation None [] =
   (Inr (DrainRoot [ex_lower None, ex_upper None]), [Resolved feed_range_full UseCached])"
  by (simp add: ex_plan_eval ex_keys feed_range_full_def)

lemma ex_hex: "epk_to_hex [] = []" "epk_to_hex [0x80] = ''80''"
  by code_simp+

lemma ex_resumed:
  "pipeline_snapshot_state (DrainRoot [ex_lower (Some ''c''), ex_upper None]) =
     Inr (StateSequentialDrain [] [\<lparr>rt_min_epk = [], rt_max_epk = ''80'', rt_server_continuation = ''c''\<rparr>])"
  "build_sequential_drain ex_plan ex_topology ex_operation
     (Some (StateSequentialDrain [] [\<lparr>rt_min_epk = [], rt_max_epk = ''80'', rt_server_continuation = ''c''\<rparr>])) h =
   (Inr (DrainRoot [ex_lower (Some ''c''), ex_upper None]), Resolved feed_range_full UseCached # h)"
  subgoal by (simp add: drain_snapshot_state_def request_snapshot_state_def ex_lower_def ex_upper_def request_new_def
    request_feed_range_def ex_hex)
  subgoal by (simp add: ex_plan_eval ex_keys feed_range_full_def validate_saved_snapshot_def plan_resume_from_saved_snapshot_def
    resume_leaf_def range_fully_covered_def sort_by_def)
  done

lemma ex_pages:
  "pipeline_next_page ex_context (DrainRoot [ex_lower None, ex_upper None]) h =
     (Inr (Some (ex_response (Some ''c''))), DrainRoot [ex_lower (Some ''c''), ex_upper None], Executed (ex_request (ex_lower None)) # h)"
  "pipeline_next_page ex_context (DrainRoot [ex_lower (Some ''c''), ex_upper None]) h =
     (Inr (Some (ex_response None)), DrainRoot [ex_upper None], Executed (ex_request (ex_lower (Some ''c''))) # h)"
  "pipeline_next_page ex_context (DrainRoot [ex_upper None]) h =
     (Inr (Some (ex_response None)), DrainRoot [], Executed (ex_request (ex_upper None)) # h)"
  by (simp_all add: ex_page_eval ex_keys)

definition ex_pages_list :: "page list" where
  "ex_pages_list = [(ex_request (ex_lower None), ex_response (Some ''c'')),
     (ex_request (ex_lower (Some ''c'')), ex_response None), (ex_request (ex_upper None), ex_response None)]"

text \<open>A session that takes a page, is resumed, and takes the other two.\<close>

lemma ex_session:
  "\<exists>h'. query_session ex_context ex_topology ex_plan ex_operation (DrainRoot [ex_lower None, ex_upper None]) h ex_pages_list (DrainRoot []) h'"
proof -
  let ?S = "query_session ex_context ex_topology ex_plan ex_operation (DrainRoot [ex_lower None, ex_upper None]) h"
  let ?h1 = "Executed (ex_request (ex_lower None)) # h"
  let ?h2 = "Resolved feed_range_full UseCached # ?h1"
  let ?h3 = "Executed (ex_request (ex_lower (Some ''c''))) # ?h2"
  have "?S ([] @ [(ex_request (ex_lower None), ex_response (Some ''c''))]) (DrainRoot [ex_lower (Some ''c''), ex_upper None]) ?h1"
    by (rule query_session.page[OF query_session.start ex_pages(1)])
  from query_session.page[OF query_session.resumed[OF this ex_resumed(1) refl ex_resumed(2)] ex_pages(2)]
  have "?S (([] @ [(ex_request (ex_lower None), ex_response (Some ''c''))]) @ [(ex_request (ex_lower (Some ''c'')), ex_response None)])
      (DrainRoot [ex_upper None]) ?h3" .
  from query_session.page[OF this ex_pages(3)] show ?thesis by (auto simp: ex_pages_list_def)
qed

lemma ex_covers: "topology_covers ex_context"
  by (simp add: topology_covers_def ex_context_def ex_topology_sound)

lemma ex_query_pipeline: "query_pipeline ex_operation [feed_range_full] (DrainRoot [ex_lower (Some ''c''), ex_upper None])"
  using query_page[OF ex_covers _ ex_pages(1)] query_fresh[OF ex_topology_sound ex_ranges ex_ranges_ordered ex_planned] by blast

text \<open>C1. A paged query reads every key of its ranges exactly once, in the order of the server's continuations,
  however often it is split, fails, or is broken off and resumed from its continuation token on another
  topology. Follow any key through all the pages of a session that cover it: the first asks without
  continuation, each later one asks with the continuation that the page before it returned, and none comes
  after the one that returned no continuation. Keys outside the query are never asked for. When the pipeline
  reports its end, every key has come to its last page.

  This holds under two conditions. The topology provider answers every range with non-empty ranges that are sorted,
  disjoint, overlap it and cover it. The ranges of the query plan, as the planner converts and clips them, are
  non-empty, sorted and disjoint, and every plan fetched on a resumption has the same ones; the planner itself does
  not check this. The conversion leaves out the upper bound of a closed range that is not a point.\<close>

theorem query_reads_every_key_once:
  assumes "dc_topology ctx = Some topology" and "topology_sound topology"
    and "query_feed_ranges operation (qp_query_ranges plan) = Inr frs" and "ranges_ordered frs"
    and "build_sequential_drain plan topology operation None h0 = (Inr p, h)"
    and "query_session ctx topology plan operation p h pages p' h'"
  shows "\<forall>k. \<exists>w. follow k (if query_keys frs k then Some (operation, None) else None) pages = Some w \<and>
    (fst (pipeline_next_page ctx p' h') = Inr None \<longrightarrow> w = None)"
proof -
  have ctx: "topology_covers ctx" using assms(1,2) by (simp add: topology_covers_def)
  have q: "query_pipeline operation frs p" "\<forall>k. pipeline_work p k = (if query_keys frs k then Some (operation, None) else None)"
    using query_fresh[OF assms(2-5)] by blast+
  have s: "query_pipeline operation frs p'" "\<forall>k. follow k (pipeline_work p k) pages = Some (pipeline_work p' k)"
    using session_follows[OF assms(2) ctx assms(3,4) q(1) assms(6)] by blast+
  have fin: "pipeline_work p' k = None" if "fst (pipeline_next_page ctx p' h') = Inr None" for k
    using query_page[OF ctx s(1), of h'] that by (cases "pipeline_next_page ctx p' h'") auto
  show ?thesis
  proof
    fix k
    have "follow k (if query_keys frs k then Some (operation, None) else None) pages = Some (pipeline_work p' k)"
      using spec[OF s(2), of k] spec[OF q(2), of k] by simp
    with fin[of k] show "\<exists>w. follow k (if query_keys frs k then Some (operation, None) else None) pages = Some w \<and>
        (fst (pipeline_next_page ctx p' h') = Inr None \<longrightarrow> w = None)" by blast
  qed
qed

theorem query_reads_every_key_once_witness:
  "\<exists>h'. query_session ex_context ex_topology ex_plan ex_operation (DrainRoot [ex_lower None, ex_upper None])
       [Resolved feed_range_full UseCached] ex_pages_list (DrainRoot []) h' \<and>
     follow [0x10] (Some (ex_operation, None)) ex_pages_list = Some None"
proof -
  obtain h' where run: "query_session ex_context ex_topology ex_plan ex_operation (DrainRoot [ex_lower None, ex_upper None])
      [Resolved feed_range_full UseCached] ex_pages_list (DrainRoot []) h'"
    using ex_session by blast
  have key: "query_keys [feed_range_full] [0x10]" by (simp add: query_keys_def feed_range_full_def ex_keys)
  have fin: "fst (pipeline_next_page ex_context (DrainRoot []) h') = Inr None"
    by (simp add: pipeline_next_page_def drain_next_page_def)
  show ?thesis
    using query_reads_every_key_once[OF _ ex_topology_sound ex_ranges ex_ranges_ordered ex_planned run, THEN spec, of "[0x10]"] run key fin
    by (auto simp: ex_context_def)
qed

text \<open>C14. Planning a query again from its continuation token gives a pipeline with the same work on every key: each
  range that was split carries the token of its parent, ranges that were merged are read in parts, what was
  drained stays drained. The snapshot can always be taken, and the only errors of the new plan are those of
  the topology provider. This holds for every topology provider that answers a range with non-empty ranges that
  are sorted, disjoint, overlap it and cover it, for a supported query plan whose converted ranges are
  non-empty, sorted and disjoint, and for every pipeline that satisfies the invariant of such a query.\<close>

theorem query_resume_same_work:
  assumes "topology_sound topology" and "query_feed_ranges operation (qp_query_ranges plan) = Inr frs" and "ranges_ordered frs"
    and "validate_query_plan plan = Inr ()" and "query_pipeline operation frs p"
  shows "\<exists>state. pipeline_snapshot_state p = Inr state \<and>
    (case build_sequential_drain plan topology operation (Some state) h of
       (Inl e, _) \<Rightarrow> \<exists>h f. topology h f UseCached = Inl e
     | (Inr p', _) \<Rightarrow> query_pipeline operation frs p' \<and> (\<forall>k. pipeline_work p' k = pipeline_work p k))"
  by (rule query_resume[OF assms])

theorem query_resume_same_work_witness:
  "\<exists>state p' h'. pipeline_snapshot_state (DrainRoot [ex_lower (Some ''c''), ex_upper None]) = Inr state \<and>
     build_sequential_drain ex_plan ex_topology ex_operation (Some state) [] = (Inr p', h') \<and>
     pipeline_work p' [0x10] = Some (ex_operation, Some ''c'')"
proof -
  have valid: "validate_query_plan ex_plan = Inr ()" by (simp add: validate_query_plan_def ex_plan_def)
  have w: "pipeline_work (DrainRoot [ex_lower (Some ''c''), ex_upper None]) [0x10] = Some (ex_operation, Some ''c'')"
    by (simp add: pipeline_children_def request_work_def at_key_def request_feed_range_def ex_lower_def request_new_def ex_keys)
  show ?thesis
    using query_resume_same_work[OF ex_topology_sound ex_ranges ex_ranges_ordered valid ex_query_pipeline, of "[]"] w
    by (simp add: ex_resumed del: pipeline_snapshot_state.simps)
qed

text \<open>The topology provider was asked last, and named a range that does not overlap the one it was asked for.\<close>

definition misresolved :: "dataflow_context \<Rightarrow> event list \<Rightarrow> bool" where
  "misresolved ctx h' \<longleftrightarrow>
     (\<exists>provider h rng rs rr. dc_topology ctx = Some provider \<and> h' = Resolved rng ForceRefresh # h \<and>
        provider h rng ForceRefresh = Inr rs \<and> rr \<in> set rs \<and> intersect_feed_ranges (rr_range rr) rng = None)"

lemma replacement_nodes_None: "replacement_nodes self rng rs = None \<Longrightarrow> \<exists>rr \<in> set rs. intersect_feed_ranges (rr_range rr) rng = None"
  by (induction rs) (auto split: option.splits)

lemma request_misresolved:
  assumes "request_next_page ctx c h = (Inl NodePanicked, c', h')"
  shows "misresolved ctx h'"
  using assms
  by (auto simp: request_next_page_def handle_partition_topology_change_def split_for_topology_change_def
      handle_response_def handle_change_feed_response_def context_resolve_ranges_def misresolved_def Let_def
      dest!: replacement_nodes_None
      split: if_splits sum.splits request_target.splits option.splits prod.splits)

lemma request_drained_events: "request_next_page ctx c h = (Inr PageDrained, c', h') \<Longrightarrow> h' = h"
  by (frule request_drained) (simp add: request_next_page_def)

lemma drain_loop_bounded:
  "f = request_next_page ctx \<Longrightarrow> n \<le> MAX_SPLIT_RETRIES \<Longrightarrow> drain_loop f n cs h = (result, cs', h') \<Longrightarrow>
   length h' \<le> length h + 2 * (MAX_SPLIT_RETRIES + 1 - n) \<and> (result = Inl NodePanicked \<longrightarrow> misresolved ctx h')"
proof (induction f n cs h rule: drain_loop.induct)
  case (2 f n c cs h)
  note f = "2.prems"(1) and n = "2.prems"(2)
  obtain r c1 h1 where step: "request_next_page ctx c h = (r, c1, h1)" by (metis prod_cases3)
  note few = request_events[OF step]
  consider (stop) "drain_loop f n (c # cs) h = (r, c1 # cs, h1) \<or> fst (drain_loop f n (c # cs) h) \<noteq> Inl NodePanicked"
      "snd (snd (drain_loop f n (c # cs) h)) = h1"
    | (drained) "r = Inr PageDrained"
    | (split) nodes where "r = Inr (SplitRequired nodes)" "n < MAX_SPLIT_RETRIES"
    using step by (fastforce simp: f split: sum.splits page_result.splits if_splits)
  then show ?case
  proof cases
    case stop
    then show ?thesis using "2.prems"(3) few n request_misresolved step by auto
  next
    case drained
    with step request_drained_events have "h1 = h" by blast
    with "2.IH"(1) "2.prems" step drained show ?thesis by simp
  next
    case split
    with "2.prems"(3) step f have "drain_loop f (n + 1) (nodes @ cs) h1 = (result, cs', h')" by simp
    with "2.IH"(2) step split f
    have "length h' \<le> length h1 + 2 * (MAX_SPLIT_RETRIES + 1 - (n + 1)) \<and> (result = Inl NodePanicked \<longrightarrow> misresolved ctx h')"
      by simp
    with few split show ?thesis by auto
  qed
qed auto

text \<open>C17. One call for the next page of a query, be it a single request or a drain of any requests, ends after at most
  22 requests to the service and the topology provider, whatever they answer. It panics only when the
  topology provider, asked last, names a range that does not overlap the one that it was asked for.\<close>

theorem query_call_bounded:
  assumes "pipeline_next_page ctx p h = (result, p', h')" and "case p of MergeRoot _ \<Rightarrow> False | _ \<Rightarrow> True"
  shows "length h' \<le> length h + 22 \<and> (result = Inl NodePanicked \<longrightarrow> misresolved ctx h')"
proof (cases p)
  case (DrainRoot cs)
  obtain res cs' h1 where step: "drain_loop (request_next_page ctx) 0 cs h = (res, cs', h1)" by (metis prod_cases3)
  then have "h' = h1" "result = Inl NodePanicked \<Longrightarrow> res = Inl NodePanicked"
    using assms(1) DrainRoot by (auto simp: pipeline_next_page_def drain_next_page_def split: sum.splits page_result.splits)
  with drain_loop_bounded[OF refl _ step] show ?thesis by simp
next
  case (RequestRoot r)
  obtain res r' h1 where step: "request_next_page ctx r h = (res, r', h1)" by (metis prod_cases3)
  then have "h' = h1" "result = Inl NodePanicked \<Longrightarrow> res = Inl NodePanicked"
    using assms(1) RequestRoot by (auto simp: pipeline_next_page_def split: sum.splits page_result.splits)
  with request_events[OF step] request_misresolved step show ?thesis by auto
qed (use assms in \<open>auto simp: pipeline_next_page_def\<close>)

theorem query_call_bounded_witness:
  "\<exists>result p' h'. pipeline_next_page ex_context (DrainRoot [ex_lower (Some ''c''), ex_upper None]) [] = (result, p', h') \<and>
     length h' \<le> 22 \<and> (result \<noteq> Inl NodePanicked \<or> misresolved ex_context h')"
proof -
  obtain result p' h' where page:
    "pipeline_next_page ex_context (DrainRoot [ex_lower (Some ''c''), ex_upper None]) [] = (result, p', h')"
    by (metis prod_cases3)
  with query_call_bounded[OF page] show ?thesis by auto
qed

section \<open>Change feeds\<close>

text \<open>The pipeline of a change feed over a range.\<close>

definition feed_pipeline :: "feed_operation \<Rightarrow> feed_range \<Rightarrow> change_feed_start_from option \<Rightarrow> pipeline \<Rightarrow> bool" where
  "feed_pipeline operation rng marker p \<longleftrightarrow>
     (case p of
        MergeRoot m \<Rightarrow> um_start_marker m = marker \<and> um_children m \<noteq> [] \<and>
          merge_inv request_feed_range request_work (\<lambda>r. fo_is_change_feed (req_operation r)) (in_feed_range rng) (um_children m) \<and>
          list_all (\<lambda>r. req_operation r = operation) (um_children m)
      | _ \<Rightarrow> False)"

lemma feed_merge_page:
  assumes cov: "topology_covers ctx" and ne: "cs \<noteq> []"
    and inv: "merge_inv request_feed_range request_work (\<lambda>r. fo_is_change_feed (req_operation r)) Q cs"
    and page: "merge_loop (request_next_page ctx) n 0 0 cs cursor h = (result, (cs', cursor'), h')"
  shows "merge_inv request_feed_range request_work (\<lambda>r. fo_is_change_feed (req_operation r)) Q cs' \<and>
    (case result of
       Inl e \<Rightarrow> e \<noteq> NodePanicked \<and> (\<forall>k. work_at request_work cs' k = work_at request_work cs k)
     | Inr (Page response t) \<Rightarrow> \<not> t \<and> answered ctx cs response cs' h'
     | Inr _ \<Rightarrow> False)"
proof -
  have s: "merge_inv request_feed_range request_work (\<lambda>r. fo_is_change_feed (req_operation r)) Q cs'"
    "merge_result (request_next_page ctx) request_feed_range request_work cs result cs' h'"
    using feed.merge_loop_sound[OF cov refl inv ne page] by blast+
  show ?thesis
  proof (cases "\<exists>response t. result = Inr (Page response t)")
    case True
    then obtain response t where r: "result = Inr (Page response t)" by blast
    with s(2) obtain c h0 c' where c: "request_next_page ctx c h0 = (Inr (Page response False), c', h')"
      "request_feed_range c \<noteq> None" "\<forall>k. at_key request_feed_range c k \<longrightarrow> work_at request_work cs k = request_work c k"
      "\<forall>k. work_at request_work cs' k = (if at_key request_feed_range c k then request_work c' k else work_at request_work cs k)"
      and t: "\<not> t"
      by (auto simp: merge_result_def)
    have "req_state c \<noteq> RequestDrained" using request_page[OF c(1)] by blast
    from page_answered[OF c(1,2) this c(3,4)] s(1) t r show ?thesis by simp
  next
    case False
    with s ne show ?thesis by (auto simp: merge_result_def split: sum.splits page_result.splits)
  qed
qed

lemma merge_inv_keys: "merge_inv range_of work e Q cs \<Longrightarrow> work_at work cs k \<noteq> None \<longleftrightarrow> Q k"
  unfolding merge_inv_def by blast

lemma merge_inv_nonempty:
  assumes "merge_inv request_feed_range request_work e (in_feed_range rng) cs" and "proper_range rng"
  shows "cs \<noteq> []"
  using assms proper_has_key[OF assms(2)] by (auto simp: merge_inv_def)

lemma feed_pipeline_page:
  assumes cov: "topology_covers ctx" and p: "proper_range rng" and q: "feed_pipeline operation rng marker p"
    and page: "pipeline_next_page ctx p h = (result, p', h')"
  shows "feed_pipeline operation rng marker p' \<and>
    (case result of
       Inl e \<Rightarrow> e \<noteq> NodePanicked \<and> (\<forall>k. pipeline_work p' k = pipeline_work p k)
     | Inr (Some response) \<Rightarrow> answered ctx (pipeline_children p) response (pipeline_children p') h'
     | Inr None \<Rightarrow> False)"
proof -
  obtain m where m: "p = MergeRoot m" using q by (auto simp: feed_pipeline_def split: pipeline.splits)
  let ?cs = "um_children m"
  have inv: "merge_inv request_feed_range request_work (\<lambda>r. fo_is_change_feed (req_operation r)) (in_feed_range rng) ?cs"
    and ne: "?cs \<noteq> []" and ops: "list_all (\<lambda>r. req_operation r = operation) ?cs" and mk: "um_start_marker m = marker"
    using q m by (simp_all add: feed_pipeline_def)
  obtain res cs' cursor' where step: "merge_loop (request_next_page ctx) (length ?cs) 0 0 ?cs (um_cursor m) h = (res, (cs', cursor'), h')"
    and p': "p' = MergeRoot (m\<lparr>um_children := cs', um_cursor := cursor'\<rparr>)"
    using page m ne by (auto simp: pipeline_next_page_def merge_next_page_def split: prod.splits)
  note d = feed_merge_page[OF cov ne inv step]
  have rd: "ready request_feed_range request_work ?cs" "ready request_feed_range request_work cs'"
    using inv d by (simp_all add: merge_inv_def)
  have "\<forall>k w. work_at request_work cs' k = Some w \<longrightarrow> fst w = operation"
    using d answered_operations[of ctx ?cs _ cs' h' operation] ops operations_of_work[OF rd(1), of operation]
    by (cases res) (auto split: page_result.splits)
  then have "list_all (\<lambda>r. req_operation r = operation) cs'" using operations_of_work[OF rd(2)] by blast
  then have "feed_pipeline operation rng marker p'"
    using d mk merge_inv_nonempty[OF _ p] unfolding p' feed_pipeline_def by auto
  moreover have "case result of
       Inl e \<Rightarrow> e \<noteq> NodePanicked \<and> (\<forall>k. pipeline_work p' k = pipeline_work p k)
     | Inr (Some response) \<Rightarrow> answered ctx (pipeline_children p) response (pipeline_children p') h'
     | Inr None \<Rightarrow> False"
    using d page step ne unfolding m p'
    by (auto simp: pipeline_next_page_def merge_next_page_def pipeline_children_def split: sum.splits page_result.splits)
  ultimately show ?thesis ..
qed

lemma plan_merge_planned:
  assumes top: "topology_sound topology" and p: "proper_range rng" and ord: "tokens_ordered ts"
  shows "case plan_merge rng topology operation ts marker h of
      (Inl e, _) \<Rightarrow> \<exists>h f e'. e = Failed e' \<and> topology h f UseCached = Inl e'
    | (Inr q, _) \<Rightarrow> \<exists>nodes. q = MergeRoot \<lparr>um_children = nodes, um_cursor = 0, um_start_marker = marker\<rparr> \<and> nodes \<noteq> [] \<and>
        planned operation (fr_lo rng) (fr_hi rng) (range_keys rng) (token_at ts) nodes"
proof (cases "topology h rng UseCached")
  case (Inl e)
  then show ?thesis by (auto simp: plan_merge_def)
next
  case (Inr rs)
  then have cov: "covers rng rs" using top p by (auto simp: topology_sound_def)
  have keys: "{k. (\<exists>rr \<in> set rs. in_feed_range (rr_range rr) k) \<and> in_feed_range rng k} = range_keys rng"
    using cov by (auto simp: covers_def)
  obtain nodes where nodes: "merge_leaves operation ts rng rs = Some (Inr nodes)"
    and pl: "planned operation (fr_lo rng) (fr_hi rng) (range_keys rng) (token_at ts) nodes"
    using merge_leaves_planned[OF ord p, of rs 0 operation] cov by (auto simp: covers_def keys max_absorb2)
  have "work_at request_work nodes (fr_min_inclusive rng) \<noteq> None" using pl proper_has_key[OF p] by (simp add: planned_def)
  then have "nodes \<noteq> []" by auto
  with nodes pl Inr show ?thesis by (simp add: plan_merge_def with_start_marker_def unordered_merge_new_def)
qed

text \<open>Tokens that pass the validation are in order, if they do not go beyond the maximum key.\<close>

lemma tokens_ordered_snoc:
  assumes "tokens_ordered ts" and "proper_range (st_range t)" and "ts = [] \<or> fr_hi (st_range (last ts)) \<le> fr_lo (st_range t)"
  shows "tokens_ordered (ts @ [t])"
proof (cases ts rule: rev_cases)
  case (snoc us u)
  with assms have "fr_lo (st_range u) < fr_hi (st_range u)" "\<forall>x \<in> set us. fr_hi (st_range x) \<le> fr_lo (st_range u)"
    "fr_hi (st_range u) \<le> fr_lo (st_range t)"
    by (auto simp: proper_range_frac)
  with assms(1,2) snoc show ?thesis by fastforce
qed (use assms in simp)

lemma validate_merge_ordered:
  "validate_merge_loop parsed entries = Inr ts \<Longrightarrow> tokens_ordered parsed \<Longrightarrow>
   list_all (\<lambda>entry. epk_le (epk_from_str (rt_max_epk entry)) epk_MAX) entries \<Longrightarrow> tokens_ordered ts"
proof (induction entries arbitrary: parsed)
  case (Cons entry entries)
  let ?lo = "epk_from_str (rt_min_epk entry)" and ?hi = "epk_from_str (rt_max_epk entry)"
  from Cons.prems(1) obtain rng where r: "\<not> epk_le ?hi ?lo" "new_feed_range ?lo ?hi = Inr rng"
    "parsed = [] \<or> \<not> epk_lt (fr_min_inclusive rng) (fr_max_exclusive (st_range (last parsed)))"
    "validate_merge_loop (parsed @ [\<lparr>st_range = rng, st_server_continuation = rt_server_continuation entry\<rparr>]) entries = Inr ts"
    by (auto simp: Let_def split: if_splits sum.splits)
  have "proper_range rng"
    using r(1,2) Cons.prems(3) by (auto simp: new_feed_range_def feed_range_new_def proper_range_frac epk_order split: sum.splits if_splits)
  moreover have "parsed = [] \<or> fr_hi (st_range (last parsed)) \<le> fr_lo rng" using r(3) by (auto simp: epk_order)
  ultimately have "tokens_ordered (parsed @ [\<lparr>st_range = rng, st_server_continuation = rt_server_continuation entry\<rparr>])"
    by (intro tokens_ordered_snoc[OF Cons.prems(2)]) simp_all
  with Cons.IH[OF r(4)] Cons.prems(3) show ?case by simp
qed simp

lemma planned_feed:
  assumes "planned operation lo hi (range_keys rng) w nodes" and "nodes \<noteq> []" and "fo_is_change_feed operation"
  shows "feed_pipeline operation rng marker (MergeRoot \<lparr>um_children = nodes, um_cursor = 0, um_start_marker = marker\<rparr>)"
  using assms by (auto simp: feed_pipeline_def merge_inv_def planned_def list_all_iff)

lemma feed_fresh:
  assumes top: "topology_sound topology" and p: "proper_range rng" and cf: "fo_is_change_feed operation"
    and plan: "build_unordered_merge rng topology operation None h = (Inr q, h')"
  shows "feed_pipeline operation rng (fo_change_feed_start operation) q \<and>
    (\<forall>k. pipeline_work q k = (if in_feed_range rng k then Some (operation, None) else None))"
proof -
  obtain nodes where q: "q = MergeRoot \<lparr>um_children = nodes, um_cursor = 0, um_start_marker = fo_change_feed_start operation\<rparr>"
    and ne: "nodes \<noteq> []" and pl: "planned operation (fr_lo rng) (fr_hi rng) (range_keys rng) (token_at []) nodes"
    using plan_merge_planned[OF top p, where ts = "[]" and operation = operation and marker = "fo_change_feed_start operation" and h = h] plan
    by (auto simp: build_unordered_merge_def)
  with planned_feed[OF pl ne cf] show ?thesis by (simp add: pipeline_children_def planned_def)
qed

text \<open>The operation that a caller hands in to resume becomes the operation of the feed once the saved start
  is put on it.\<close>

definition resumes_as :: "feed_operation \<Rightarrow> change_feed_start_from option \<Rightarrow> feed_operation \<Rightarrow> bool" where
  "resumes_as operation marker operation' \<longleftrightarrow>
     (case marker of Some start_from \<Rightarrow> with_change_feed_start start_from operation | None \<Rightarrow> operation) = operation'"

lemma feed_resume:
  assumes top: "topology_sound topology" and p: "proper_range rng" and cf: "fo_is_change_feed operation"
    and caller: "resumes_as caller_operation marker operation" and q: "feed_pipeline operation rng marker q"
  shows "\<exists>state. pipeline_snapshot_state q = Inr state \<and>
    (case build_unordered_merge rng topology caller_operation (Some state) h of
       (Inl e, _) \<Rightarrow> \<exists>h f e'. e = Failed e' \<and> topology h f UseCached = Inl e'
     | (Inr q', _) \<Rightarrow> feed_pipeline operation rng marker q' \<and> (\<forall>k. pipeline_work q' k = pipeline_work q k))"
proof -
  obtain m where m: "q = MergeRoot m" using q by (auto simp: feed_pipeline_def split: pipeline.splits)
  let ?cs = "um_children m" and ?ts = "saved_tokens (um_children m)"
  have inv: "merge_inv request_feed_range request_work (\<lambda>r. fo_is_change_feed (req_operation r)) (in_feed_range rng) ?cs"
    and ne: "?cs \<noteq> []" and ops: "list_all (\<lambda>r. req_operation r = operation) ?cs" and mk: "um_start_marker m = marker"
    using q m by (simp_all add: feed_pipeline_def)
  have rd: "ready request_feed_range request_work ?cs" using inv by (simp add: merge_inv_def)
  let ?state = "StateUnorderedMerge (concat (map child_token ?cs)) marker"
  have snap: "pipeline_snapshot_state q = Inr ?state"
    using merge_snapshot[OF rd, of "[]"] ne mk by (simp add: m merge_snapshot_state_def)
  have ord: "tokens_ordered ?ts" using ordered_saved_tokens[OF conjunct1[OF rd]] by (rule conjunct1)
  have loaded: "validate_unordered_merge_tokens (concat (map child_token ?cs)) = Inr ?ts"
    using validate_saved[OF conjunct1[OF rd], of "[]"] by (simp add: validate_unordered_merge_tokens_def)
  have plan: "build_unordered_merge rng topology caller_operation (Some ?state) h = plan_merge rng topology operation ?ts marker h"
    using caller unfolding build_unordered_merge_def option.case pipeline_node_state.case loaded sum.case resumes_as_def by simp
  have same: "(if k \<in> range_keys rng then Some (operation, token_at ?ts k) else None) = work_at request_work ?cs k" for k
  proof (cases "work_at request_work ?cs k")
    case None
    with merge_inv_keys[OF inv, of k] show ?thesis by simp
  next
    case (Some w)
    have "fst w = operation" using operations_of_work[OF rd, of operation] ops Some by blast
    moreover have "token_at ?ts k = snd w" using token_at_saved[OF rd, of k "fst w" "snd w"] Some by simp
    moreover have "in_feed_range rng k" using merge_inv_keys[OF inv, of k] Some by simp
    ultimately show ?thesis using Some by (cases w) simp
  qed
  have ok: "feed_pipeline operation rng marker (MergeRoot \<lparr>um_children = nodes, um_cursor = 0, um_start_marker = marker\<rparr>) \<and>
      (\<forall>k. work_at request_work nodes k = work_at request_work ?cs k)"
    if "planned operation (fr_lo rng) (fr_hi rng) (range_keys rng) (token_at ?ts) nodes" "nodes \<noteq> []" for nodes
    using planned_feed[OF that cf] that(1) unfolding planned_def same by blast
  obtain result h2 where r: "plan_merge rng topology operation ?ts marker h = (result, h2)" by fastforce
  have "case build_unordered_merge rng topology caller_operation (Some ?state) h of
      (Inl e, _) \<Rightarrow> \<exists>h f e'. e = Failed e' \<and> topology h f UseCached = Inl e'
    | (Inr q', _) \<Rightarrow> feed_pipeline operation rng marker q' \<and> (\<forall>k. pipeline_work q' k = pipeline_work q k)"
    using plan_merge_planned[OF top p ord, where operation = operation and marker = marker and h = h] ok
    unfolding plan r by (cases result) (auto simp: m pipeline_children_def)
  with snap show ?thesis by (intro exI[of _ ?state] conjI)
qed

inductive feed_session ::
  "dataflow_context \<Rightarrow> topology \<Rightarrow> feed_range \<Rightarrow> feed_operation \<Rightarrow> pipeline \<Rightarrow> event list \<Rightarrow> page list \<Rightarrow> pipeline \<Rightarrow> event list \<Rightarrow> bool"
  for ctx topology rng operation p h
where
  feed_start: "feed_session ctx topology rng operation p h [] p h"
| feed_page: "feed_session ctx topology rng operation p h pages p1 h1 \<Longrightarrow>
    pipeline_next_page ctx p1 h1 = (Inr (Some response), p2, Executed r # h2) \<Longrightarrow>
    feed_session ctx topology rng operation p h (pages @ [(r, response)]) p2 (Executed r # h2)"
| feed_failed: "feed_session ctx topology rng operation p h pages p1 h1 \<Longrightarrow>
    pipeline_next_page ctx p1 h1 = (Inl e, p2, h2) \<Longrightarrow> feed_session ctx topology rng operation p h pages p2 h2"
| feed_resumed: "feed_session ctx topology rng operation p h pages p1 h1 \<Longrightarrow> pipeline_snapshot_state p1 = Inr state \<Longrightarrow>
    resumes_as caller_operation (fo_change_feed_start operation) operation \<Longrightarrow>
    build_unordered_merge rng topology caller_operation (Some state) h1 = (Inr p2, h2) \<Longrightarrow>
    feed_session ctx topology rng operation p h pages p2 h2"

lemma feed_session_follows:
  assumes top: "topology_sound topology" and ctx: "topology_covers ctx" and rng: "proper_range rng"
    and cf: "fo_is_change_feed operation" and q: "feed_pipeline operation rng (fo_change_feed_start operation) p"
    and run: "feed_session ctx topology rng operation p h pages p' h'"
  shows "feed_pipeline operation rng (fo_change_feed_start operation) p' \<and>
    (\<forall>k. follow k (pipeline_work p k) pages = Some (pipeline_work p' k))"
  using run
proof induction
  case feed_start
  then show ?case using q by simp
next
  case (feed_page pages p1 h1 response p2 r h2)
  then have "feed_pipeline operation rng (fo_change_feed_start operation) p2"
    "answered ctx (pipeline_children p1) response (pipeline_children p2) (Executed r # h2)"
    using feed_pipeline_page[OF ctx rng, of operation _ p1 h1] by fastforce+
  with feed_page.IH show ?case by (auto simp: follow_append answered_def)
next
  case (feed_failed pages p1 h1 e p2 h2)
  then show ?case using feed_pipeline_page[OF ctx rng, of operation _ p1 h1] by fastforce
next
  case (feed_resumed pages p1 h1 state caller_operation p2 h2)
  then show ?case using feed_resume[OF top rng cf, of caller_operation _ p1 h1] by fastforce
qed

text \<open>C4. A change feed loses no change and repeats none. Follow any key of its range through all the pages of a
  session, across splits, failures and resumptions: the first page that covers it asks from the start
  of the feed, each later one asks with the last entity tag that was returned for it, and the key never
  drops out of the feed. The range is not empty, and the topology provider answers a range with non-empty ranges
  that are sorted, disjoint, overlap it and cover it. A resumption must hand in an operation that becomes the original
  one when the saved start position is put on it, so it must not bring another start.\<close>

theorem change_feed_loses_nothing:
  assumes "dc_topology ctx = Some topology" and "topology_sound topology" and "proper_range rng" and "fo_is_change_feed operation"
    and "build_unordered_merge rng topology operation None h0 = (Inr p, h)"
    and "feed_session ctx topology rng operation p h pages p' h'"
  shows "\<forall>k. if in_feed_range rng k
    then \<exists>token. follow k (Some (operation, None)) pages = Some (Some (operation, token))
    else follow k None pages = Some None"
proof
  fix k
  have ctx: "topology_covers ctx" using assms(1,2) by (simp add: topology_covers_def)
  have q: "feed_pipeline operation rng (fo_change_feed_start operation) p"
    "pipeline_work p k = (if in_feed_range rng k then Some (operation, None) else None)"
    using feed_fresh[OF assms(2-5)] by blast+
  have s: "feed_pipeline operation rng (fo_change_feed_start operation) p'" "follow k (pipeline_work p k) pages = Some (pipeline_work p' k)"
    using feed_session_follows[OF assms(2) ctx assms(3,4) q(1) assms(6)] by blast+
  obtain m where m: "p' = MergeRoot m"
    and inv: "merge_inv request_feed_range request_work (\<lambda>r. fo_is_change_feed (req_operation r)) (in_feed_range rng) (um_children m)"
    and ops: "list_all (\<lambda>r. req_operation r = operation) (um_children m)"
    using s(1) by (auto simp: feed_pipeline_def split: pipeline.splits)
  have rd: "ready request_feed_range request_work (um_children m)" using inv by (simp add: merge_inv_def)
  have w: "fst v = operation" if "pipeline_work p' k = Some v" for v
    using that operations_of_work[OF rd, of operation] ops unfolding m pipeline_children_def pipeline.case by blast
  have "pipeline_work p' k \<noteq> None \<longleftrightarrow> in_feed_range rng k"
    using merge_inv_keys[OF inv, of k] unfolding m pipeline_children_def pipeline.case .
  then show "if in_feed_range rng k
    then \<exists>token. follow k (Some (operation, None)) pages = Some (Some (operation, token))
    else follow k None pages = Some None"
    using s(2) q(2) w by (cases "pipeline_work p' k") auto
qed

definition ex_feed :: feed_operation where
  "ex_feed = ex_operation\<lparr>fo_operation := \<lparr>op_resource_type = Document, op_operation_type = ReadFeed, op_container = Some some_container\<rparr>,
     fo_is_change_feed := True, fo_change_feed_start := Some Beginning\<rparr>"

definition ex_feed_leaf :: "string \<Rightarrow> feed_range \<Rightarrow> string option \<Rightarrow> request" where
  "ex_feed_leaf i rng c = request_new ex_feed (EffectivePartitionKeyRange None i rng) c"

definition ex_merge :: "string option \<Rightarrow> nat \<Rightarrow> pipeline" where
  "ex_merge c cursor = MergeRoot \<lparr>um_children = [ex_feed_leaf ''0'' (FeedEpkRange [] [0x80]) c,
     ex_feed_leaf ''1'' (FeedEpkRange [0x80] [0xFF]) None], um_cursor = cursor, um_start_marker = Some Beginning\<rparr>"

lemma ex_feed_planned:
  "build_unordered_merge feed_range_full ex_topology ex_feed None [] = (Inr (ex_merge None 0), [Resolved feed_range_full UseCached])"
  by (simp add: build_unordered_merge_def plan_merge_def merge_leaf_def ex_plan_eval ex_keys feed_range_full_def ex_merge_def
      ex_feed_leaf_def with_start_marker_def unordered_merge_new_def ex_feed_def)

lemma ex_feed_page:
  "\<exists>r. pipeline_next_page ex_context (ex_merge None 0) h = (Inr (Some (ex_response (Some ''c''))), ex_merge (Some ''e'') 1, Executed r # h) \<and>
     page_keys r [0x10]"
  by (simp add: ex_page_eval ex_keys ex_merge_def ex_feed_leaf_def merge_next_page_def merge_loop.simps handle_change_feed_response_def ex_feed_def)

theorem change_feed_loses_nothing_witness:
  "\<exists>pages p' h'. feed_session ex_context ex_topology feed_range_full ex_feed (ex_merge None 0) [Resolved feed_range_full UseCached] pages p' h' \<and>
     length pages = 1 \<and> (\<exists>token. follow [0x10] (Some (ex_feed, None)) pages = Some (Some (ex_feed, token)))"
proof -
  obtain r where page: "pipeline_next_page ex_context (ex_merge None 0) [Resolved feed_range_full UseCached] =
      (Inr (Some (ex_response (Some ''c''))), ex_merge (Some ''e'') 1, [Executed r, Resolved feed_range_full UseCached])"
    using ex_feed_page by blast
  let ?pages = "[] @ [(r, ex_response (Some ''c''))]"
  have run: "feed_session ex_context ex_topology feed_range_full ex_feed (ex_merge None 0) [Resolved feed_range_full UseCached]
      ?pages (ex_merge (Some ''e'') 1) [Executed r, Resolved feed_range_full UseCached]"
    by (rule feed_session.feed_page[OF feed_session.feed_start page])
  have full: "proper_range feed_range_full" "in_feed_range feed_range_full [0x10]" "fo_is_change_feed ex_feed"
    "dc_topology ex_context = Some ex_topology"
    by (simp_all add: feed_range_full_def proper_range_def ex_keys ex_feed_def ex_context_def)
  from change_feed_loses_nothing[OF full(4) ex_topology_sound full(1,3) ex_feed_planned run, THEN spec, of "[0x10]"] full(2)
  have "\<exists>token. follow [0x10] (Some (ex_feed, None)) ?pages = Some (Some (ex_feed, token))" by (simp only: if_True)
  with run show ?thesis by (intro exI[of _ ?pages]) (auto simp del: follow.simps)
qed

end
