(* ===== verification/Operation_Plan.thy ===== *)
theory Operation_Plan
  imports Paged_Query
begin

text \<open>
  Continuation tokens, \<^verbatim>\<open>models/continuation_token.rs\<close>, and \<^verbatim>\<open>plan_operation\<close> of \<^verbatim>\<open>driver/cosmos_driver.rs\<close>: from an
  operation and an optional token to a pipeline, and from a pipeline back to a token. The formats that the
  \<^verbatim>\<open>serde_json\<close> and \<^verbatim>\<open>base64\<close> packages produce are parameters, and so is the answer of the service when a call fetches its query plan. The lemmas
  show that a token brings back the state it was made from, and only for the operation it was made for.
\<close>

section \<open>Operations\<close>

definition is_trivial :: "feed_operation \<Rightarrow> bool" where
  "is_trivial self =
     (let op = fo_operation self; partition_key = Option.bind (fo_target self) feed_range_partition_key in
      if op_operation_type op \<noteq> Query then
        (if fo_is_change_feed self then partition_key \<noteq> None else True)
      else if \<not> is_partitioned (op_resource_type op) (op_operation_type op) then True
      else case partition_key of
        None \<Rightarrow> False
      | Some pk \<Rightarrow>
          (case fo_partition_key_definition self of
             None \<Rightarrow> False
           | Some pk_def \<Rightarrow> pk_is_complete pk_def pk))"

section \<open>Tokens\<close>

datatype token_operation = TokenQuery | TokenChangeFeed

record token_state =
  tok_operation :: token_operation
  tok_rid :: string
  tok_root :: pipeline_node_state

datatype resolved_token = ClientV1 token_state | ServerOpaque string

text \<open>The encodings that the token uses.\<close>

record token_codec =
  tc_to_json :: "token_state \<Rightarrow> bytes option"
  tc_from_json :: "bytes \<Rightarrow> token_state option"
  tc_encode :: "bytes \<Rightarrow> string"
  tc_decode :: "string \<Rightarrow> bytes option"

abbreviation SDK_V1_PREFIX :: string where "SDK_V1_PREFIX \<equiv> ''c1.''"

definition CLIENT_CONTINUATION_TOKEN_NON_QUERY_OPERATION :: cosmos_status where
  "CLIENT_CONTINUATION_TOKEN_NON_QUERY_OPERATION = from_parts 400 (Some 20117)"

definition SERIALIZATION_RESPONSE_BODY_INVALID :: cosmos_status where
  "SERIALIZATION_RESPONSE_BODY_INVALID = from_parts 500 (Some 20020)"

definition CLIENT_OPAQUE_TOKEN_INVALID_FOR_CROSS_PARTITION_QUERY :: cosmos_status where
  "CLIENT_OPAQUE_TOKEN_INVALID_FOR_CROSS_PARTITION_QUERY = from_parts 400 (Some 20116)"

definition CLIENT_CROSS_PARTITION_QUERY_REQUIRES_CONTAINER_REF :: cosmos_status where
  "CLIENT_CROSS_PARTITION_QUERY_REQUIRES_CONTAINER_REF = from_parts 500 (Some 20209)"

definition CLIENT_DRIVER_NOT_INITIALIZED :: cosmos_status where
  "CLIENT_DRIVER_NOT_INITIALIZED = from_parts 500 (Some 20202)"

abbreviation bad_request :: cosmos_error where
  "bad_request \<equiv> client_error (from_parts 400 None)"

definition for_operation :: "feed_operation \<Rightarrow> cosmos_error + token_operation" where
  "for_operation operation =
     (if op_operation_type (fo_operation operation) = Query then Inr TokenQuery
      else if fo_is_change_feed operation then Inr TokenChangeFeed
      else Inl (client_error CLIENT_CONTINUATION_TOKEN_NON_QUERY_OPERATION))"

definition encode_v1 :: "token_codec \<Rightarrow> feed_operation \<Rightarrow> pipeline_node_state \<Rightarrow> cosmos_error + string" where
  "encode_v1 codec operation root_state =
     (case for_operation operation of
        Inl e \<Rightarrow> Inl e
      | Inr token_operation \<Rightarrow>
          (case op_container (fo_operation operation) of
             None \<Rightarrow> Inl bad_request
           | Some container \<Rightarrow>
               (case tc_to_json codec \<lparr>tok_operation = token_operation, tok_rid = cref_container_rid container, tok_root = root_state\<rparr> of
                  None \<Rightarrow> Inl (client_error SERIALIZATION_RESPONSE_BODY_INVALID)
                | Some json \<Rightarrow> Inr (SDK_V1_PREFIX @ tc_encode codec json))))"

definition parse_client_version_prefix :: "string \<Rightarrow> nat option" where
  "parse_client_version_prefix s =
     (case strip_prefix ''c'' s of
        None \<Rightarrow> None
      | Some after_c \<Rightarrow>
          (case split_once CHR ''.'' after_c of
             None \<Rightarrow> None
           | Some (version, _) \<Rightarrow> parse_unsigned (2 ^ 32) version))"

definition resolve_token :: "token_codec \<Rightarrow> string \<Rightarrow> cosmos_error + resolved_token" where
  "resolve_token codec token =
     (case strip_prefix SDK_V1_PREFIX token of
        Some rest \<Rightarrow>
          (case tc_decode codec rest of
             None \<Rightarrow> Inl bad_request
           | Some json \<Rightarrow>
               (case tc_from_json codec json of
                  None \<Rightarrow> Inl (client_error SERIALIZATION_RESPONSE_BODY_INVALID)
                | Some state \<Rightarrow> Inr (ClientV1 state)))
      | None \<Rightarrow>
          (case parse_client_version_prefix token of
             Some _ \<Rightarrow> Inl bad_request
           | None \<Rightarrow> Inr (ServerOpaque token)))"

definition is_valid_for_operation :: "token_state \<Rightarrow> feed_operation \<Rightarrow> cosmos_error + unit" where
  "is_valid_for_operation self operation =
     (case for_operation operation of
        Inl e \<Rightarrow> Inl e
      | Inr expected \<Rightarrow>
          if tok_operation self \<noteq> expected then Inl bad_request
          else case op_container (fo_operation operation) of
            None \<Rightarrow> Inl bad_request
          | Some container \<Rightarrow> if tok_rid self \<noteq> cref_container_rid container then Inl bad_request else Inr ())"

section \<open>Plans\<close>

record operation_plan =
  pl_pipeline :: pipeline
  pl_operation :: feed_operation

definition to_continuation_token :: "token_codec \<Rightarrow> operation_plan \<Rightarrow> cosmos_error + string" where
  "to_continuation_token codec self =
     (case pipeline_snapshot_state (pl_pipeline self) of
        Inl e \<Rightarrow> Inl e
      | Inr state \<Rightarrow> encode_v1 codec (pl_operation self) state)"

definition resume_state ::
  "token_codec \<Rightarrow> feed_operation \<Rightarrow> string option \<Rightarrow> cosmos_error + pipeline_node_state option" where
  "resume_state codec operation continuation =
     (case continuation of
        None \<Rightarrow> Inr None
      | Some token \<Rightarrow>
          (case resolve_token codec token of
             Inl e \<Rightarrow> Inl e
           | Inr (ClientV1 state) \<Rightarrow>
               (case is_valid_for_operation state operation of Inl e \<Rightarrow> Inl e | Inr _ \<Rightarrow> Inr (Some (tok_root state)))
           | Inr (ServerOpaque server_token) \<Rightarrow>
               if \<not> is_trivial operation
               then Inl (client_error CLIENT_OPAQUE_TOKEN_INVALID_FOR_CROSS_PARTITION_QUERY)
               else Inr (Some (StateRequest (Some server_token)))))"

definition plan_operation ::
  "bool \<Rightarrow> token_codec \<Rightarrow> cosmos_error + query_plan \<Rightarrow> topology \<Rightarrow> feed_operation \<Rightarrow> string option \<Rightarrow> event list \<Rightarrow>
   (node_failure + operation_plan) \<times> event list" where
  "plan_operation initialized codec fetched_plan topology operation continuation h =
     (let as_plan = (\<lambda>pipeline. \<lparr>pl_pipeline = pipeline, pl_operation = operation\<rparr>) in
      if \<not> initialized then (Inl (Failed (client_error CLIENT_DRIVER_NOT_INITIALIZED)), h)
      else case resume_state codec operation continuation of
        Inl e \<Rightarrow> (Inl (Failed e), h)
      | Inr resume \<Rightarrow>
          if is_trivial operation then
            (map_sum Failed as_plan (build_trivial_pipeline operation resume), h)
          else if fo_is_change_feed operation then
            (case op_container (fo_operation operation) of
               None \<Rightarrow> (Inl (Failed (client_error CLIENT_CROSS_PARTITION_QUERY_REQUIRES_CONTAINER_REF)), h)
             | Some _ \<Rightarrow>
                 (case build_unordered_merge (case fo_target operation of Some rng \<Rightarrow> rng | None \<Rightarrow> feed_range_full)
                         topology operation resume h of
                    (result, h) \<Rightarrow> (map_sum id as_plan result, h)))
          else
            (case op_container (fo_operation operation) of
               None \<Rightarrow> (Inl (Failed (client_error CLIENT_CROSS_PARTITION_QUERY_REQUIRES_CONTAINER_REF)), h)
             | Some _ \<Rightarrow>
                 (case fetched_plan of
                    Inl e \<Rightarrow> (Inl (Failed e), h)
                  | Inr query_plan \<Rightarrow>
                      (case build_sequential_drain query_plan topology operation resume h of
                         (result, h) \<Rightarrow> (map_sum Failed as_plan result, h)))))"

section \<open>Tokens bring back the state\<close>

text \<open>What the packages for JSON and base64 document: decoding inverts encoding.\<close>

definition codec_faithful :: "token_codec \<Rightarrow> bool" where
  "codec_faithful codec \<longleftrightarrow>
     (\<forall>state json. tc_to_json codec state = Some json \<longrightarrow> tc_from_json codec json = Some state) \<and>
     (\<forall>json. tc_decode codec (tc_encode codec json) = Some json)"

lemma token_resolves:
  assumes "codec_faithful codec" and "encode_v1 codec operation root_state = Inr token"
  shows "\<exists>kind container. for_operation operation = Inr kind \<and> op_container (fo_operation operation) = Some container \<and>
    resolve_token codec token = Inr (ClientV1 \<lparr>tok_operation = kind, tok_rid = cref_container_rid container, tok_root = root_state\<rparr>)"
  using assms by (auto simp: codec_faithful_def encode_v1_def resolve_token_def split: sum.splits option.splits)

lemma token_resumes:
  assumes "codec_faithful codec" and "encode_v1 codec operation root_state = Inr token"
  shows "resume_state codec operation (Some token) = Inr (Some root_state)"
  using token_resolves[OF assms] by (auto simp: resume_state_def is_valid_for_operation_def)

lemma plan_query:
  assumes "\<not> is_trivial operation" and "\<not> fo_is_change_feed operation"
    and "op_container (fo_operation operation) = Some container"
    and "resume_state codec operation continuation = Inr resume"
  shows "plan_operation True codec (Inr plan) topology operation continuation h =
    (case build_sequential_drain plan topology operation resume h of
       (result, h) \<Rightarrow> (map_sum Failed (\<lambda>p. \<lparr>pl_pipeline = p, pl_operation = operation\<rparr>) result, h))"
  using assms by (simp add: plan_operation_def Let_def)

lemma plan_query_fresh:
  assumes "\<not> is_trivial operation" and "\<not> fo_is_change_feed operation"
    and "plan_operation True codec (Inr plan) topology operation None h0 = (Inr pl, h)"
  shows "build_sequential_drain plan topology operation None h0 = (Inr (pl_pipeline pl), h) \<and> pl_operation pl = operation"
  using assms
  by (auto simp: plan_operation_def Let_def resume_state_def map_sum_def split: option.splits sum.splits prod.splits)

definition ex_state :: pipeline_node_state where
  "ex_state = StateSequentialDrain [] [\<lparr>rt_min_epk = [], rt_max_epk = ''80'', rt_server_continuation = ''c''\<rparr>]"

definition ex_token_state :: token_state where
  "ex_token_state = \<lparr>tok_operation = TokenQuery, tok_rid = cref_container_rid some_container, tok_root = ex_state\<rparr>"

definition ex_codec :: token_codec where
  "ex_codec = \<lparr>tc_to_json = (\<lambda>state. if state = ex_token_state then Some ''{}'' else None),
     tc_from_json = (\<lambda>json. if json = ''{}'' then Some ex_token_state else None),
     tc_encode = id, tc_decode = Some\<rparr>"

lemma ex_codec_faithful: "codec_faithful ex_codec"
  by (simp add: codec_faithful_def ex_codec_def)

lemma ex_query: "\<not> is_trivial ex_operation" "op_container (fo_operation ex_operation) = Some some_container"
  "for_operation ex_operation = Inr TokenQuery"
  by (simp_all add: is_trivial_def ex_operation_def for_operation_def)

lemma ex_encoded: "encode_v1 ex_codec ex_operation ex_state = Inr (SDK_V1_PREFIX @ ''{}'')"
  by (simp add: encode_v1_def ex_query) (simp add: ex_codec_def ex_token_state_def)

lemma ex_first_plan:
  "plan_operation True ex_codec (Inr ex_plan) ex_topology ex_operation None [] =
   (Inr \<lparr>pl_pipeline = DrainRoot [ex_lower None, ex_upper None], pl_operation = ex_operation\<rparr>, [Resolved feed_range_full UseCached])"
  using plan_query[of ex_operation some_container ex_codec None None ex_plan ex_topology "[]"]
  by (simp add: ex_query ex_planned resume_state_def)

lemma ex_second_plan:
  "plan_operation True ex_codec (Inr ex_plan) ex_topology ex_operation (Some (SDK_V1_PREFIX @ ''{}'')) h =
   (Inr \<lparr>pl_pipeline = DrainRoot [ex_lower (Some ''c''), ex_upper None], pl_operation = ex_operation\<rparr>, Resolved feed_range_full UseCached # h)"
  using plan_query[of ex_operation some_container ex_codec _ "Some ex_state" ex_plan ex_topology h,
      OF _ _ _ token_resumes[OF ex_codec_faithful ex_encoded]]
  by (simp add: ex_query ex_resumed(2) ex_state_def)

text \<open>C6. A cross-partition query goes on where it stopped. Plan a query whose ranges are non-empty, sorted and disjoint, on a
  topology provider that covers what it is asked for, and run any session of it. The continuation token of its
  pipeline, handed back to the driver with the same operation, gives a plan whose work is the same on every key:
  the same continuation where there was one, a fresh start where there was none, nothing where the key was done.
  The driver fetches the query plan again; this holds if that plan names the same ranges. The driver only
  fails if the fetch fails, the plan that it fetches is not supported, or the topology provider fails.\<close>

theorem query_resumes_from_token:
  assumes "codec_faithful codec" and "dc_topology ctx = Some topology" and "topology_sound topology"
    and "\<not> is_trivial operation" and "\<not> fo_is_change_feed operation"
    and "query_feed_ranges operation (qp_query_ranges plan) = Inr frs" and "ranges_ordered frs"
    and "plan_operation True codec (Inr plan) topology operation None h0 = (Inr pl, h)"
    and "query_session ctx topology plan operation (pl_pipeline pl) h pages p' h'"
    and "to_continuation_token codec \<lparr>pl_pipeline = p', pl_operation = operation\<rparr> = Inr token"
    and "case fetched of Inl _ \<Rightarrow> True | Inr plan' \<Rightarrow> query_feed_ranges operation (qp_query_ranges plan') = Inr frs"
  shows "case plan_operation True codec fetched topology operation (Some token) h' of
      (Inl e, _) \<Rightarrow> \<exists>e'. e = Failed e' \<and>
        (fetched = Inl e' \<or> (\<exists>plan'. fetched = Inr plan' \<and> validate_query_plan plan' = Inl e') \<or> (\<exists>h f. topology h f UseCached = Inl e'))
    | (Inr pl', _) \<Rightarrow> pl_operation pl' = operation \<and> (\<forall>k. pipeline_work (pl_pipeline pl') k = pipeline_work p' k)"
proof -
  have ctx: "topology_covers ctx" using assms(2,3) by (simp add: topology_covers_def)
  have plan: "build_sequential_drain plan topology operation None h0 = (Inr (pl_pipeline pl), h)"
    using plan_query_fresh[OF assms(4,5,8)] by blast
  have q: "query_pipeline operation frs (pl_pipeline pl)" using query_fresh[OF assms(3,6,7) plan] by blast
  have q': "query_pipeline operation frs p'" using session_follows[OF assms(3) ctx assms(6,7) q assms(9)] by blast
  obtain state where st: "pipeline_snapshot_state p' = Inr state" and enc: "encode_v1 codec operation state = Inr token"
    using assms(10) by (auto simp: to_continuation_token_def split: sum.splits)
  obtain container where c: "op_container (fo_operation operation) = Some container"
    using token_resolves[OF assms(1) enc] by (elim exE conjE)
  note resumed = token_resumes[OF assms(1) enc]
  show ?thesis
  proof (cases fetched)
    case (Inl e)
    then show ?thesis using assms(4,5) c resumed by (simp add: plan_operation_def)
  next
    case (Inr plan')
    note planned = plan_query[OF assms(4,5) c resumed, of plan' topology h']
    obtain result h2 where b: "build_sequential_drain plan' topology operation (Some state) h' = (result, h2)" by fastforce
    show ?thesis
    proof (cases "validate_query_plan plan'")
      case (Inl e)
      with b have "result = Inl e" by (simp add: build_sequential_drain_def)
      with Inl Inr planned b show ?thesis by simp
    next
      case (Inr u)
      have "case build_sequential_drain plan' topology operation (Some state) h' of
         (Inl e, _) \<Rightarrow> \<exists>h f. topology h f UseCached = Inl e
       | (Inr p'', _) \<Rightarrow> query_pipeline operation frs p'' \<and> (\<forall>k. pipeline_work p'' k = pipeline_work p' k)"
        using query_resume[OF assms(3) _ assms(7) _ q', of plan' h'] assms(11) \<open>fetched = Inr plan'\<close> Inr st by auto
      with planned b \<open>fetched = Inr plan'\<close> show ?thesis by (cases result) auto
    qed
  qed
qed

theorem query_resumes_from_token_witness:
  "\<exists>token pl' h'. to_continuation_token ex_codec \<lparr>pl_pipeline = DrainRoot [ex_lower (Some ''c''), ex_upper None], pl_operation = ex_operation\<rparr> = Inr token \<and>
     plan_operation True ex_codec (Inr ex_plan) ex_topology ex_operation (Some token)
       [Executed (ex_request (ex_lower None)), Resolved feed_range_full UseCached] = (Inr pl', h') \<and>
     pipeline_work (pl_pipeline pl') [0x10] = pipeline_work (DrainRoot [ex_lower (Some ''c''), ex_upper None]) [0x10]"
proof -
  let ?p = "DrainRoot [ex_lower (Some ''c''), ex_upper None]"
  have tok: "to_continuation_token ex_codec \<lparr>pl_pipeline = ?p, pl_operation = ex_operation\<rparr> = Inr (SDK_V1_PREFIX @ ''{}'')"
    by (simp only: to_continuation_token_def operation_plan.select_convs ex_resumed(1) sum.case ex_encoded[unfolded ex_state_def])
  have run: "query_session ex_context ex_topology ex_plan ex_operation
      (pl_pipeline \<lparr>pl_pipeline = DrainRoot [ex_lower None, ex_upper None], pl_operation = ex_operation\<rparr>) [Resolved feed_range_full UseCached]
      ([] @ [(ex_request (ex_lower None), ex_response (Some ''c''))]) ?p [Executed (ex_request (ex_lower None)), Resolved feed_range_full UseCached]"
    unfolding operation_plan.select_convs by (rule query_session.page[OF query_session.start ex_pages(1)])
  have ctx: "dc_topology ex_context = Some ex_topology" by (simp add: ex_context_def)
  have cf: "\<not> fo_is_change_feed ex_operation" by simp
  have "\<forall>k. pipeline_work (pl_pipeline \<lparr>pl_pipeline = ?p, pl_operation = ex_operation\<rparr>) k = pipeline_work ?p k"
    using query_resumes_from_token[OF ex_codec_faithful ctx ex_topology_sound ex_query(1) cf ex_ranges ex_ranges_ordered ex_first_plan
        run tok, of "Inr ex_plan"]
    unfolding ex_second_plan prod.case sum.case by (simp only: ex_ranges) blast
  with tok ex_second_plan show ?thesis by blast
qed

text \<open>C18. A token is only good for what it was made for: when the driver accepts a token that was made for an
  operation, the operation it is used with is of the same kind, query or change feed, and on a container
  with the same resource id.\<close>

theorem token_only_for_its_container:
  assumes "codec_faithful codec" and "encode_v1 codec operation root_state = Inr token"
    and "plan_operation initialized codec fetched_plan topology operation' (Some token) h = (Inr pl, h')"
  shows "initialized \<and> for_operation operation' = for_operation operation \<and>
    map_option cref_container_rid (op_container (fo_operation operation')) =
    map_option cref_container_rid (op_container (fo_operation operation))"
proof -
  obtain kind container where k: "for_operation operation = Inr kind" "op_container (fo_operation operation) = Some container"
    and r: "resolve_token codec token = Inr (ClientV1 \<lparr>tok_operation = kind, tok_rid = cref_container_rid container, tok_root = root_state\<rparr>)"
    using token_resolves[OF assms(1,2)] by blast
  have i: "initialized" using assms(3) by (auto simp: plan_operation_def Let_def split: if_splits)
  then obtain resume where "resume_state codec operation' (Some token) = Inr resume"
    using assms(3) by (auto simp: plan_operation_def Let_def split: sum.splits)
  with r k i show ?thesis
    by (auto simp: resume_state_def is_valid_for_operation_def split: sum.splits if_splits option.splits)
qed

theorem token_only_for_its_container_witness:
  "\<exists>pl h'. plan_operation True ex_codec (Inr ex_plan) ex_topology ex_operation (Some (SDK_V1_PREFIX @ ''{}'')) [] = (Inr pl, h') \<and>
     for_operation ex_operation = Inr TokenQuery"
  using token_only_for_its_container[OF ex_codec_faithful ex_encoded ex_second_plan[of "[]"]] ex_second_plan[of "[]"] ex_query(3) by blast

text \<open>C35. Resuming a change feed does not ignore the start position that the caller hands in. If the saved
  feed began at the beginning and the caller resumes it with another start, then every key of the feed's range that
  no saved token covers, whose partition was not polled before, is read from the caller's start: what happened
  there before is skipped. The topology provider must cover what it is asked for, and the ranges of the saved tokens
  must not go beyond the maximum key.\<close>

theorem resume_keeps_callers_start:
  assumes "topology_sound topology" and "proper_range rng"
    and "build_unordered_merge rng topology (with_change_feed_start start operation) (Some (StateUnorderedMerge tokens (Some Beginning))) h =
      (Inr p, h')"
    and "validate_unordered_merge_tokens tokens = Inr saved" and "in_feed_range rng k" and "token_at saved k = None"
    and "list_all (\<lambda>token. epk_le (epk_from_str (rt_max_epk token)) epk_MAX) tokens"
  shows "\<exists>op. pipeline_work p k = Some (op, None) \<and> fo_change_feed_start op = Some Beginning \<and>
    (case start of
       Beginning \<Rightarrow> True
     | Now \<Rightarrow> fo_precondition op = Some (IfNoneMatch ''*'')
     | PointInTime timestamp \<Rightarrow> fo_if_modified_since op = Some timestamp)"
proof -
  let ?op = "with_change_feed_start Beginning (with_change_feed_start start operation)"
  have "plan_merge rng topology ?op saved (Some Beginning) h = (Inr p, h')"
    using assms(3,4) by (simp add: build_unordered_merge_def)
  moreover have "tokens_ordered saved"
    using assms(4,7) validate_merge_ordered[of "[]"] by (simp add: validate_unordered_merge_tokens_def)
  ultimately obtain nodes where "p = MergeRoot \<lparr>um_children = nodes, um_cursor = 0, um_start_marker = Some Beginning\<rparr>"
    "planned ?op (fr_lo rng) (fr_hi rng) (range_keys rng) (token_at saved) nodes"
    using plan_merge_planned[OF assms(1,2), where ts = saved and operation = ?op and marker = "Some Beginning" and h = h] by auto
  then have "pipeline_work p k = Some (?op, None)" using assms(5,6) by (simp add: pipeline_children_def planned_def)
  then show ?thesis by (simp add: with_change_feed_start_def split: change_feed_start_from.split)
qed

theorem resume_keeps_callers_start_witness:
  "\<exists>p h' op. build_unordered_merge feed_range_full ex_topology (with_change_feed_start Now ex_feed) (Some (StateUnorderedMerge [] (Some Beginning))) [] = (Inr p, h') \<and>
     pipeline_work p [0x10] = Some (op, None) \<and> fo_precondition op = Some (IfNoneMatch ''*'')"
proof -
  have full: "proper_range feed_range_full" "in_feed_range feed_range_full [0x10]"
    by (simp_all add: feed_range_full_def proper_range_def ex_keys)
  have "\<exists>p h'. build_unordered_merge feed_range_full ex_topology (with_change_feed_start Now ex_feed) (Some (StateUnorderedMerge [] (Some Beginning))) [] = (Inr p, h')"
    by (simp add: build_unordered_merge_def validate_unordered_merge_tokens_def plan_merge_def merge_leaf_def ex_topology_def two_ranges_def
        overlaps_def intersect_feed_ranges_def new_feed_range_def feed_range_new_def feed_range_full_def ex_keys)
  then obtain p h' where plan: "build_unordered_merge feed_range_full ex_topology (with_change_feed_start Now ex_feed)
      (Some (StateUnorderedMerge [] (Some Beginning))) [] = (Inr p, h')" by blast
  have none: "validate_unordered_merge_tokens [] = Inr []" by (simp add: validate_unordered_merge_tokens_def)
  from resume_keeps_callers_start[OF ex_topology_sound full(1) plan none full(2)] plan show ?thesis by auto
qed

end
