(* ===== verification/Spec2Isabelle.thy ===== *)
theory Spec2Isabelle
  imports Location_Snapshot Operation_Pipeline Operation_Plan
begin

text \<open>
  A verification library for the Cosmos DB data plane of the Azure SDK for Rust, the crate
  \<^verbatim>\<open>src/sdk/cosmos/azure_data_cosmos_driver\<close>. Paths below are relative to its \<^verbatim>\<open>src\<close> directory.

  \<^bold>\<open>The program.\<close> The driver sends an operation on a container to one of the regions of an account.
  Three questions decide where and with what it goes out: which physical partition owns the
  partition key, which region serves the request now, and which session token makes the read see the
  caller's own writes. When an attempt fails the driver decides whether to try again, where, after which
  delay, and what to remember about the region. A point read may be raced between two regions. A query or a
  change feed over several partitions is planned as a tree of nodes, paged, and saved in a continuation token.
  The theories follow these questions.

  \<^bold>\<open>Session consistency.\<close> \<open>Session_Token\<close> models \<^verbatim>\<open>models/vector_session_token.rs\<close>,
  \<^verbatim>\<open>models/session_token_segment.rs\<close> and the compound tokens of \<^verbatim>\<open>models/mod.rs\<close>. Merging is shown to be
  an upper bound in the order of recency, to agree with a join of abstract tokens, and printing to be
  inverted by parsing. \<open>Session_Container\<close> models \<^verbatim>\<open>driver/routing/session_container.rs\<close> and
  \<^verbatim>\<open>session_manager.rs\<close> as operations on one state, the lock making each of them atomic. Along any run the
  token resolved for a partition covers everything captured for it, a container that was deleted and
  created again never sees its predecessor's tokens, and a checked write that fails changes nothing.
  \<open>Operation_Types\<close> holds the resource and operation types.

  \<^bold>\<open>Partitions.\<close> \<open>Murmur_Hash\<close>, \<open>Partition_Key\<close> and \<open>Epk\<close> compute effective partition keys on machine words
  (\<^verbatim>\<open>models/murmur_hash.rs\<close>, \<^verbatim>\<open>models/partition_key.rs\<close>, \<^verbatim>\<open>models/effective_partition_key.rs\<close>); the
  length-aware order is the order of the keys as zero-extended numbers. \<open>Ranges\<close> models
  \<^verbatim>\<open>models/range.rs\<close>, \<^verbatim>\<open>models/partition_key_range.rs\<close> and \<^verbatim>\<open>models/feed_range.rs\<close>. \<open>Routing_Map\<close> models
  \<^verbatim>\<open>driver/cache/container_routing_map.rs\<close>: the validated ranges tile the key space, every key has exactly one
  owner and the binary search finds it, the overlap query equals a linear scan, and a refresh keeps
  all this. \<open>Rust_Slice\<close> and \<open>Rust_Strings\<close> hold the parts of the Rust standard library that are used.

  \<^bold>\<open>Regions.\<close> \<open>Endpoints\<close> and \<open>Failover_Options\<close> model \<^verbatim>\<open>options/region.rs\<close>, \<^verbatim>\<open>driver/routing/endpoint.rs\<close>,
  \<^verbatim>\<open>account_endpoint_state.rs\<close>, \<^verbatim>\<open>options/env_parsing.rs\<close> and \<^verbatim>\<open>options/partition_failover.rs\<close>.
  \<open>Partition_Failover\<close> models the routing systems for single partitions (\<^verbatim>\<open>driver/routing/routing_systems.rs\<close>,
  \<^verbatim>\<open>partition_endpoint_state.rs\<close>): write failover and the circuit breaker. \<open>Location_Store\<close> models
  \<^verbatim>\<open>driver/routing/location_state_store.rs\<close>: whatever happens, every endpoint list stays non-empty and an
  endpoint that was marked comes back only after a successful probe. \<open>Location_Snapshot\<close>
  interleaves the lock-free snapshot cache with the updates, one shared access per step, and shows that no
  snapshot is stale.

  \<^bold>\<open>Retries.\<close> \<open>Cosmos_Status\<close> holds statuses, errors and the outcome of an attempt (\<^verbatim>\<open>error/\<close>,
  \<^verbatim>\<open>driver/pipeline/components.rs\<close>). \<open>Retry_State\<close> models the retry budgets of \<^verbatim>\<open>components.rs\<close>,
  \<open>Retry_Evaluation\<close> the decisions of \<^verbatim>\<open>driver/pipeline/retry_evaluation.rs\<close>, and \<open>Transport_Retry\<close> the loop of
  \<^verbatim>\<open>driver/transport/transport_pipeline.rs\<close>. The lemmas bound the number of retries and the time slept,
  say when a failure leads to another region, and show that a leg of a hedge race is judged as the
  sequential pipeline judges it.

  \<^bold>\<open>Operations.\<close> \<open>Operation_Routing\<close> models how \<^verbatim>\<open>driver/pipeline/operation_pipeline.rs\<close> chooses the endpoint of an
  attempt and treats deferred effects: healthy endpoints come first, and a write avoids the regions for which it
  holds a deferred failure mark while there is another. \<open>Hedging\<close> models \<^verbatim>\<open>hedging_eligibility.rs\<close>, \<^verbatim>\<open>hedging_diagnostics.rs\<close>,
  \<^verbatim>\<open>options/availability_strategy.rs\<close> and the race of \<^verbatim>\<open>execute_hedged\<close> over an explicit schedule of its legs
  and timers. \<open>Operation_Pipeline\<close> composes these theories, the transport loop of each request included, into the loop
  of \<^verbatim>\<open>execute_operation_pipeline\<close>: it ends after a bounded number of rounds whatever the service answers and
  whatever other operations do to the shared stores, and it panics only with more than 72 throttling retries or a
  deadline that an \<^verbatim>\<open>Instant\<close> cannot hold; the response is one that the service gave to a request of the last
  round, and later requests carry the session token that it brought while the container is not recreated.

  \<^bold>\<open>Paged operations.\<close> \<open>Partition_Cache\<close> models \<^verbatim>\<open>driver/cache/partition_key_range_cache.rs\<close> and
  \<^verbatim>\<open>driver/dataflow/topology.rs\<close>; the cache holds only maps that tile the key space, and \<open>Key_Order\<close> shows that the
  topology provider covers each range it is asked for. \<open>Dataflow_Nodes\<close> models \<^verbatim>\<open>request.rs\<close>, \<^verbatim>\<open>drain.rs\<close>,
  \<^verbatim>\<open>unordered_merge.rs\<close>, \<^verbatim>\<open>drained.rs\<close>, \<^verbatim>\<open>snapshot.rs\<close> and \<^verbatim>\<open>pipeline.rs\<close> of \<^verbatim>\<open>driver/dataflow\<close>, \<open>Dataflow_Planner\<close> its
  \<^verbatim>\<open>planner.rs\<close>, and \<open>Operation_Plan\<close> \<^verbatim>\<open>models/continuation_token.rs\<close> and \<^verbatim>\<open>plan_operation\<close> of
  \<^verbatim>\<open>driver/cosmos_driver.rs\<close>. \<open>Dataflow_Work\<close> and \<open>Dataflow_Resume\<close> specify a pipeline by its work: for each key of
  the key space, the operation and the continuation that are still to be asked for it. \<open>Paged_Query\<close> follows a
  key through all the pages of a session, with splits, merges, failures and resumptions in between: a query asks
  for it exactly once along the continuations of the server, a change feed neither skips nor repeats a change. These
  statements are for topology providers that cover what they are asked for, as the cached one does on a map
  without empty ranges, and for query plans whose ranges are non-empty, sorted and disjoint, which the planner takes
  as given; a change feed must be resumed with the start it had, and what happens otherwise is stated as well.

  \<^bold>\<open>Interfaces.\<close> \<open>Prelude\<close> has the hash maps and the shared lemmas. The locales are \<open>dict\<close> (a map with an
  invariant, interpreted by the association lists), \<open>recency\<close> (tokens ordered by progress with a
  merge, interpreted by vectors, values and segments), \<open>cmp_preorder\<close> (the comparison of keys),
  \<open>invariant_system\<close> (initial states, steps and an invariant, interpreted by the partition state, the store
  and the concurrent store), \<open>bounded_retries\<close> (a loop that uses up a budget, interpreted by the
  transport loop and the operation pipeline), \<open>pipeline_node\<close> (a child of a drain or a merge, with its work and what
  a page does to it) and \<open>endless_node\<close> (a child that never drains); the last two are interpreted by the
  request leaf, for queries and for change feeds.

  \<^bold>\<open>Conventions.\<close> A hash map is an association list with distinct keys, a hash set a set, a string its
  characters (bytes in \<open>Partition_Key\<close>), an integer a word of its width where it can overflow. Durations and
  instants are nanoseconds. A fallible function returns a sum whose left side is the error; a panic is
  the outer \<open>None\<close>. Clocks, random numbers, hashers, codecs of other packages, probes, the answers of
  the service and the results of sending are arguments. Recursion is structural or has a measure; a
  loop that waits for the service takes the list of what happens to it and says \<open>Running\<close> when
  that list is too short.

  \<^bold>\<open>Not modelled.\<close> Sending requests (HTTP clients, connection pools, RNTBD framing, signing) is network
  I/O; the caches of account properties and containers, background task management, logging and
  diagnostics carry no decision that the modelled parts depend on; the query engine, which parses queries and
  makes query plans, is an argument of the planner, as are the JSON and base64 packages. The other crates of
  the repository (identity, storage, key vault, messaging, core) are separate programs, mostly generated
  clients, of which the driver uses the HTTP types only.
\<close>

end
